(* ===== verification/Prelude.thy ===== *)
theory Prelude
  imports Main "HOL-Library.Word" "HOL-Library.Signed_Division" "HOL-Library.Monad_Syntax"
begin

text \<open>
  Shared vocabulary of the JOS development: the C integer types of inc/types.h at their
  i386 widths, the byte memory that every pointer of the C code points into with its
  little-endian 16- and 32-bit accesses, address ranges, NUL-terminated strings, and the
  result type of kernel code that can panic.
\<close>

unbundle bit_operations_syntax

section \<open>Machine integers and memory\<close>

type_synonym u8 = "8 word"
type_synonym u16 = "16 word"
type_synonym u32 = "32 word"
type_synonym u64 = "64 word"

text \<open>
  A C \<open>int\<close> is an \<open>i32\<close>: the same 32 bits as \<open>u32\<close>, compared with \<open><s\<close> and
  \<open>\<le>s\<close> and read with \<open>sint\<close>.  Signed arithmetic wraps, as the i386 instructions do.
\<close>

type_synonym i32 = "32 word"

type_synonym memory = "u32 \<Rightarrow> u8"

named_theorems mem_simps \<open>reading memory after writes\<close>

subsection \<open>Address ranges\<close>

text \<open>\<open>in_rng a p n\<close>: the address \<open>a\<close> is one of the \<open>n\<close> bytes from \<open>p\<close> on.\<close>

definition in_rng :: "u32 \<Rightarrow> u32 \<Rightarrow> nat \<Rightarrow> bool" where
  "in_rng a p n \<longleftrightarrow> unat (a - p) < n"

definition disjoint_rng :: "u32 \<Rightarrow> nat \<Rightarrow> u32 \<Rightarrow> nat \<Rightarrow> bool" where
  "disjoint_rng p n q k \<longleftrightarrow> n \<le> unat (q - p) \<and> k \<le> unat (p - q)"

lemma unat_lt32: "unat (a :: u32) < 4294967296"
proof -
  have "unat a < 2 ^ LENGTH(32)" by (rule unsigned_less)
  then show ?thesis by simp
qed

lemma unat_of_nat32: "n < 4294967296 \<Longrightarrow> unat (of_nat n :: u32) = n"
  by (simp add: unat_of_nat)

lemma unat_Suc_pred: "n \<noteq> (0 :: 'a :: len word) \<Longrightarrow> unat n = Suc (unat (n - 1))"
proof -
  assume n: "n \<noteq> 0"
  then have "0 < unat n" by (simp only: unat_gt_0) simp
  with unat_minus_one [OF n] show ?thesis by linarith
qed

lemma word_pos_iff: "(0 :: 'a :: len word) < n \<longleftrightarrow> n \<noteq> 0"
  by (simp only: word_neq_0_conv)

lemma signed31: "- 2147483648 \<le> k \<Longrightarrow> k < 2147483648 \<Longrightarrow> signed_take_bit 31 (k :: int) = k"
  by (rule signed_take_bit_int_eq_self) simp_all

lemma sint32_range: "- 2147483648 \<le> sint (w :: i32)" "sint w < 2147483648"
  using sint_range_size [of w] by (simp_all add: word_size)

lemma sint_minus_1: "- 2147483648 < sint (w :: i32) \<Longrightarrow> sint (w - 1) = sint w - 1"
  using sint32_range [of w] by (simp add: sint_word_diff signed31)

lemma sint_nonneg_uint: "0 \<le> sint (w :: i32) \<Longrightarrow> int (unat w) = sint w"
proof -
  assume w: "0 \<le> sint w"
  have "uint w = take_bit 32 (sint w)" using uint_sint [of w] by simp
  also have "\<dots> = sint w" using w sint32_range [of w] by (simp add: take_bit_int_eq_self)
  finally show ?thesis by simp
qed

lemma sint_neg_uint: "sint (w :: i32) < 0 \<Longrightarrow> 2147483648 \<le> unat w"
proof (rule ccontr)
  assume neg: "sint w < 0" and "\<not> 2147483648 \<le> unat w"
  then have "uint w < 2147483648" by (simp only: not_le flip: of_nat_less_iff [where 'a = int]) simp
  then have "sint w = uint w" using signed31 [of "uint w"] uint_ge_0 [of w] by (simp add: sint_uint)
  with neg show False by simp
qed

lemma sint_of_nat32: "n < 2147483648 \<Longrightarrow> sint (of_nat n :: i32) = int n"
  by (simp add: signed_of_nat signed31)

lemma sint_minus_of_nat:
  "n < 2147483648 \<Longrightarrow> - 2147483648 \<le> sint (w :: i32) - int n \<Longrightarrow>
    sint (w - of_nat n) = sint w - int n"
  using sint32_range [of w] by (simp add: sint_word_diff sint_of_nat32 signed31)

lemma zero_sle: "0 \<le>s (w :: i32) \<longleftrightarrow> unat w < 2147483648"
proof (cases "0 \<le> sint w")
  case True
  then have "int (unat w) < int 2147483648" unfolding sint_nonneg_uint [OF True] using sint32_range [of w] by simp
  then have "unat w < 2147483648" by (simp only: of_nat_less_iff)
  with True show ?thesis by (simp add: word_sle_eq)
next
  case False
  then show ?thesis using sint_neg_uint [of w] by (simp add: word_sle_eq)
qed

lemma uint8_range: "0 \<le> uint (x :: u8)" "uint x < 256"
  using uint_bounded [of x] by simp_all

lemma sint_ucast8: "sint (ucast (x :: u8) :: i32) = uint x"
proof -
  have "signed_take_bit 31 (uint x) = uint x"
    by (rule signed31) (use uint8_range [of x] in linarith)+
  then show ?thesis by (simp add: signed_ucast_eq)
qed

lemma sint_diff8: "sint (ucast (x :: u8) - ucast (y :: u8) :: i32) = uint x - uint y"
proof -
  have "signed_take_bit 31 (uint x - uint y) = uint x - uint y"
    by (rule signed31) (use uint8_range [of x] uint8_range [of y] in linarith)+
  then show ?thesis by (simp add: sint_word_diff sint_ucast8)
qed

lemma unat_sub_Suc:
  fixes a p :: u32
  assumes "a \<noteq> p"
  shows "unat (a - p) = Suc (unat (a - (p + 1)))"
proof -
  have nz: "a - p \<noteq> 0" using assms by simp
  then have pos: "0 < unat (a - p)" by (simp only: unat_gt_0) simp
  have "a - (p + 1) = a - p - 1" by (simp add: algebra_simps)
  then have "unat (a - (p + 1)) = unat (a - p) - 1" 
    by (simp only: unat_minus_one [OF nz])
  with pos show ?thesis by linarith
qed

lemma in_rng_0 [simp]: "\<not> in_rng a p 0"
  by (simp add: in_rng_def)

lemma in_rng_Suc: "in_rng a p (Suc n) \<longleftrightarrow> a = p \<or> in_rng a (p + 1) n"
proof (cases "a = p")
  case True
  then show ?thesis by (simp add: in_rng_def)
next
  case False
  then show ?thesis by (simp add: in_rng_def unat_sub_Suc)
qed

lemma not_in_rng_start: "n < 4294967296 \<Longrightarrow> \<not> in_rng p (p + 1) n"
proof -
  assume n: "n < 4294967296"
  have "p - (p + 1) = (4294967295 :: u32)" by simp
  moreover have "unat (4294967295 :: u32) = 4294967295" by simp
  ultimately show ?thesis using n by (simp only: in_rng_def)
qed

lemma in_rng_mono: "in_rng a p n \<Longrightarrow> n \<le> k \<Longrightarrow> in_rng a p k"
  by (simp add: in_rng_def)

lemma in_rng_offset: "i < n \<Longrightarrow> n \<le> 4294967296 \<Longrightarrow> in_rng (p + of_nat i) p n"
  by (simp add: in_rng_def unat_of_nat)

lemma disjoint_rng_sym: "disjoint_rng p n q k \<longleftrightarrow> disjoint_rng q k p n"
  by (auto simp: disjoint_rng_def)

text \<open>Two disjoint ranges have no address in common.\<close>

lemma disjoint_rng_not_in:
  assumes d: "disjoint_rng p n q k" and a: "in_rng a p n"
  shows "\<not> in_rng a q k"
proof
  assume b: "in_rng a q k"
  define x y where "x = a - p" and "y = a - q"
  have xy: "unat x < n" "unat y < k" using a b by (simp_all add: in_rng_def x_def y_def)
  have qp: "q - p = x - y" and pq: "p - q = y - x" by (simp_all add: x_def y_def)
  show False
  proof (cases "unat y \<le> unat x")
    case True
    then have "y \<le> x" by (simp add: word_le_nat_alt)
    then have "unat (x - y) = unat x - unat y" by (simp add: unat_sub)
    with d xy qp show False unfolding disjoint_rng_def by simp linarith
  next
    case False
    then have "x \<le> y" by (simp add: word_le_nat_alt)
    then have "unat (y - x) = unat y - unat x" by (simp add: unat_sub)
    with d xy pq show False unfolding disjoint_rng_def by simp linarith
  qed
qed

lemma disjoint_rng_neq:
  "disjoint_rng p n q k \<Longrightarrow> in_rng a p n \<Longrightarrow> in_rng b q k \<Longrightarrow> a \<noteq> b"
  using disjoint_rng_not_in by blast

subsection \<open>Runs of bytes\<close>

primrec read_bytes :: "memory \<Rightarrow> u32 \<Rightarrow> nat \<Rightarrow> u8 list" where
  "read_bytes m p 0 = []"
| "read_bytes m p (Suc n) = m p # read_bytes m (p + 1) n"

primrec write_bytes :: "u8 list \<Rightarrow> u32 \<Rightarrow> memory \<Rightarrow> memory" where
  "write_bytes [] p m = m"
| "write_bytes (x # xs) p m = write_bytes xs (p + 1) (m(p := x))"

lemma length_read_bytes [simp]: "length (read_bytes m p n) = n"
  by (induction n arbitrary: p) auto

lemma nth_read_bytes: "i < n \<Longrightarrow> read_bytes m p n ! i = m (p + of_nat i)"
proof (induction n arbitrary: p i)
  case 0
  then show ?case by simp
next
  case (Suc n)
  then show ?case by (cases i) (simp_all add: algebra_simps)
qed

lemma read_bytes_cong:
  "(\<And>a. in_rng a p n \<Longrightarrow> m a = m' a) \<Longrightarrow> read_bytes m p n = read_bytes m' p n"
  by (induction n arbitrary: p) (auto simp: in_rng_Suc)

text \<open>The memory after a run of writes, at every address.\<close>

lemma write_bytes_apply:
  assumes "length xs \<le> 4294967296"
  shows "write_bytes xs p m a =
    (if in_rng a p (length xs) then xs ! unat (a - p) else m a)"
  using assms
proof (induction xs arbitrary: p m)
  case Nil
  then show ?case by simp
next
  case (Cons x xs)
  then have IH: "write_bytes xs (p + 1) (m(p := x)) a =
    (if in_rng a (p + 1) (length xs) then xs ! unat (a - (p + 1)) else (m(p := x)) a)"
    by simp
  show ?case
  proof (cases "a = p")
    case True
    then have "\<not> in_rng a (p + 1) (length xs)" using not_in_rng_start Cons.prems by simp
    with IH True show ?thesis by (simp add: in_rng_def)
  next
    case False
    then show ?thesis using IH by (simp add: in_rng_Suc unat_sub_Suc)
  qed
qed

lemma write_bytes_other:
  "length xs \<le> 4294967296 \<Longrightarrow> \<not> in_rng a p (length xs) \<Longrightarrow> write_bytes xs p m a = m a"
  by (simp add: write_bytes_apply)

lemma read_write_bytes:
  assumes "length xs \<le> 4294967296"
  shows "read_bytes (write_bytes xs p m) p (length xs) = xs"
proof (rule nth_equalityI)
  show "length (read_bytes (write_bytes xs p m) p (length xs)) = length xs" by simp
next
  fix i
  assume "i < length (read_bytes (write_bytes xs p m) p (length xs))"
  then have i: "i < length xs" by simp
  with assms have "unat (of_nat i :: u32) = i" by (simp add: unat_of_nat)
  with i assms show "read_bytes (write_bytes xs p m) p (length xs) ! i = xs ! i"
    by (simp add: nth_read_bytes write_bytes_apply in_rng_offset)
qed

lemma write_bytes_append:
  "write_bytes (xs @ ys) p m = write_bytes ys (p + of_nat (length xs)) (write_bytes xs p m)"
  by (induction xs arbitrary: p m) (simp_all add: algebra_simps)

text \<open>A memory with the given bytes from \<open>p\<close> on and zero everywhere else.\<close>

definition image :: "u32 \<Rightarrow> u8 list \<Rightarrow> memory" where
  "image p xs a = (let i = unat (a - p) in if i < length xs then xs ! i else 0)"

subsection \<open>Little-endian accesses\<close>

definition load16 :: "memory \<Rightarrow> u32 \<Rightarrow> u16" where
  "load16 m a = ucast (m a) OR push_bit 8 (ucast (m (a + 1)))"

definition store16 :: "memory \<Rightarrow> u32 \<Rightarrow> u16 \<Rightarrow> memory" where
  "store16 m a v = m(a := ucast v, a + 1 := ucast (drop_bit 8 v))"

definition load32 :: "memory \<Rightarrow> u32 \<Rightarrow> u32" where
  "load32 m a = ucast (m a) OR push_bit 8 (ucast (m (a + 1)))
     OR push_bit 16 (ucast (m (a + 2))) OR push_bit 24 (ucast (m (a + 3)))"

definition store32 :: "memory \<Rightarrow> u32 \<Rightarrow> u32 \<Rightarrow> memory" where
  "store32 m a v = m(a := ucast v, a + 1 := ucast (drop_bit 8 v),
     a + 2 := ucast (drop_bit 16 v), a + 3 := ucast (drop_bit 24 v))"

text \<open>What a typed access to memory promises, whatever its width.\<close>

locale cell_access =
  fixes load :: "memory \<Rightarrow> u32 \<Rightarrow> 'v" and store :: "memory \<Rightarrow> u32 \<Rightarrow> 'v \<Rightarrow> memory"
    and width :: nat
  assumes load_store: "load (store m a v) a = v"
    and store_frame: "\<not> in_rng b a width \<Longrightarrow> store m a v b = m b"
    and load_local: "(\<And>b. in_rng b a width \<Longrightarrow> m b = m' b) \<Longrightarrow> load m a = load m' a"
begin

lemma load_store_other:
  assumes "disjoint_rng a width b width"
  shows "load (store m b v) a = load m a"
proof (rule load_local)
  fix c
  assume "in_rng c a width"
  with assms have "\<not> in_rng c b width" by (rule disjoint_rng_not_in)
  then show "store m b v c = m c" by (rule store_frame)
qed

lemma load_after_writes:
  assumes "\<And>c. in_rng c a width \<Longrightarrow> m' c = m c"
  shows "load m' a = load m a"
  using assms by (rule load_local)

end

lemma in_rng_2: "in_rng b a 2 \<longleftrightarrow> b = a \<or> b = a + 1"
  by (simp add: in_rng_Suc numeral_2_eq_2)

lemma in_rng_4: "in_rng b a 4 \<longleftrightarrow> b = a \<or> b = a + 1 \<or> b = a + 2 \<or> b = a + 3"
  by (simp add: in_rng_Suc eval_nat_numeral add.assoc)

interpretation cell16: cell_access load16 store16 2
proof
  fix m :: memory and a b :: u32 and v :: u16
  show "load16 (store16 m a v) a = v"
    by (rule bit_word_eqI)
      (auto simp: load16_def store16_def bit_or_iff bit_push_bit_iff bit_ucast_iff bit_drop_bit_eq)
  show "\<not> in_rng b a 2 \<Longrightarrow> store16 m a v b = m b"
    by (simp add: store16_def in_rng_2)
next
  fix a :: u32 and m m' :: memory
  assume "\<And>b. in_rng b a 2 \<Longrightarrow> m b = m' b"
  then show "load16 m a = load16 m' a" by (simp add: load16_def in_rng_2)
qed

interpretation cell32: cell_access load32 store32 4
proof
  fix m :: memory and a b :: u32 and v :: u32
  show "load32 (store32 m a v) a = v"
  proof (rule bit_word_eqI)
    fix n
    assume "n < LENGTH(32)"
    then consider "n < 8" | "8 \<le> n" "n < 16" | "16 \<le> n" "n < 24" | "24 \<le> n" "n < 32"
      by fastforce
    then show "bit (load32 (store32 m a v) a) n = bit v n"
      by cases (simp_all add: load32_def store32_def bit_simps, linarith+)
  qed
  show "\<not> in_rng b a 4 \<Longrightarrow> store32 m a v b = m b"
    by (simp add: store32_def in_rng_4)
next
  fix a :: u32 and m m' :: memory
  assume "\<And>b. in_rng b a 4 \<Longrightarrow> m b = m' b"
  then show "load32 m a = load32 m' a" by (simp add: load32_def in_rng_4)
qed

lemmas cell_simps = cell16.load_store cell32.load_store
  cell16.load_store_other cell32.load_store_other

text \<open>Two bytes read one after the other, put together as a number.\<close>

lemma byte_pair:
  fixes lo hi :: u8
  shows "ucast lo OR push_bit 8 (ucast hi) = (of_nat (unat lo + 256 * unat hi) :: u32)"
proof -
  have "(ucast lo :: u32) AND push_bit 8 (ucast hi) = 0"
    by (rule bit_word_eqI) (auto simp: bit_simps dest: bit_imp_le_length)
  then have "ucast lo OR push_bit 8 (ucast hi) = (ucast lo + push_bit 8 (ucast hi) :: u32)"
    by (rule disjunctive_add_eq_or [symmetric])
  moreover have "push_bit 8 (ucast hi :: u32) = 256 * ucast hi" by (simp add: push_bit_eq_mult)
  ultimately show ?thesis by (simp only: of_nat_add of_nat_mult of_nat_unat of_nat_numeral)
qed

lemma byte_pair_cut:
  fixes lo hi :: u8
  shows "unat (ucast (push_bit 8 (ucast hi) OR ucast lo :: u32) :: u16) = unat lo + 256 * unat hi"
proof -
  have "unat lo < 256" "unat hi < 256" using unsigned_less [of lo] unsigned_less [of hi] by simp_all
  then have "unat lo + 256 * unat hi < 65536" by simp
  then show ?thesis
    by (simp only: or.commute [of "push_bit 8 (ucast hi)"] byte_pair unsigned_ucast_eq unsigned_of_nat)
      (simp add: take_bit_nat_def)
qed
end
