(* ===== verification/Machine.thy ===== *)
theory Machine
  imports Prelude
begin

text \<open>
  The i386 seen by the kernel (inc/x86.h): the memory, the control registers and the I/O
  ports.  The devices behind the ports are not part of the repository.  They are the record
  \<open>hw\<close> of functions that answer an input instruction from the complete log of port accesses
  so far, newest first, so that any deterministic device can be put there and every effect
  on a device can be read off the log.  \<open>hw_cga_ram\<close> says whether the CGA text window is backed
  by memory, which the console driver probes for.
\<close>

section \<open>Hardware and machine state\<close>

datatype io_event =
    EIn8 u16 u8 | EIn16 u16 u16 | EIn32 u16 u32
  | EOut8 u16 u8 | EOut16 u16 u16 | EOut32 u16 u32
  | EInvlpg u32

record hw =
  hw_in8 :: "io_event list \<Rightarrow> u16 \<Rightarrow> u8"
  hw_in16 :: "io_event list \<Rightarrow> u16 \<Rightarrow> u16"
  hw_in32 :: "io_event list \<Rightarrow> u16 \<Rightarrow> u32"
  hw_cga_ram :: bool

record machine =
  mem :: memory
  io_log :: "io_event list"
  cr0 :: u32
  cr2 :: u32
  cr3 :: u32
  cr4 :: u32
  eflags :: u32

definition log_event :: "io_event \<Rightarrow> 'a machine_scheme \<Rightarrow> 'a machine_scheme" where
  "log_event e s = s\<lparr>io_log := e # io_log s\<rparr>"

text \<open>
  The addresses the linker chooses (kern/kernel.ld and the literals in .rodata): a parameter
  of every function that mentions one of these symbols.
\<close>

record linkmap =
  sym_start :: u32
  sym_entry :: u32
  sym_etext :: u32
  sym_edata :: u32
  sym_bss_start :: u32
  sym_end :: u32
  sym_bootstack :: u32
  sym_entry_pgtable :: u32
  sym_entry_pgdir :: u32
  STAB_BEGIN :: u32
  STAB_END :: u32
  STABSTR_BEGIN :: u32
  STABSTR_END :: u32
  lit_unknown :: u32
  sym_line_buf :: u32

section \<open>Results of kernel code\<close>

text \<open>
  String literals are lists of bytes.  A variable argument is one 32-bit stack slot of the i386
  calling convention or a pointer to a string literal.
\<close>

abbreviation asc :: "char \<Rightarrow> 'a :: comm_semiring_1" where
  "asc c \<equiv> of_char c"

abbreviation ascii :: "string \<Rightarrow> u8 list" where
  "ascii xs \<equiv> map of_char xs"

datatype vararg = Slot u32 | Lit "u8 list"

text \<open>
  A kernel function returns a value and the new state, or calls \<open>_panic\<close>, which does not return,
  with its arguments in some state.  A computation of type \<open>('a, 's) kres option\<close> is \<open>None\<close>
  when it never gets so far.
\<close>

record panic_call =
  pc_file :: "u8 list"
  pc_line :: i32
  pc_fmt :: "u8 list"
  pc_args :: "vararg list"

datatype ('a, 's) kres = Ret 'a 's | Panic panic_call 's

type_synonym ('a, 's) kernel = "'s \<Rightarrow> ('a, 's) kres option"

definition kreturn :: "'a \<Rightarrow> ('a, 's) kernel" where
  "kreturn x s = Some (Ret x s)"

definition kpanic :: "string \<Rightarrow> i32 \<Rightarrow> u8 list \<Rightarrow> vararg list \<Rightarrow> ('a, 's) kernel" where
  "kpanic file line fmt args s =
     Some (Panic \<lparr>pc_file = ascii file, pc_line = line, pc_fmt = fmt, pc_args = args\<rparr> s)"

definition kbind ::
    "('a, 's) kres option \<Rightarrow> ('a \<Rightarrow> 's \<Rightarrow> ('b, 's) kres option) \<Rightarrow> ('b, 's) kres option" where
  "kbind c f = Option.bind c (\<lambda>r. case r of Ret x s \<Rightarrow> f x s | Panic p s \<Rightarrow> Some (Panic p s))"

definition kassert :: "string \<Rightarrow> i32 \<Rightarrow> bool \<Rightarrow> string \<Rightarrow> (unit, 's) kernel" where
  "kassert file line x expr s =
     (if x then kreturn () s
      else kpanic file line (ascii ''assertion failed: %s'') [Lit (ascii expr)] s)"

text \<open>A call of a function that cannot panic.\<close>

definition kcall :: "('a \<times> 's) option \<Rightarrow> ('a, 's) kres option" where
  "kcall c = map_option (\<lambda>(x, s). Ret x s) c"

lemma kcall_simps [simp]: "kcall None = None" "kcall (Some (x, s)) = Some (Ret x s)"
  by (simp_all add: kcall_def)

lemma kbind_simps [simp]:
  "kbind None f = None"
  "kbind (Some (Ret x s)) f = f x s"
  "kbind (Some (Panic p s)) f = Some (Panic p s)"
  by (simp_all add: kbind_def)

lemma kbind_kreturn [simp]: "kbind (kreturn x s) f = f x s"
  by (simp add: kreturn_def)

lemma kbind_kpanic [simp]: "kbind (kpanic file line fmt args s) f = kpanic file line fmt args s"
  by (simp add: kpanic_def)

lemma kbind_kassert [simp]:
  "kbind (kassert file line x expr s) f =
     (if x then f () s else kpanic file line (ascii ''assertion failed: %s'') [Lit (ascii expr)] s)"
  by (simp add: kassert_def)

lemma kbind_assoc: "kbind (kbind c f) g = kbind c (\<lambda>x s. kbind (f x s) g)"
  by (cases c) (auto simp: kbind_def split: kres.splits)

lemma kbind_mono [partial_function_mono]:
  assumes "mono_option B" and "\<And>x s. mono_option (\<lambda>f. C f x s)"
  shows "mono_option (\<lambda>f. kbind (B f) (\<lambda>x s. C f x s))"
  unfolding kbind_def
proof (rule bind_mono [OF assms(1)])
  fix r :: "('c, 'd) kres"
  show "mono_option (\<lambda>f. case r of Ret x s \<Rightarrow> C f x s | Panic p s \<Rightarrow> Some (Panic p s))"
    by (cases r) (simp_all add: assms(2) option.const_mono)
qed

section \<open>Port input and output\<close>

text \<open>The assembly operand \<open>%w1\<close> is the low half of the register that holds the port.\<close>

definition inb :: "hw \<Rightarrow> u32 \<Rightarrow> 'a machine_scheme \<Rightarrow> u8 \<times> 'a machine_scheme" where
  "inb h port s =
     (let p = ucast port; v = hw_in8 h (io_log s) p in (v, log_event (EIn8 p v) s))"

definition inw :: "hw \<Rightarrow> u32 \<Rightarrow> 'a machine_scheme \<Rightarrow> u16 \<times> 'a machine_scheme" where
  "inw h port s =
     (let p = ucast port; v = hw_in16 h (io_log s) p in (v, log_event (EIn16 p v) s))"

definition inl :: "hw \<Rightarrow> u32 \<Rightarrow> 'a machine_scheme \<Rightarrow> u32 \<times> 'a machine_scheme" where
  "inl h port s =
     (let p = ucast port; v = hw_in32 h (io_log s) p in (v, log_event (EIn32 p v) s))"

definition outb :: "u32 \<Rightarrow> u8 \<Rightarrow> 'a machine_scheme \<Rightarrow> 'a machine_scheme" where
  "outb port data s = log_event (EOut8 (ucast port) data) s"

definition outw :: "u32 \<Rightarrow> u16 \<Rightarrow> 'a machine_scheme \<Rightarrow> 'a machine_scheme" where
  "outw port data s = log_event (EOut16 (ucast port) data) s"

definition outl :: "u32 \<Rightarrow> u32 \<Rightarrow> 'a machine_scheme \<Rightarrow> 'a machine_scheme" where
  "outl port data s = log_event (EOut32 (ucast port) data) s"

text \<open>
  The string forms \<open>cld; repne ins*\<close> and \<open>outs*\<close> move \<open>cnt\<close> items, the count register read
  as unsigned, through ascending addresses.
\<close>

primrec insb_rep :: "hw \<Rightarrow> u32 \<Rightarrow> nat \<Rightarrow> u32 \<Rightarrow> 'a machine_scheme \<Rightarrow> 'a machine_scheme" where
  "insb_rep h port 0 addr s = s"
| "insb_rep h port (Suc n) addr s =
     (let (v, s1) = inb h port s
      in insb_rep h port n (addr + 1) (s1\<lparr>mem := (mem s1)(addr := v)\<rparr>))"

primrec insw_rep :: "hw \<Rightarrow> u32 \<Rightarrow> nat \<Rightarrow> u32 \<Rightarrow> 'a machine_scheme \<Rightarrow> 'a machine_scheme" where
  "insw_rep h port 0 addr s = s"
| "insw_rep h port (Suc n) addr s =
     (let (v, s1) = inw h port s
      in insw_rep h port n (addr + 2) (s1\<lparr>mem := store16 (mem s1) addr v\<rparr>))"

primrec insl_rep :: "hw \<Rightarrow> u32 \<Rightarrow> nat \<Rightarrow> u32 \<Rightarrow> 'a machine_scheme \<Rightarrow> 'a machine_scheme" where
  "insl_rep h port 0 addr s = s"
| "insl_rep h port (Suc n) addr s =
     (let (v, s1) = inl h port s
      in insl_rep h port n (addr + 4) (s1\<lparr>mem := store32 (mem s1) addr v\<rparr>))"

definition insb :: "hw \<Rightarrow> u32 \<Rightarrow> u32 \<Rightarrow> i32 \<Rightarrow> 'a machine_scheme \<Rightarrow> 'a machine_scheme" where
  "insb h port addr cnt s = insb_rep h port (unat cnt) addr s"

definition insw :: "hw \<Rightarrow> u32 \<Rightarrow> u32 \<Rightarrow> i32 \<Rightarrow> 'a machine_scheme \<Rightarrow> 'a machine_scheme" where
  "insw h port addr cnt s = insw_rep h port (unat cnt) addr s"

definition insl :: "hw \<Rightarrow> u32 \<Rightarrow> u32 \<Rightarrow> i32 \<Rightarrow> 'a machine_scheme \<Rightarrow> 'a machine_scheme" where
  "insl h port addr cnt s = insl_rep h port (unat cnt) addr s"

primrec outsb_rep :: "u32 \<Rightarrow> nat \<Rightarrow> u32 \<Rightarrow> 'a machine_scheme \<Rightarrow> 'a machine_scheme" where
  "outsb_rep port 0 addr s = s"
| "outsb_rep port (Suc n) addr s = outsb_rep port n (addr + 1) (outb port (mem s addr) s)"

primrec outsw_rep :: "u32 \<Rightarrow> nat \<Rightarrow> u32 \<Rightarrow> 'a machine_scheme \<Rightarrow> 'a machine_scheme" where
  "outsw_rep port 0 addr s = s"
| "outsw_rep port (Suc n) addr s = outsw_rep port n (addr + 2) (outw port (load16 (mem s) addr) s)"

primrec outsl_rep :: "u32 \<Rightarrow> nat \<Rightarrow> u32 \<Rightarrow> 'a machine_scheme \<Rightarrow> 'a machine_scheme" where
  "outsl_rep port 0 addr s = s"
| "outsl_rep port (Suc n) addr s = outsl_rep port n (addr + 4) (outl port (load32 (mem s) addr) s)"

definition outsb :: "u32 \<Rightarrow> u32 \<Rightarrow> i32 \<Rightarrow> 'a machine_scheme \<Rightarrow> 'a machine_scheme" where
  "outsb port addr cnt s = outsb_rep port (unat cnt) addr s"

definition outsw :: "u32 \<Rightarrow> u32 \<Rightarrow> i32 \<Rightarrow> 'a machine_scheme \<Rightarrow> 'a machine_scheme" where
  "outsw port addr cnt s = outsw_rep port (unat cnt) addr s"

definition outsl :: "u32 \<Rightarrow> u32 \<Rightarrow> i32 \<Rightarrow> 'a machine_scheme \<Rightarrow> 'a machine_scheme" where
  "outsl port addr cnt s = outsl_rep port (unat cnt) addr s"

section \<open>Control registers, flags and atomic exchange\<close>

definition invlpg :: "u32 \<Rightarrow> 'a machine_scheme \<Rightarrow> 'a machine_scheme" where
  "invlpg addr s = log_event (EInvlpg addr) s"

definition lcr0 :: "u32 \<Rightarrow> 'a machine_scheme \<Rightarrow> 'a machine_scheme" where
  "lcr0 val s = s\<lparr>cr0 := val\<rparr>"

definition rcr0 :: "'a machine_scheme \<Rightarrow> u32" where
  "rcr0 s = cr0 s"

definition rcr2 :: "'a machine_scheme \<Rightarrow> u32" where
  "rcr2 s = cr2 s"

definition lcr3 :: "u32 \<Rightarrow> 'a machine_scheme \<Rightarrow> 'a machine_scheme" where
  "lcr3 val s = s\<lparr>cr3 := val\<rparr>"

definition rcr3 :: "'a machine_scheme \<Rightarrow> u32" where
  "rcr3 s = cr3 s"

definition lcr4 :: "u32 \<Rightarrow> 'a machine_scheme \<Rightarrow> 'a machine_scheme" where
  "lcr4 val s = s\<lparr>cr4 := val\<rparr>"

definition rcr4 :: "'a machine_scheme \<Rightarrow> u32" where
  "rcr4 s = cr4 s"

definition tlbflush :: "'a machine_scheme \<Rightarrow> 'a machine_scheme" where
  "tlbflush s = (let v = cr3 s in s\<lparr>cr3 := v\<rparr>)"

definition read_eflags :: "'a machine_scheme \<Rightarrow> u32" where
  "read_eflags s = eflags s"

definition write_eflags :: "u32 \<Rightarrow> 'a machine_scheme \<Rightarrow> 'a machine_scheme" where
  "write_eflags v s = s\<lparr>eflags := v\<rparr>"

definition xchg :: "u32 \<Rightarrow> u32 \<Rightarrow> 'a machine_scheme \<Rightarrow> u32 \<times> 'a machine_scheme" where
  "xchg addr newval s =
     (load32 (mem s) addr, s\<lparr>mem := store32 (mem s) addr newval\<rparr>)"

section \<open>Facts about port accesses\<close>

named_theorems port_simps \<open>what a port access leaves unchanged\<close>

lemma log_event_fields [port_simps]:
  "mem (log_event e s) = mem s"
  "io_log (log_event e s) = e # io_log s"
  by (simp_all add: log_event_def)

lemma inb_fields [port_simps]:
  "mem (snd (inb h p s)) = mem s"
  "io_log (snd (inb h p s)) = EIn8 (ucast p) (fst (inb h p s)) # io_log s"
  "fst (inb h p s) = hw_in8 h (io_log s) (ucast p)"
  by (simp_all add: inb_def Let_def port_simps)

lemma outb_fields [port_simps]:
  "mem (outb p v s) = mem s"
  "io_log (outb p v s) = EOut8 (ucast p) v # io_log s"
  by (simp_all add: outb_def port_simps)

lemma inl_fields [port_simps]:
  "mem (snd (inl h p s)) = mem s"
  "io_log (snd (inl h p s)) = EIn32 (ucast p) (fst (inl h p s)) # io_log s"
  "fst (inl h p s) = hw_in32 h (io_log s) (ucast p)"
  by (simp_all add: inl_def Let_def port_simps)

text \<open>
  A device that answers the \<open>k\<close>-th of a run of 32-bit reads with \<open>f k\<close>: then the string
  input instruction stores \<open>f 0\<close>, \<open>f 1\<close>, \<dots> in consecutive words.
\<close>

primrec store_words :: "(nat \<Rightarrow> u32) \<Rightarrow> nat \<Rightarrow> u32 \<Rightarrow> memory \<Rightarrow> memory" where
  "store_words f 0 addr m = m"
| "store_words f (Suc n) addr m =
     store_words (\<lambda>k. f (Suc k)) n (addr + 4) (store32 m addr (f 0))"

primrec in32_run :: "u16 \<Rightarrow> (nat \<Rightarrow> u32) \<Rightarrow> nat \<Rightarrow> io_event list \<Rightarrow> io_event list" where
  "in32_run p f 0 l = l"
| "in32_run p f (Suc n) l = EIn32 p (f n) # in32_run p f n l"

lemma in32_run_Suc:
  "in32_run p f (Suc n) l = in32_run p (\<lambda>k. f (Suc k)) n (EIn32 p (f 0) # l)"
  by (induction n) auto

lemma insl_rep_stores:
  assumes "\<And>k. k < n \<Longrightarrow> hw_in32 h (in32_run (ucast port) f k (io_log s)) (ucast port) = f k"
  shows "insl_rep h port n addr s =
    s\<lparr>mem := store_words f n addr (mem s), io_log := in32_run (ucast port) f n (io_log s)\<rparr>"
  using assms
proof (induction n arbitrary: f addr s)
  case 0
  then show ?case by simp
next
  case (Suc n)
  let ?f = "\<lambda>k. f (Suc k)"
  let ?s = "s\<lparr>io_log := EIn32 (ucast port) (f 0) # io_log s, mem := store32 (mem s) addr (f 0)\<rparr>"
  have f0: "hw_in32 h (io_log s) (ucast port) = f 0" using Suc.prems [of 0] by simp
  have "hw_in32 h (in32_run (ucast port) ?f k (io_log ?s)) (ucast port) = ?f k" if "k < n" for k
    using Suc.prems [of "Suc k"] that in32_run_Suc [of "ucast port" f k "io_log s"] by simp
  then have "insl_rep h port n (addr + 4) ?s = ?s\<lparr>mem := store_words ?f n (addr + 4) (mem ?s),
      io_log := in32_run (ucast port) ?f n (io_log ?s)\<rparr>"
    by (rule Suc.IH)
  also have "\<dots> = s\<lparr>mem := store_words f (Suc n) addr (mem s),
      io_log := in32_run (ucast port) f (Suc n) (io_log s)\<rparr>"
    unfolding in32_run_Suc by simp
  finally show ?case
    using f0 by (simp add: inl_def Let_def log_event_def)
qed

end
