(* ===== verification/Mmu.thy ===== *)
theory Mmu
  imports Prelude
begin

text \<open>
  inc/types.h, inc/mmu.h and inc/memlayout.h: rounding, the parts of a linear address, the flags of
  page table entries and control registers, and the virtual memory map.
\<close>

section \<open>Rounding (inc/types.h)\<close>

definition ROUNDDOWN :: "u32 \<Rightarrow> u32 \<Rightarrow> u32" where
  "ROUNDDOWN a n = a - a mod n"

definition ROUNDUP :: "u32 \<Rightarrow> u32 \<Rightarrow> u32" where
  "ROUNDUP a n = ROUNDDOWN (a + n - 1) n"

lemma unat_ROUNDDOWN: "unat (ROUNDDOWN a n) = unat a - unat a mod unat n"
proof -
  have "a mod n \<le> a" by (simp add: word_le_nat_alt unat_mod)
  then show ?thesis by (simp add: ROUNDDOWN_def unat_sub unat_mod)
qed

lemma ROUNDDOWN_nat:
  "unat (ROUNDDOWN a n) = unat n * (unat a div unat n)"
  using div_mult_mod_eq [of "unat a" "unat n"]
  by (simp add: unat_ROUNDDOWN minus_mod_eq_mult_div)

lemma ROUNDUP_nat:
  assumes n: "0 < unat n" and fits: "unat a + unat n \<le> 4294967296"
  shows "unat (ROUNDUP a n) = unat n * ((unat a + unat n - 1) div unat n)"
proof -
  have "n \<noteq> 0" using n by (simp add: unat_gt_0)
  then have n1: "unat (n - 1) = unat n - 1" by (rule unat_minus_one)
  have "unat (a + (n - 1)) = unat a + unat (n - 1)"
    using fits n n1 by (subst unat_plus_if') simp
  moreover have "a + n - 1 = a + (n - 1)" by simp
  ultimately have "unat (a + n - 1) = unat a + unat n - 1" using n n1 by (simp only:)
  then show ?thesis by (simp add: ROUNDUP_def ROUNDDOWN_nat)
qed

section \<open>Linear addresses (inc/mmu.h)\<close>

definition PGNUM :: "u32 \<Rightarrow> u32" where
  "PGNUM la = drop_bit 12 la"

definition PDX :: "u32 \<Rightarrow> u32" where
  "PDX la = drop_bit 22 la AND 0x3FF"

definition PTX :: "u32 \<Rightarrow> u32" where
  "PTX la = drop_bit 12 la AND 0x3FF"

definition PGOFF :: "u32 \<Rightarrow> u32" where
  "PGOFF la = la AND 0xFFF"

definition PGADDR :: "u32 \<Rightarrow> u32 \<Rightarrow> u32 \<Rightarrow> u32" where
  "PGADDR d t off = push_bit 22 d OR push_bit 12 t OR off"

definition NPDENTRIES :: u32 where [simp]: "NPDENTRIES = 1024"
definition NPTENTRIES :: u32 where [simp]: "NPTENTRIES = 1024"
definition PGSIZE :: u32 where [simp]: "PGSIZE = 4096"
definition PTSIZE :: u32 where [simp]: "PTSIZE = PGSIZE * NPTENTRIES"

definition PTE_P :: u32 where [simp]: "PTE_P = 0x001"
definition PTE_W :: u32 where [simp]: "PTE_W = 0x002"
definition PTE_U :: u32 where [simp]: "PTE_U = 0x004"
definition PTE_PS :: u32 where [simp]: "PTE_PS = 0x080"

definition PTE_ADDR :: "u32 \<Rightarrow> u32" where
  "PTE_ADDR pte = pte AND NOT 0xFFF"

definition CR0_PE :: u32 where [simp]: "CR0_PE = 0x00000001"
definition CR0_MP :: u32 where [simp]: "CR0_MP = 0x00000002"
definition CR0_EM :: u32 where [simp]: "CR0_EM = 0x00000004"
definition CR0_TS :: u32 where [simp]: "CR0_TS = 0x00000008"
definition CR0_NE :: u32 where [simp]: "CR0_NE = 0x00000020"
definition CR0_WP :: u32 where [simp]: "CR0_WP = 0x00010000"
definition CR0_AM :: u32 where [simp]: "CR0_AM = 0x00040000"
definition CR0_PG :: u32 where [simp]: "CR0_PG = 0x80000000"

text \<open>The masks of the address macros, bit by bit.\<close>

lemma mask_3FF: "(0x3FF :: 'a :: len word) = mask 10"
  by (simp add: mask_eq_exp_minus_1)

lemma mask_FFF: "(0xFFF :: 'a :: len word) = mask 12"
  by (simp add: mask_eq_exp_minus_1)

lemmas addr_defs = PGNUM_def PDX_def PTX_def PGOFF_def PGADDR_def PTE_ADDR_def mask_3FF mask_FFF

lemma addr_bits [bit_simps]:
  "bit (PGNUM la) i \<longleftrightarrow> bit la (12 + i)"
  "bit (PDX la) i \<longleftrightarrow> i < 10 \<and> bit la (22 + i)"
  "bit (PTX la) i \<longleftrightarrow> i < 10 \<and> bit la (12 + i)"
  "bit (PGOFF la) i \<longleftrightarrow> i < 12 \<and> bit la i"
  "bit (PTE_ADDR la) i \<longleftrightarrow> 12 \<le> i \<and> bit la i"
  by (auto simp: addr_defs bit_simps dest: bit_imp_le_length)

lemma PGADDR_parts: "PGADDR (PDX la) (PTX la) (PGOFF la) = la"
proof (rule bit_word_eqI)
  fix i
  assume "i < LENGTH(32)"
  then consider "i < 12" | "12 \<le> i" "i < 22" | "22 \<le> i" "i < 32" by fastforce
  then show "bit (PGADDR (PDX la) (PTX la) (PGOFF la)) i = bit la i"
    by cases (auto simp: PGADDR_def bit_simps)
qed

lemma bits_below:
  fixes w :: u32
  assumes "unat w < 2 ^ n" and "n \<le> i"
  shows "\<not> bit w i"
proof -
  have "take_bit n w = w"
    using assms(1) by (simp add: word_unat_eq_iff unsigned_take_bit_eq take_bit_nat_eq_self)
  then have "bit w i \<longleftrightarrow> bit (take_bit n w) i" by simp
  then show ?thesis using assms(2) by (simp add: bit_take_bit_iff)
qed

lemma PGADDR_split:
  assumes d: "unat d < 1024" and t: "unat t < 1024" and off: "unat off < 4096"
  shows "PDX (PGADDR d t off) = d" "PTX (PGADDR d t off) = t" "PGOFF (PGADDR d t off) = off"
proof -
  have d': "i < 10" if "bit d i" for i using bits_below [of d 10 i] d that by force
  have t': "i < 10" if "bit t i" for i using bits_below [of t 10 i] t that by force
  have o': "i < 12" if "bit off i" for i using bits_below [of off 12 i] off that by force
  have *: "bit (PGADDR d t off) i \<longleftrightarrow>
    (if i < 12 then bit off i else if i < 22 then bit t (i - 12) else i < 32 \<and> bit d (i - 22))" for i
    by (auto simp: PGADDR_def bit_simps dest: bit_imp_le_length o' t')
  show "PDX (PGADDR d t off) = d"
    by (rule bit_word_eqI) (auto simp: addr_bits * dest: d')
  show "PTX (PGADDR d t off) = t"
    by (rule bit_word_eqI) (auto simp: addr_bits * dest: t')
  show "PGOFF (PGADDR d t off) = off"
    by (rule bit_word_eqI) (auto simp: addr_bits * dest: o')
qed

section \<open>The virtual memory map (inc/memlayout.h)\<close>

definition KERNBASE :: u32 where [simp]: "KERNBASE = 0xF0000000"
definition IOPHYSMEM :: u32 where [simp]: "IOPHYSMEM = 0x0A0000"
definition EXTPHYSMEM :: u32 where [simp]: "EXTPHYSMEM = 0x100000"
definition KSTACKTOP :: u32 where [simp]: "KSTACKTOP = KERNBASE"
definition KSTKSIZE :: u32 where [simp]: "KSTKSIZE = 8 * PGSIZE"
definition KSTKGAP :: u32 where [simp]: "KSTKGAP = 8 * PGSIZE"
definition MMIOLIM :: u32 where [simp]: "MMIOLIM = KSTACKTOP - PTSIZE"
definition MMIOBASE :: u32 where [simp]: "MMIOBASE = MMIOLIM - PTSIZE"
definition ULIM :: u32 where [simp]: "ULIM = MMIOBASE"
definition UVPT :: u32 where [simp]: "UVPT = ULIM - PTSIZE"
definition UPAGES :: u32 where [simp]: "UPAGES = UVPT - PTSIZE"
definition UENVS :: u32 where [simp]: "UENVS = UPAGES - PTSIZE"
definition UTOP :: u32 where [simp]: "UTOP = UENVS"
definition UXSTACKTOP :: u32 where [simp]: "UXSTACKTOP = UTOP"
definition USTACKTOP :: u32 where [simp]: "USTACKTOP = UTOP - 2 * PGSIZE"
definition UTEXT :: u32 where [simp]: "UTEXT = 2 * PTSIZE"
definition UTEMP :: u32 where [simp]: "UTEMP = PTSIZE"
definition PFTEMP :: u32 where [simp]: "PFTEMP = UTEMP + PTSIZE - PGSIZE"
definition USTABDATA :: u32 where [simp]: "USTABDATA = PTSIZE div 2"

text \<open>
  The regions the kernel reserves above the user's memory, as half-open intervals: the
  read-only ENVS, PAGES and page-table windows, memory-mapped I/O, the kernel stacks and
  the remapped physical memory (which ends at 4 GiB, the address 0).
\<close>

definition kernel_regions :: "(u32 \<times> u32) list" where
  "kernel_regions =
     [(UENVS, UPAGES), (UPAGES, UVPT), (UVPT, ULIM), (MMIOBASE, MMIOLIM), (MMIOLIM, KERNBASE)]"

end
