(* ===== verification/Strings.thy ===== *)
theory Strings
  imports Prelude
begin

text \<open>
  lib/string.c over the byte memory.  Loops that stop only at a NUL byte are partial
  functions (\<open>None\<close>: the loop runs for ever); loops bounded by a size are total.  A function
  that writes memory returns it, paired with the C return value when that is not simply one of
  the arguments.  A comparison takes the memory of each of its two pointers, so that one of
  them can point into the read-only image of a string literal.
\<close>

section \<open>NUL-terminated strings\<close>

primrec cstr :: "memory \<Rightarrow> u32 \<Rightarrow> u8 list \<Rightarrow> bool" where
  "cstr m p [] \<longleftrightarrow> m p = 0"
| "cstr m p (x # xs) \<longleftrightarrow> m p = x \<and> x \<noteq> 0 \<and> cstr m (p + 1) xs"

text \<open>The image of a string literal: its bytes from address 1 on, then NUL.\<close>

definition lit :: "u8 list \<Rightarrow> memory" where
  "lit xs = image 1 xs"

definition lit_ptr :: u32 where [simp]: "lit_ptr = 1"

lemma cstr_read:
  "cstr m p xs \<longleftrightarrow>
    read_bytes m p (length xs) = xs \<and> 0 \<notin> set xs \<and> m (p + of_nat (length xs)) = 0"
  by (induction xs arbitrary: p) (auto simp: algebra_simps)

lemma cstr_unique: "cstr m p xs \<Longrightarrow> cstr m p ys \<Longrightarrow> xs = ys"
proof (induction xs arbitrary: p ys)
  case Nil
  then show ?case by (cases ys) auto
next
  case (Cons x xs)
  then show ?case by (cases ys) auto
qed

lemma cstr_frame:
  "cstr m p xs \<Longrightarrow> (\<And>a. in_rng a p (Suc (length xs)) \<Longrightarrow> m' a = m a) \<Longrightarrow> cstr m' p xs"
proof (induction xs arbitrary: p)
  case Nil
  then show ?case by (simp add: in_rng_Suc)
next
  case (Cons x xs)
  have "m' a = m a" if "in_rng a (p + 1) (Suc (length xs))" for a
    using Cons.prems(2) that in_rng_Suc [of a p "Suc (length xs)"] by simp
  with Cons.IH Cons.prems(1) have "cstr m' (p + 1) xs" by simp
  moreover have "m' p = m p" using Cons.prems(2) by (simp add: in_rng_Suc)
  ultimately show ?case using Cons.prems(1) by simp
qed

lemma cstr_lit:
  assumes "0 \<notin> set xs" and "length xs < 4294967296"
  shows "cstr (lit xs) lit_ptr xs"
proof -
  have "lit xs (1 + of_nat i) = (if i < length xs then xs ! i else 0)" if "i \<le> length xs" for i
    using assms(2) that by (simp add: lit_def image_def unat_of_nat32)
  then have "read_bytes (lit xs) 1 (length xs) = xs"
    by (intro nth_equalityI) (simp_all add: nth_read_bytes)
  moreover have "lit xs (1 + of_nat (length xs)) = 0"
    using assms(2) by (simp add: lit_def image_def unat_of_nat32)
  ultimately show ?thesis using assms(1) by (simp add: cstr_read)
qed

section \<open>The functions of lib/string.c that only read\<close>

partial_function (option) strlen_loop :: "memory \<Rightarrow> u32 \<Rightarrow> i32 \<Rightarrow> i32 option" where
  "strlen_loop m s n = (if m s \<noteq> 0 then strlen_loop m (s + 1) (n + 1) else Some n)"

definition strlen :: "memory \<Rightarrow> u32 \<Rightarrow> i32 option" where
  "strlen m s = strlen_loop m s 0"

function strnlen_loop :: "memory \<Rightarrow> u32 \<Rightarrow> u32 \<Rightarrow> i32 \<Rightarrow> i32" where
  "strnlen_loop m s sz n =
     (if 0 < sz \<and> m s \<noteq> 0 then strnlen_loop m (s + 1) (sz - 1) (n + 1) else n)"
  by pat_completeness auto
termination
  by (relation "measure (\<lambda>(m, s, sz, n). unat sz)") (auto intro: measure_unat)

declare strnlen_loop.simps [simp del]

definition strnlen :: "memory \<Rightarrow> u32 \<Rightarrow> u32 \<Rightarrow> i32" where
  "strnlen m s sz = strnlen_loop m s sz 0"

text \<open>\<open>(int) ((unsigned char) *p - (unsigned char) *q)\<close>.\<close>

definition char_diff :: "u8 \<Rightarrow> u8 \<Rightarrow> i32" where
  "char_diff x y = ucast x - ucast y"

partial_function (option) strcmp :: "memory \<Rightarrow> u32 \<Rightarrow> memory \<Rightarrow> u32 \<Rightarrow> i32 option" where
  "strcmp mp p mq q =
     (if mp p \<noteq> 0 \<and> mp p = mq q then strcmp mp (p + 1) mq (q + 1)
      else Some (char_diff (mp p) (mq q)))"

function strncmp :: "memory \<Rightarrow> u32 \<Rightarrow> memory \<Rightarrow> u32 \<Rightarrow> u32 \<Rightarrow> i32" where
  "strncmp mp p mq q n =
     (if 0 < n \<and> mp p \<noteq> 0 \<and> mp p = mq q then strncmp mp (p + 1) mq (q + 1) (n - 1)
      else if n = 0 then 0 else char_diff (mp p) (mq q))"
  by pat_completeness auto
termination
  by (relation "measure (\<lambda>(mp, p, mq, q, n). unat n)") (auto intro: measure_unat)

declare strncmp.simps [simp del]

text \<open>\<open>strchr\<close> returns NULL, the address 0, when the character is not found.\<close>

partial_function (option) strchr :: "memory \<Rightarrow> u32 \<Rightarrow> u8 \<Rightarrow> u32 option" where
  "strchr m s c = (if m s \<noteq> 0 then (if m s = c then Some s else strchr m (s + 1) c) else Some 0)"

partial_function (option) strfind :: "memory \<Rightarrow> u32 \<Rightarrow> u8 \<Rightarrow> u32 option" where
  "strfind m s c = (if m s \<noteq> 0 \<and> m s \<noteq> c then strfind m (s + 1) c else Some s)"

function memcmp :: "memory \<Rightarrow> u32 \<Rightarrow> u32 \<Rightarrow> u32 \<Rightarrow> i32" where
  "memcmp m s1 s2 n =
     (if 0 < n then
        if m s1 \<noteq> m s2 then ucast (m s1) - ucast (m s2) else memcmp m (s1 + 1) (s2 + 1) (n - 1)
      else 0)"
  by pat_completeness auto
termination
  by (relation "measure (\<lambda>(m, s1, s2, n). unat n)") (auto intro: measure_unat)

declare memcmp.simps [simp del]

function memfind_loop :: "memory \<Rightarrow> u32 \<Rightarrow> u8 \<Rightarrow> u32 \<Rightarrow> u32" where
  "memfind_loop m s c ends =
     (if s < ends then if m s = c then s else memfind_loop m (s + 1) c ends else s)"
  by pat_completeness auto
termination
proof (relation "measure (\<lambda>(m, s, c, ends). unat (ends - s))", goal_cases)
  case 1
  show ?case by simp
next
  case (2 m s c ends)
  then have "ends - s \<noteq> 0" by auto
  then have "unat (ends - s - 1) < unat (ends - s)" by (rule measure_unat)
  then show ?case by (simp add: algebra_simps)
qed

declare memfind_loop.simps [simp del]

definition memfind :: "memory \<Rightarrow> u32 \<Rightarrow> i32 \<Rightarrow> u32 \<Rightarrow> u32" where
  "memfind m s c n = memfind_loop m s (ucast c) (s + n)"

section \<open>The functions that write\<close>

partial_function (option) strcpy_loop :: "u32 \<Rightarrow> u32 \<Rightarrow> memory \<Rightarrow> memory option" where
  "strcpy_loop dst src m =
     (let c = m src; m' = m(dst := c)
      in if c \<noteq> 0 then strcpy_loop (dst + 1) (src + 1) m' else Some m')"

definition strcpy :: "u32 \<Rightarrow> u32 \<Rightarrow> memory \<Rightarrow> memory option" where
  "strcpy dst src m = strcpy_loop dst src m"

definition strcat :: "u32 \<Rightarrow> u32 \<Rightarrow> memory \<Rightarrow> memory option" where
  "strcat dst src m = do { len \<leftarrow> strlen m dst; strcpy (dst + len) src m }"

primrec strncpy_loop :: "nat \<Rightarrow> u32 \<Rightarrow> u32 \<Rightarrow> memory \<Rightarrow> memory" where
  "strncpy_loop 0 dst src m = m"
| "strncpy_loop (Suc k) dst src m =
     (let m' = m(dst := m src)
      in strncpy_loop k (dst + 1) (if m' src \<noteq> 0 then src + 1 else src) m')"

definition strncpy :: "u32 \<Rightarrow> u32 \<Rightarrow> u32 \<Rightarrow> memory \<Rightarrow> memory" where
  "strncpy dst src sz m = strncpy_loop (unat sz) dst src m"

text \<open>The loop of \<open>strlcpy\<close> returns the advanced \<open>dst\<close> and the memory.\<close>

function strlcpy_loop :: "u32 \<Rightarrow> u32 \<Rightarrow> u32 \<Rightarrow> memory \<Rightarrow> u32 \<times> memory" where
  "strlcpy_loop dst src sz m =
     (let sz' = sz - 1
      in if 0 < sz' \<and> m src \<noteq> 0 \<and> 0 < sz
         then strlcpy_loop (dst + 1) (src + 1) sz' (m(dst := m src))
         else (dst, m(dst := 0)))"
  by pat_completeness auto
termination
  by (relation "measure (\<lambda>(dst, src, sz, m). unat sz)") (auto intro: measure_unat)

declare strlcpy_loop.simps [simp del]

definition strlcpy :: "u32 \<Rightarrow> u32 \<Rightarrow> u32 \<Rightarrow> memory \<Rightarrow> u32 \<times> memory" where
  "strlcpy dst src sz m =
     (if 0 < sz then let (d, m') = strlcpy_loop dst src sz m in (d - dst, m') else (0, m))"

subsection \<open>Block operations through the i386 string instructions\<close>

primrec rep_stosb :: "nat \<Rightarrow> u8 \<Rightarrow> u32 \<Rightarrow> memory \<Rightarrow> memory" where
  "rep_stosb 0 al edi m = m"
| "rep_stosb (Suc k) al edi m = rep_stosb k al (edi + 1) (m(edi := al))"

primrec rep_stosl :: "nat \<Rightarrow> u32 \<Rightarrow> u32 \<Rightarrow> memory \<Rightarrow> memory" where
  "rep_stosl 0 eax edi m = m"
| "rep_stosl (Suc k) eax edi m = rep_stosl k eax (edi + 4) (store32 m edi eax)"

text \<open>\<open>df\<close> is the direction flag: set by \<open>std\<close>, cleared by \<open>cld\<close>.\<close>

primrec rep_movsb :: "bool \<Rightarrow> nat \<Rightarrow> u32 \<Rightarrow> u32 \<Rightarrow> memory \<Rightarrow> memory" where
  "rep_movsb df 0 edi esi m = m"
| "rep_movsb df (Suc k) edi esi m =
     rep_movsb df k (if df then edi - 1 else edi + 1) (if df then esi - 1 else esi + 1)
       (m(edi := m esi))"

primrec rep_movsl :: "bool \<Rightarrow> nat \<Rightarrow> u32 \<Rightarrow> u32 \<Rightarrow> memory \<Rightarrow> memory" where
  "rep_movsl df 0 edi esi m = m"
| "rep_movsl df (Suc k) edi esi m =
     rep_movsl df k (if df then edi - 4 else edi + 4) (if df then esi - 4 else esi + 4)
       (store32 m edi (load32 m esi))"

definition memset :: "u32 \<Rightarrow> i32 \<Rightarrow> u32 \<Rightarrow> memory \<Rightarrow> memory" where
  "memset v c n m =
     (if n = 0 then m
      else if v mod 4 = 0 \<and> n mod 4 = 0 then
        let c1 = c AND 0xFF;
            c2 = push_bit 24 c1 OR push_bit 16 c1 OR push_bit 8 c1 OR c1
        in rep_stosl (unat (n div 4)) c2 v m
      else rep_stosb (unat n) (ucast c) v m)"

definition memmove :: "u32 \<Rightarrow> u32 \<Rightarrow> u32 \<Rightarrow> memory \<Rightarrow> memory" where
  "memmove dst src n m =
     (if src < dst \<and> dst < src + n then
        let s = src + n; d = dst + n
        in if s mod 4 = 0 \<and> d mod 4 = 0 \<and> n mod 4 = 0
           then rep_movsl True (unat (n div 4)) (d - 4) (s - 4) m
           else rep_movsb True (unat n) (d - 1) (s - 1) m
      else
        if src mod 4 = 0 \<and> dst mod 4 = 0 \<and> n mod 4 = 0
        then rep_movsl False (unat (n div 4)) dst src m
        else rep_movsb False (unat n) dst src m)"

definition memcpy :: "u32 \<Rightarrow> u32 \<Rightarrow> u32 \<Rightarrow> memory \<Rightarrow> memory" where
  "memcpy dst src n m = memmove dst src n m"

section \<open>strtol\<close>

partial_function (option) skip_blanks :: "memory \<Rightarrow> u32 \<Rightarrow> u32 option" where
  "skip_blanks m s = (if m s = 32 \<or> m s = 9 then skip_blanks m (s + 1) else Some s)"

definition strtol_digit :: "u8 \<Rightarrow> i32 option" where
  "strtol_digit c =
     (if 48 \<le>s c \<and> c \<le>s 57 then Some (scast c - 48)
      else if 97 \<le>s c \<and> c \<le>s 122 then Some (scast c - 97 + 10)
      else if 65 \<le>s c \<and> c \<le>s 90 then Some (scast c - 65 + 10)
      else None)"

partial_function (option) strtol_digits ::
    "memory \<Rightarrow> u32 \<Rightarrow> i32 \<Rightarrow> i32 \<Rightarrow> (i32 \<times> u32) option" where
  "strtol_digits m s base val =
     (case strtol_digit (m s) of
        None \<Rightarrow> Some (val, s)
      | Some dig \<Rightarrow>
          if base \<le>s dig then Some (val, s)
          else strtol_digits m (s + 1) base (val * base + dig))"

definition strtol_sign :: "memory \<Rightarrow> u32 \<Rightarrow> bool \<times> u32" where
  "strtol_sign m s =
     (if m s = 43 then (False, s + 1) else if m s = 45 then (True, s + 1) else (False, s))"

definition strtol_prefix :: "memory \<Rightarrow> u32 \<Rightarrow> i32 \<Rightarrow> u32 \<times> i32" where
  "strtol_prefix m s base =
     (if (base = 0 \<or> base = 16) \<and> m s = 48 \<and> m (s + 1) = 120 then (s + 2, 16)
      else if base = 0 \<and> m s = 48 then (s + 1, 8)
      else if base = 0 then (s, 10)
      else (s, base))"

definition strtol :: "u32 \<Rightarrow> u32 \<Rightarrow> i32 \<Rightarrow> memory \<Rightarrow> (i32 \<times> memory) option" where
  "strtol s0 endptr base0 m =
     do { s1 \<leftarrow> skip_blanks m s0;
          let (neg, s2) = strtol_sign m s1;
          let (s3, base) = strtol_prefix m s2 base0;
          (val, s4) \<leftarrow> strtol_digits m s3 base 0;
          Some (if neg then - val else val,
                if endptr \<noteq> 0 then store32 m endptr s4 else m) }"

end
