(* ===== verification/String_Mem.thy ===== *)
theory String_Mem
  imports Strings
begin

text \<open>
  \<open>memset\<close>, \<open>memmove\<close> and the string copies of lib/string.c, byte by byte: which addresses
  they write and what is there afterwards.
\<close>

section \<open>Splitting an address range\<close>

lemma unat_diff32:
  fixes x y :: u32
  shows "unat (x - y) = (if unat y \<le> unat x then unat x - unat y else unat x + 4294967296 - unat y)"
  by (simp add: unat_sub_if')

lemma unat_plus32:
  fixes x y :: u32
  shows "unat (x + y) =
    (if unat x + unat y < 4294967296 then unat x + unat y else unat x + unat y - 4294967296)"
  by (simp add: unat_plus_if')

lemma in_rng_shift:
  assumes "w + n \<le> 4294967296"
  shows "in_rng a (p + of_nat w) n \<longleftrightarrow> w \<le> unat (a - p) \<and> unat (a - p) < w + n"
proof (cases "n = 0")
  case True
  then show ?thesis by simp
next
  case False
  with assms have "unat (of_nat w :: u32) = w" by (simp add: unat_of_nat32)
  moreover have "a - (p + of_nat w) = (a - p) - of_nat w" by (simp add: algebra_simps)
  ultimately show ?thesis
    using assms unat_lt32 [of "a - p"] unfolding in_rng_def
    by (simp only: unat_diff32) auto
qed

lemma in_rng_split4: "in_rng a p (n + 4) \<longleftrightarrow> in_rng a p 4 \<or> in_rng a (p + 4) n"
proof -
  have "n + 4 = Suc (Suc (Suc (Suc n)))" by simp
  then have "in_rng a p (n + 4) \<longleftrightarrow>
      a = p \<or> a = p + 1 \<or> a = p + 1 + 1 \<or> a = p + 1 + 1 + 1 \<or> in_rng a (p + 1 + 1 + 1 + 1) n"
    by (simp only: in_rng_Suc)
  then show ?thesis by (simp add: in_rng_4 add.assoc)
qed

section \<open>memset\<close>

lemma rep_stosb_apply: "rep_stosb k al d m a = (if in_rng a d k then al else m a)"
  by (induction k arbitrary: d m) (auto simp: in_rng_Suc)

lemma store32_bytes:
  "store32 m d v a =
    (if in_rng a d 4 then ucast (drop_bit (8 * unat (a - d)) v) else m a)"
proof -
  have "a = d \<or> a = d + 1 \<or> a = d + 2 \<or> a = d + 3 \<or> \<not> in_rng a d 4"
    by (auto simp: in_rng_4)
  moreover have "in_rng (d + k) d 4" if "unat k < 4" for k using that by (simp add: in_rng_def)
  ultimately show ?thesis by (auto simp: store32_def in_rng_4)
qed

definition spread_byte :: "u32 \<Rightarrow> u32" where
  "spread_byte c = push_bit 24 c OR push_bit 16 c OR push_bit 8 c OR c"

lemma spread_byte_bytes:
  assumes "i < 4"
  shows "(ucast (drop_bit (8 * i) (spread_byte (c AND 0xFF))) :: u8) = ucast c"
proof -
  have mask: "(0xFF :: u32) = mask 8" by (simp add: mask_eq_exp_minus_1)
  have "i = 0 \<or> i = 1 \<or> i = 2 \<or> i = 3" using assms by auto
  then show ?thesis
    by (elim disjE; intro bit_word_eqI) (auto simp: spread_byte_def mask bit_simps)
qed

lemma rep_stosl_apply:
  "rep_stosl k (spread_byte (c AND 0xFF)) d m a = (if in_rng a d (4 * k) then ucast c else m a)"
proof (induction k arbitrary: d m)
  case 0
  then show ?case by simp
next
  case (Suc k)
  have "store32 m d (spread_byte (c AND 0xFF)) a = (if in_rng a d 4 then ucast c else m a)"
    by (simp add: store32_bytes spread_byte_bytes in_rng_def)
  then show ?case
    using Suc.IH [of "d + 4" "store32 m d (spread_byte (c AND 0xFF))"]
      in_rng_split4 [of a d "4 * k"] by (simp add: add.commute)
qed

lemma unat_div4: "n mod 4 = 0 \<Longrightarrow> 4 * unat (n div 4 :: u32) = unat n"
proof -
  assume "n mod 4 = 0"
  then have "unat (n mod 4) = 0" by simp
  then have "unat n mod 4 = 0" by (simp add: unat_mod)
  then show ?thesis by (simp add: unat_div) presburger
qed

lemma memset_apply: "memset v c n m a = (if in_rng a v (unat n) then ucast c else m a)"
proof -
  have "rep_stosl (unat (n div 4)) (spread_byte (c AND 0xFF)) v m a =
      (if in_rng a v (unat n) then ucast c else m a)" if "n mod 4 = 0"
    using unat_div4 [OF that] by (simp add: rep_stosl_apply)
  then show ?thesis by (simp add: memset_def Let_def rep_stosb_apply flip: spread_byte_def)
qed

section \<open>memmove\<close>

text \<open>\<open>moved n d s m\<close>: \<open>m\<close> after the \<open>n\<close> bytes from \<open>s\<close> have arrived at \<open>d\<close>.\<close>

definition moved :: "nat \<Rightarrow> u32 \<Rightarrow> u32 \<Rightarrow> memory \<Rightarrow> memory" where
  "moved n d s m a = (if in_rng a d n then m (s + (a - d)) else m a)"

lemma moved_0 [simp]: "moved 0 d s m = m"
  by (rule ext) (simp add: moved_def)

lemma moved_1: "moved 1 d s m = m(d := m s)"
  by (rule ext) (simp add: moved_def in_rng_Suc)

lemma moved_Suc_0: "moved (Suc 0) d s m = m(d := m s)"
  using moved_1 [of d s m] by simp

lemma load32_byte: "i < 4 \<Longrightarrow> ucast (drop_bit (8 * i) (load32 m s)) = m (s + of_nat i)"
proof -
  assume "i < 4"
  then have "i = 0 \<or> i = 1 \<or> i = 2 \<or> i = 3" by auto
  then show ?thesis
    by (elim disjE; intro bit_word_eqI)
      (auto simp: load32_def bit_simps dest: bit_imp_le_length)
qed

lemma moved_4: "moved 4 d s m = store32 m d (load32 m s)"
proof
  fix a
  have "of_nat (unat (a - d)) = a - d" by simp
  then show "moved 4 d s m a = store32 m d (load32 m s) a"
    by (simp add: moved_def store32_bytes load32_byte in_rng_def)
qed

lemma moved_up:
  assumes clear: "d = s \<or> w + n \<le> unat (d - s)" and sz: "w + n \<le> 4294967296"
  shows "moved n (d + of_nat w) (s + of_nat w) (moved w d s m) = moved (w + n) d s m"
proof
  fix a
  define x y where "x = a - d" and "y = d - s"
  have y: "unat y = 0 \<or> w + n \<le> unat y" using clear by (auto simp: y_def)
  have src: "s + of_nat w + (a - (d + of_nat w)) = s + x"
    and off: "s + x - d = x - y" by (simp_all add: x_def y_def)
  have rng: "in_rng a (d + of_nat w) n \<longleftrightarrow> w \<le> unat x \<and> unat x < w + n"
      "in_rng a d k \<longleftrightarrow> unat x < k" for k
    using sz by (simp_all add: in_rng_shift x_def) (simp add: in_rng_def)
  have "\<not> in_rng (s + x) d w" if "w \<le> unat x" "unat x < w + n"
    using y that unat_lt32 [of y] unat_lt32 [of x] unfolding in_rng_def off by (simp only: unat_diff32) auto
  then show "moved n (d + of_nat w) (s + of_nat w) (moved w d s m) a = moved (w + n) d s m a"
    unfolding moved_def rng src x_def [symmetric] by auto
qed

lemma moved_down:
  assumes clear: "d = s \<or> n + w \<le> unat (s - d)" and sz: "n + w \<le> 4294967296"
  shows "moved n d s (moved w (d + of_nat n) (s + of_nat n) m) = moved (n + w) d s m"
proof
  fix a
  define x z where "x = a - d" and "z = s - d"
  have z: "unat z = 0 \<or> n + w \<le> unat z" using clear by (auto simp: z_def)
  have src: "s + of_nat n + (a - (d + of_nat n)) = s + x"
    and off: "s + x - d = x + z" by (simp_all add: x_def z_def)
  have rng: "in_rng b (d + of_nat n) w \<longleftrightarrow> n \<le> unat (b - d) \<and> unat (b - d) < n + w"
      "in_rng a d k \<longleftrightarrow> unat x < k" for k b
    using sz by (simp_all add: in_rng_shift x_def) (simp add: in_rng_def)
  have "\<not> (n \<le> unat (s + x - d) \<and> unat (s + x - d) < n + w)" if "unat x < n"
    using z that unat_lt32 [of z] unat_lt32 [of x] unfolding off by (simp only: unat_plus32) auto
  then show "moved n d s (moved w (d + of_nat n) (s + of_nat n) m) a = moved (n + w) d s m a"
    unfolding moved_def rng src x_def [symmetric] by auto
qed

lemma rep_movsb_up:
  "d = s \<or> k \<le> unat (d - s) \<Longrightarrow> k \<le> 4294967296 \<Longrightarrow> rep_movsb False k d s m = moved k d s m"
proof (induction k arbitrary: d s m)
  case 0
  then show ?case by simp
next
  case (Suc k)
  then have "rep_movsb False k (d + 1) (s + 1) (m(d := m s)) = moved k (d + 1) (s + 1) (m(d := m s))"
    by (intro Suc.IH) auto
  with Suc.prems show ?case using moved_up [of d s 1 k m] by (simp add: moved_Suc_0)
qed

lemma rep_movsl_up:
  "d = s \<or> 4 * k \<le> unat (d - s) \<Longrightarrow> 4 * k \<le> 4294967296 \<Longrightarrow>
    rep_movsl False k d s m = moved (4 * k) d s m"
proof (induction k arbitrary: d s m)
  case 0
  then show ?case by simp
next
  case (Suc k)
  let ?m = "store32 m d (load32 m s)"
  from Suc have "rep_movsl False k (d + 4) (s + 4) ?m = moved (4 * k) (d + 4) (s + 4) ?m"
    by (intro Suc.IH) auto
  with Suc.prems show ?case using moved_up [of d s 4 "4 * k" m] by (simp add: moved_4)
qed

lemma rep_movsb_down:
  "d = s \<or> k \<le> unat (s - d) \<Longrightarrow> k \<le> 4294967296 \<Longrightarrow>
    rep_movsb True k (d + of_nat k - 1) (s + of_nat k - 1) m = moved k d s m"
proof (induction k arbitrary: m)
  case 0
  then show ?case by simp
next
  case (Suc k)
  let ?m = "m(d + of_nat k := m (s + of_nat k))"
  from Suc have "rep_movsb True k (d + of_nat k - 1) (s + of_nat k - 1) ?m = moved k d s ?m"
    by (intro Suc.IH) auto
  with Suc.prems show ?case using moved_down [of d s k 1 m]
    by (simp add: moved_Suc_0 algebra_simps)
qed

lemma rep_movsl_down:
  "d = s \<or> 4 * k \<le> unat (s - d) \<Longrightarrow> 4 * k \<le> 4294967296 \<Longrightarrow>
    rep_movsl True k (d + of_nat (4 * k) - 4) (s + of_nat (4 * k) - 4) m = moved (4 * k) d s m"
proof (induction k arbitrary: m)
  case 0
  then show ?case by simp
next
  case (Suc k)
  let ?e = "of_nat (4 * k) :: u32"
  let ?m = "store32 m (d + ?e) (load32 m (s + ?e))"
  from Suc have "rep_movsl True k (d + ?e - 4) (s + ?e - 4) ?m = moved (4 * k) d s ?m"
    by (intro Suc.IH) auto
  moreover have "d + of_nat (4 * Suc k) - 4 = d + ?e" "s + of_nat (4 * Suc k) - 4 = s + ?e"
    by (simp_all add: algebra_simps)
  ultimately show ?case using Suc.prems moved_down [of d s "4 * k" 4 m]
    by (simp add: moved_4 add.commute)
qed

text \<open>
  When the copy runs downwards the source lies below the destination and does not reach it again
  around the end of memory; when it runs upwards the destination is not ahead in the source.
\<close>

lemma clear_down:
  fixes src dst n :: u32
  assumes "src < dst" and dst: "unat dst + unat n \<le> 4294967296"
  shows "dst = src \<or> unat n \<le> unat (src - dst)" "unat n \<le> 4294967296"
proof -
  have "unat src < unat dst" using assms(1) by (simp add: word_less_nat_alt)
  then have "unat n \<le> unat (src - dst)" using dst by (simp only: unat_diff32) auto
  then show "dst = src \<or> unat n \<le> unat (src - dst)" by simp
  show "unat n \<le> 4294967296" using dst by simp
qed

lemma clear_up:
  fixes src dst n :: u32
  assumes src: "unat src + unat n \<le> 4294967296" and dst: "unat dst + unat n \<le> 4294967296"
    and up: "\<not> (src < dst \<and> dst < src + n)"
  shows "dst = src \<or> unat n \<le> unat (dst - src)" "unat n \<le> 4294967296"
proof -
  consider "dst = src" | "unat dst < unat src" | "unat src < unat dst"
    by (metis linorder_neqE_nat word_unat_eq_iff)
  then show "dst = src \<or> unat n \<le> unat (dst - src)"
  proof cases
    case 1
    then show ?thesis ..
  next
    case 2
    then show ?thesis using src by (simp only: unat_diff32) auto
  next
    case 3
    then have "unat (src + n) = unat src + unat n" using dst by (simp add: unat_plus32)
    moreover have "\<not> unat dst < unat (src + n)" using up 3 by (simp add: word_less_nat_alt)
    ultimately show ?thesis using 3 by (simp only: unat_diff32) auto
  qed
  show "unat n \<le> 4294967296" using dst by simp
qed

lemma bytes_down_moved:
  assumes "src < dst" and "unat dst + unat n \<le> 4294967296"
  shows "rep_movsb True (unat n) (dst + n - 1) (src + n - 1) m = moved (unat n) dst src m"
  using rep_movsb_down [OF clear_down [OF assms], of m] by simp

lemma bytes_up_moved:
  assumes "unat src + unat n \<le> 4294967296" and "unat dst + unat n \<le> 4294967296"
    and "\<not> (src < dst \<and> dst < src + n)"
  shows "rep_movsb False (unat n) dst src m = moved (unat n) dst src m"
  by (rule rep_movsb_up [OF clear_up [OF assms]])

text \<open>The contract of \<open>memmove\<close>: overlapping or not, aligned or not.\<close>

lemma memmove_moved:
  assumes src: "unat src + unat n \<le> 4294967296" and dst: "unat dst + unat n \<le> 4294967296"
  shows "memmove dst src n m = moved (unat n) dst src m"
proof (cases "src < dst \<and> dst < src + n")
  case True
  then have down: "src < dst" ..
  show ?thesis
  proof (cases "(src + n) mod 4 = 0 \<and> (dst + n) mod 4 = 0 \<and> n mod 4 = 0")
    case aligned: True
    then have n4: "4 * unat (n div 4) = unat n" by (simp add: unat_div4)
    show ?thesis
      using rep_movsl_down [of dst src "unat (n div 4)" m, unfolded n4] clear_down [OF down dst] True aligned
      by (simp add: memmove_def Let_def)
  next
    case False
    show ?thesis
      by (simp only: memmove_def Let_def if_P [OF True] if_not_P [OF False] bytes_down_moved [OF down dst])
  qed
next
  case False
  show ?thesis
  proof (cases "src mod 4 = 0 \<and> dst mod 4 = 0 \<and> n mod 4 = 0")
    case aligned: True
    then have n4: "4 * unat (n div 4) = unat n" by (simp add: unat_div4)
    have "rep_movsl False (unat (n div 4)) dst src m = moved (unat n) dst src m"
      using rep_movsl_up [of dst src "unat (n div 4)" m, unfolded n4] clear_up [OF src dst False] by simp
    then show ?thesis by (simp only: memmove_def if_not_P [OF False] if_P [OF aligned])
  next
    case bytes: False
    show ?thesis
      by (simp only: memmove_def if_not_P [OF False] if_not_P [OF bytes] bytes_up_moved [OF src dst False])
  qed
qed

end
