(* ===== verification/String_Laws.thy ===== *)
theory String_Laws
  imports String_Mem
begin

text \<open>
  What the functions of lib/string.c compute: lengths, comparisons and searches on
  NUL-terminated strings, the copying functions, and \<open>strtol\<close>.
\<close>

section \<open>Lengths\<close>

lemma strlen_loop_cstr: "cstr m p xs \<Longrightarrow> strlen_loop m p n = Some (n + of_nat (length xs))"
proof (induction xs arbitrary: p n)
  case Nil
  then show ?case by (simp add: strlen_loop.simps)
next
  case (Cons x xs)
  then show ?case by (subst strlen_loop.simps) (simp add: algebra_simps)
qed

lemma strlen_cstr: "cstr m p xs \<Longrightarrow> strlen m p = Some (of_nat (length xs))"
  by (simp add: strlen_def strlen_loop_cstr)

text \<open>Every address has a string exactly when some byte of memory is NUL.\<close>

lemma nul_reaches:
  "m a = 0 \<Longrightarrow> unat (a - p) = k \<Longrightarrow> \<exists>xs. cstr m p xs \<and> length xs \<le> k"
proof (induction k arbitrary: p)
  case 0
  then have "a = p" by (simp add: unat_eq_0)
  with 0 have "cstr m p [] \<and> length ([] :: u8 list) \<le> 0" by simp
  then show ?case by blast
next
  case (Suc k)
  show ?case
  proof (cases "m p = 0")
    case True
    then have "cstr m p [] \<and> length ([] :: u8 list) \<le> Suc k" by simp
    then show ?thesis by blast
  next
    case False
    with Suc.prems have "a \<noteq> p" by auto
    then have "unat (a - (p + 1)) = k" using Suc.prems(2) by (simp add: unat_sub_Suc)
    then obtain xs where "cstr m (p + 1) xs" "length xs \<le> k" using Suc.IH Suc.prems(1) by blast
    with False have "cstr m p (m p # xs) \<and> length (m p # xs) \<le> Suc k" by simp
    then show ?thesis by blast
  qed
qed

lemma strlen_loop_Some: "strlen_loop m p n = Some r \<Longrightarrow> \<exists>xs. cstr m p xs"
proof (rule strlen_loop.raw_induct [where P = "\<lambda>m p n r. \<exists>xs. cstr m p xs"])
  fix f :: "memory \<Rightarrow> u32 \<Rightarrow> i32 \<Rightarrow> i32 option" and m p n r
  assume IH: "\<And>m p n r. f m p n = Some r \<Longrightarrow> \<exists>xs. cstr m p xs"
    and eq: "(if m p \<noteq> 0 then f m (p + 1) (n + 1) else Some n) = Some r"
  show "\<exists>xs. cstr m p xs"
  proof (cases "m p = 0")
    case True
    then have "cstr m p []" by simp
    then show ?thesis by blast
  next
    case False
    then have "f m (p + 1) (n + 1) = Some r" using eq by simp
    then obtain xs where "cstr m (p + 1) xs" using IH by blast
    with False have "cstr m p (m p # xs)" by simp
    then show ?thesis by blast
  qed
qed

lemma cstr_nul: "cstr m p xs \<Longrightarrow> \<exists>a. m a = 0"
  by (induction xs arbitrary: p) auto

lemma strlen_returns_iff: "(\<exists>r. strlen m p = Some r) \<longleftrightarrow> (\<exists>a. m a = 0)"
proof
  assume "\<exists>r. strlen m p = Some r"
  then show "\<exists>a. m a = 0" by (auto simp: strlen_def dest!: strlen_loop_Some cstr_nul)
next
  assume "\<exists>a. m a = 0"
  then obtain xs where "cstr m p xs" using nul_reaches by blast
  then show "\<exists>r. strlen m p = Some r" by (auto simp: strlen_cstr)
qed

lemma strnlen_loop_cstr:
  "cstr m p xs \<Longrightarrow> strnlen_loop m p sz n = n + of_nat (min (length xs) (unat sz))"
proof (induction xs arbitrary: p sz n)
  case Nil
  then show ?case by (simp add: strnlen_loop.simps)
next
  case (Cons x xs)
  show ?case
  proof (cases "0 < sz")
    case True
    then have "unat sz = Suc (unat (sz - 1))" by (simp add: unat_Suc_pred word_pos_iff)
    moreover have "strnlen_loop m p sz n = strnlen_loop m (p + 1) (sz - 1) (n + 1)"
      using True Cons.prems by (subst strnlen_loop.simps) simp
    ultimately show ?thesis using Cons.IH [of "p + 1" "sz - 1" "n + 1"] Cons.prems by simp
  next
    case False
    then have "sz = 0" by (simp add: word_pos_iff)
    then show ?thesis by (simp add: strnlen_loop.simps)
  qed
qed

lemma strnlen_cstr: "cstr m p xs \<Longrightarrow> strnlen m p sz = of_nat (min (length xs) (unat sz))"
  by (simp add: strnlen_def strnlen_loop_cstr)

section \<open>Comparisons\<close>

lemma sint_char_diff: "sint (char_diff x y) = uint x - uint y"
  by (simp add: char_diff_def sint_diff8)

lemma char_diff_sign:
  "char_diff x y = 0 \<longleftrightarrow> x = y"
  "char_diff x y <s 0 \<longleftrightarrow> x < y"
proof -
  have "char_diff x y = 0 \<longleftrightarrow> sint (char_diff x y) = 0"
    by (rule signed_eq_0_iff [symmetric])
  then show "char_diff x y = 0 \<longleftrightarrow> x = y" by (simp add: sint_char_diff word_uint_eq_iff)
  show "char_diff x y <s 0 \<longleftrightarrow> x < y"
    by (simp add: word_sless_alt sint_char_diff word_less_def)
qed

text \<open>The result of a comparison of two strings, as the C standard describes it.\<close>

definition cmp_result :: "i32 \<Rightarrow> u8 list \<Rightarrow> u8 list \<Rightarrow> bool" where
  "cmp_result r xs ys \<longleftrightarrow> (r = 0 \<longleftrightarrow> xs = ys) \<and> (r <s 0 \<longleftrightarrow> ord_class.lexordp xs ys)"

lemma cmp_result_Cons [simp]: "cmp_result r (x # xs) (x # ys) \<longleftrightarrow> cmp_result r xs ys"
  by (simp add: cmp_result_def)

lemma cmp_result_Cons_diff:
  "x \<noteq> y \<Longrightarrow> cmp_result (char_diff x y) (x # xs) (y # ys)"
  by (auto simp: cmp_result_def char_diff_sign)

lemma cmp_result_Nil:
  "cmp_result (char_diff 0 0) [] []"
  "y \<noteq> 0 \<Longrightarrow> cmp_result (char_diff 0 y) [] (y # ys)"
  "x \<noteq> 0 \<Longrightarrow> cmp_result (char_diff x 0) (x # xs) []"
  by (auto simp: cmp_result_def char_diff_sign word_neq_0_conv)

lemma strcmp_cstr:
  "cstr mp p xs \<Longrightarrow> cstr mq q ys \<Longrightarrow> \<exists>r. strcmp mp p mq q = Some r \<and> cmp_result r xs ys"
proof (induction xs arbitrary: p q ys)
  case Nil
  then show ?case by (cases ys) (auto simp: strcmp.simps [of mp p] cmp_result_Nil)
next
  case (Cons x xs)
  show ?case
  proof (cases ys)
    case Nil
    with Cons.prems show ?thesis by (auto simp: strcmp.simps [of mp p] cmp_result_Nil)
  next
    case (Cons y ys')
    with Cons.prems Cons.IH [of "p + 1" "q + 1" ys'] show ?thesis
      by (cases "x = y") (auto simp: strcmp.simps [of mp p] cmp_result_Cons_diff)
  qed
qed

lemma strncmp_cstr:
  "cstr mp p xs \<Longrightarrow> cstr mq q ys \<Longrightarrow>
    cmp_result (strncmp mp p mq q n) (take (unat n) xs) (take (unat n) ys)"
proof (induction xs arbitrary: p q ys n)
  case Nil
  show ?case
  proof (cases "n = 0")
    case True
    then show ?thesis by (simp add: strncmp.simps [of mp p] cmp_result_def)
  next
    case False
    then have "unat n = Suc (unat (n - 1))" by (rule unat_Suc_pred)
    with Nil False show ?thesis
      by (cases ys) (auto simp: strncmp.simps [of mp p] cmp_result_Nil take_Suc)
  qed
next
  case (Cons x xs)
  show ?case
  proof (cases "n = 0")
    case True
    then show ?thesis by (simp add: strncmp.simps [of mp p] cmp_result_def)
  next
    case False
    then have n: "unat n = Suc (unat (n - 1))" "0 < n"
      by (simp_all add: unat_Suc_pred word_pos_iff)
    show ?thesis
    proof (cases ys)
      case Nil
      with Cons.prems n False show ?thesis
        by (auto simp: strncmp.simps [of mp p] cmp_result_Nil)
    next
      case ys: (Cons y ys')
      have "cmp_result (strncmp mp (p + 1) mq (q + 1) (n - 1))
          (take (unat (n - 1)) xs) (take (unat (n - 1)) ys')"
        using Cons.IH [of "p + 1" "q + 1" ys' "n - 1"] Cons.prems ys by simp
      then show ?thesis using Cons.prems n ys False
        by (cases "x = y") (auto simp: strncmp.simps [of mp p] cmp_result_Cons_diff)
    qed
  qed
qed

text \<open>
  The strings of C in dictionary order, as an instance of the library's linear orders: what \<open>strcmp\<close>
  returns is a three-way comparison in it.
\<close>

datatype c_string = C_String (bytes_of: "u8 list")

instantiation c_string :: linorder
begin

definition less_c_string :: "c_string \<Rightarrow> c_string \<Rightarrow> bool" where
  "less_c_string x y \<longleftrightarrow> ord_class.lexordp (bytes_of x) (bytes_of y)"

definition less_eq_c_string :: "c_string \<Rightarrow> c_string \<Rightarrow> bool" where
  "less_eq_c_string x y \<longleftrightarrow> ord_class.lexordp_eq (bytes_of x) (bytes_of y)"

instance
proof
  fix x y z :: c_string
  show "x < y \<longleftrightarrow> x \<le> y \<and> \<not> y \<le> x"
    by (auto simp: less_c_string_def less_eq_c_string_def lexordp_conv_lexordp_eq)
  show "x \<le> x" by (simp add: less_eq_c_string_def lexordp_eq_refl)
  show "x \<le> y \<Longrightarrow> y \<le> z \<Longrightarrow> x \<le> z"
    unfolding less_eq_c_string_def by (rule lexordp_eq_trans)
  show "x \<le> y \<Longrightarrow> y \<le> x \<Longrightarrow> x = y"
    unfolding less_eq_c_string_def by (metis lexordp_eq_antisym c_string.expand)
  show "x \<le> y \<or> y \<le> x"
    unfolding less_eq_c_string_def by (rule lexordp_eq_linear)
qed

end

lemma C_String_less: "C_String xs < C_String ys \<longleftrightarrow> ord_class.lexordp xs ys"
  by (simp add: less_c_string_def)

lemma cmp_result_order:
  assumes "cmp_result r xs ys"
  shows "r = 0 \<longleftrightarrow> xs = ys" "r <s 0 \<longleftrightarrow> C_String xs < C_String ys" "0 <s r \<longleftrightarrow> C_String ys < C_String xs"
proof -
  show eq: "r = 0 \<longleftrightarrow> xs = ys" and lt: "r <s 0 \<longleftrightarrow> C_String xs < C_String ys"
    using assms by (simp_all add: cmp_result_def C_String_less)
  have "r = 0 \<longleftrightarrow> sint r = 0" by (rule signed_eq_0_iff [symmetric])
  moreover have "0 < i \<longleftrightarrow> \<not> i < 0 \<and> i \<noteq> 0" for i :: int by auto
  ultimately have "0 <s r \<longleftrightarrow> \<not> r <s 0 \<and> r \<noteq> 0" unfolding word_sless_alt sint_0 by blast
  also have "\<dots> \<longleftrightarrow> C_String ys < C_String xs"
    unfolding eq lt not_less by (simp add: less_le eq_commute)
  finally show "0 <s r \<longleftrightarrow> C_String ys < C_String xs" .
qed

section \<open>Searches\<close>

lemma strfind_cstr:
  "cstr m p xs \<Longrightarrow> strfind m p c = Some (p + of_nat (length (takeWhile (\<lambda>x. x \<noteq> c) xs)))"
proof (induction xs arbitrary: p)
  case Nil
  then show ?case by (simp add: strfind.simps)
next
  case (Cons x xs)
  then show ?case by (subst strfind.simps) (auto simp: algebra_simps)
qed

lemma strchr_cstr:
  "cstr m p xs \<Longrightarrow> strchr m p c =
    Some (if c \<in> set xs then p + of_nat (length (takeWhile (\<lambda>x. x \<noteq> c) xs)) else 0)"
proof (induction xs arbitrary: p)
  case Nil
  then show ?case by (simp add: strchr.simps)
next
  case (Cons x xs)
  then show ?case by (subst strchr.simps) (auto simp: algebra_simps)
qed

lemma memcmp_zero:
  "memcmp m p q n = 0 \<longleftrightarrow> read_bytes m p (unat n) = read_bytes m q (unat n)"
proof (induction m p q n rule: memcmp.induct)
  case (1 m p q n)
  show ?case
  proof (cases "0 < n")
    case True
    then have n: "unat n = Suc (unat (n - 1))" by (simp add: unat_Suc_pred word_pos_iff)
    have "ucast (m p) - ucast (m q) = (0 :: i32) \<longleftrightarrow> m p = m q"
      using char_diff_sign(1) [of "m p" "m q"] by (simp add: char_diff_def)
    then show ?thesis using 1 True by (subst memcmp.simps) (simp add: n)
  next
    case False
    then have "n = 0" by (simp add: word_pos_iff)
    then show ?thesis by (simp add: memcmp.simps)
  qed
qed

section \<open>Copies\<close>

lemma cstr_moved:
  assumes "cstr m src xs" and "length xs < 4294967296"
  shows "cstr (moved (Suc (length xs)) dst src m) dst xs"
proof -
  have "moved (Suc (length xs)) dst src m (dst + of_nat i) = m (src + of_nat i)" if "i \<le> length xs" for i
    using that assms(2) by (simp add: moved_def in_rng_offset)
  then have "read_bytes (moved (Suc (length xs)) dst src m) dst (length xs) = read_bytes m src (length xs)"
    "moved (Suc (length xs)) dst src m (dst + of_nat (length xs)) = m (src + of_nat (length xs))"
    by (simp_all add: list_eq_iff_nth_eq nth_read_bytes)
  with assms(1) show ?thesis by (simp add: cstr_read)
qed

lemma strcpy_loop_moved:
  "cstr m src xs \<Longrightarrow> dst = src \<or> Suc (length xs) \<le> unat (dst - src) \<Longrightarrow>
    Suc (length xs) \<le> 4294967296 \<Longrightarrow>
    strcpy_loop dst src m = Some (moved (Suc (length xs)) dst src m)"
proof (induction xs arbitrary: dst src m)
  case Nil
  then show ?case by (simp add: strcpy_loop.simps moved_Suc_0 fun_upd_def)
next
  case (Cons x xs)
  let ?m = "m(dst := m src)"
  have "dst = src \<or> \<not> in_rng dst (src + 1) (Suc (length xs))"
  proof (cases "dst = src")
    case False
    then have "unat (dst - src) = Suc (unat (dst - (src + 1)))" by (rule unat_sub_Suc)
    with False Cons.prems(2) show ?thesis by (simp add: in_rng_def)
  qed simp
  then have same: "?m a = m a" if "in_rng a (src + 1) (Suc (length xs))" for a
    using that by (cases "dst = src") auto
  have "cstr m (src + 1) xs" using Cons.prems(1) by simp
  then have "cstr ?m (src + 1) xs" by (rule cstr_frame) (rule same)
  moreover have "dst + 1 = src + 1 \<or> Suc (length xs) \<le> unat (dst + 1 - (src + 1))"
    using Cons.prems(2) by auto
  ultimately have "strcpy_loop (dst + 1) (src + 1) ?m =
      Some (moved (Suc (length xs)) (dst + 1) (src + 1) ?m)"
    by (rule Cons.IH) (use Cons.prems(3) in simp)
  then show ?case
    using Cons.prems moved_up [of dst src 1 "Suc (length xs)" m]
    by (simp add: strcpy_loop.simps [of dst src m] moved_Suc_0 Let_def)
qed

lemma strcpy_moved:
  assumes "cstr m src xs" and "length xs < unat (dst - src)"
  shows "strcpy dst src m = Some (moved (Suc (length xs)) dst src m)"
    and "cstr (moved (Suc (length xs)) dst src m) dst xs"
  using assms unat_lt32 [of "dst - src"]
  by (auto simp: strcpy_def intro!: strcpy_loop_moved cstr_moved)

lemma strcat_cstr:
  assumes dst: "cstr m dst xs" and src: "cstr m src ys"
    and far: "length ys < unat (dst + of_nat (length xs) - src)"
    and fits: "length xs + length ys < 4294967296"
  shows "\<exists>m'. strcat dst src m = Some m' \<and> cstr m' dst (xs @ ys)"
proof -
  let ?e = "dst + of_nat (length xs)"
  let ?m = "moved (Suc (length ys)) ?e src m"
  have "strcat dst src m = Some ?m"
    using strcpy_moved(1) [OF src far] by (simp add: strcat_def strlen_cstr [OF dst])
  moreover have "cstr ?m ?e ys" using strcpy_moved(2) [OF src far] .
  moreover have "?m (dst + of_nat i) = m (dst + of_nat i)" if "i < length xs" for i
  proof -
    have "\<not> in_rng (dst + of_nat i) ?e (Suc (length ys))"
    proof
      assume "in_rng (dst + of_nat i) ?e (Suc (length ys))"
      then have "length xs \<le> unat (dst + of_nat i - dst)"
        using fits in_rng_shift [of "length xs" "Suc (length ys)" _ dst] by simp
      with that fits show False by (simp add: unat_of_nat32)
    qed
    then show ?thesis by (simp add: moved_def)
  qed
  then have "read_bytes ?m dst (length xs) = read_bytes m dst (length xs)"
    by (simp add: list_eq_iff_nth_eq nth_read_bytes)
  moreover have "cstr m' dst (xs @ ys) \<longleftrightarrow>
      read_bytes m' dst (length xs) = xs \<and> 0 \<notin> set xs \<and> cstr m' ?e ys" for m'
    by (induction xs arbitrary: dst) (auto simp: algebra_simps)
  ultimately show ?thesis using dst by (auto simp: cstr_read)
qed

text \<open>\<open>strncpy\<close> fills the destination exactly, padding with NUL and not always terminating.\<close>

lemma strncpy_loop_write:
  "cstr m src xs \<Longrightarrow> (\<And>a. in_rng a dst k \<Longrightarrow> \<not> in_rng a src (Suc (length xs))) \<Longrightarrow>
    strncpy_loop k dst src m = write_bytes (take k (xs @ replicate k 0)) dst m"
proof (induction k arbitrary: xs dst src m)
  case 0
  then show ?case by simp
next
  case (Suc k)
  let ?m = "m(dst := m src)"
  have far: "\<not> in_rng dst src (Suc (length xs))"
    and far': "\<And>a. in_rng a (dst + 1) k \<Longrightarrow> \<not> in_rng a src (Suc (length xs))"
    using Suc.prems(2) by (simp_all add: in_rng_Suc)
  have str: "cstr ?m src xs" using Suc.prems(1) by (rule cstr_frame) (use far in auto)
  show ?case
  proof (cases xs)
    case Nil
    then have "strncpy_loop k (dst + 1) src ?m = write_bytes (take k ([] @ replicate k 0)) (dst + 1) ?m"
      using str far' by (intro Suc.IH) auto
    with Nil str far show ?thesis by (auto simp: Let_def)
  next
    case (Cons x ys)
    have "in_rng a src (Suc (length xs))" if "in_rng a (src + 1) (Suc (length ys))" for a
      using that Cons by (simp add: in_rng_Suc)
    then have "strncpy_loop k (dst + 1) (src + 1) ?m =
        write_bytes (take k (ys @ replicate k 0)) (dst + 1) ?m"
      using str far' Cons by (intro Suc.IH) (auto simp del: fun_upd_apply)
    moreover have "?m src \<noteq> 0" "m src = x" using str Suc.prems(1) Cons by auto
    moreover have "take k (ys @ 0 # replicate k 0) = take k (ys @ replicate k 0)"
      by (simp add: take_Cons' flip: replicate_Suc)
    ultimately show ?thesis using Cons by (simp add: Let_def)
  qed
qed

lemma strlcpy_loop_write:
  "cstr m src xs \<Longrightarrow> 0 < sz \<Longrightarrow>
    (\<And>a. in_rng a dst (unat sz) \<Longrightarrow> \<not> in_rng a src (Suc (length xs))) \<Longrightarrow>
    strlcpy_loop dst src sz m =
      (dst + of_nat (min (length xs) (unat sz - 1)),
       write_bytes (take (unat sz - 1) xs @ [0]) dst m)"
proof (induction xs arbitrary: dst src sz m)
  case Nil
  then show ?case by (simp add: strlcpy_loop.simps fun_upd_def)
next
  case (Cons x xs)
  then have sz: "unat sz = Suc (unat (sz - 1))" by (simp add: unat_Suc_pred word_pos_iff)
  show ?case
  proof (cases "0 < sz - 1")
    case False
    then have "sz - 1 = 0" by (simp add: word_pos_iff)
    then have "unat (sz - 1) = 0" by simp
    with sz False show ?thesis by (simp add: strlcpy_loop.simps [of dst src sz] fun_upd_def)
  next
    case True
    then have sz1: "unat (sz - 1) = Suc (unat (sz - 1) - 1)" by (simp add: word_less_nat_alt)
    let ?m = "m(dst := m src)"
    have far: "\<not> in_rng dst src (Suc (Suc (length xs)))"
      and far': "\<And>a. in_rng a (dst + 1) (unat (sz - 1)) \<Longrightarrow> \<not> in_rng a (src + 1) (Suc (length xs))"
      using Cons.prems(3) sz by (simp_all add: in_rng_Suc)
    have same: "?m a = m a" if "in_rng a (src + 1) (Suc (length xs))" for a
      using that far in_rng_Suc [of a src "Suc (length xs)"] by auto
    have "cstr m (src + 1) xs" using Cons.prems(1) by simp
    then have "cstr ?m (src + 1) xs" by (rule cstr_frame) (rule same)
    then have "strlcpy_loop (dst + 1) (src + 1) (sz - 1) ?m =
        (dst + 1 + of_nat (min (length xs) (unat (sz - 1) - 1)),
         write_bytes (take (unat (sz - 1) - 1) xs @ [0]) (dst + 1) ?m)"
      by (rule Cons.IH) (use True far' in auto)
    moreover have "take (unat sz - 1) (x # xs) = x # take (unat (sz - 1) - 1) xs"
      "min (length (x # xs)) (unat sz - 1) = Suc (min (length xs) (unat (sz - 1) - 1))"
      using sz sz1 by (metis diff_Suc_1 take_Suc_Cons) (use sz sz1 in simp)
    ultimately show ?thesis
      using True Cons.prems(1,2) by (simp add: strlcpy_loop.simps [of dst src sz] Let_def algebra_simps)
  qed
qed

lemma strlcpy_write:
  assumes "cstr m src xs" and "0 < sz"
    and "\<And>a. in_rng a dst (unat sz) \<Longrightarrow> \<not> in_rng a src (Suc (length xs))"
  shows "strlcpy dst src sz m =
    (of_nat (min (length xs) (unat sz - 1)), write_bytes (take (unat sz - 1) xs @ [0]) dst m)"
  using strlcpy_loop_write [OF assms] assms(2) by (simp add: strlcpy_def)

text \<open>Writing a string and its NUL makes it the string at that address.\<close>

lemma cstr_write_bytes:
  assumes "0 \<notin> set xs" and "length xs < 4294967296"
  shows "cstr (write_bytes (xs @ [0]) p m) p xs"
proof -
  let ?m = "write_bytes (xs @ [0]) p m"
  have at: "?m (p + of_nat i) = (xs @ [0]) ! i" if "i \<le> length xs" for i
    using that assms(2) by (simp add: write_bytes_apply in_rng_offset unat_of_nat32)
  have "read_bytes ?m p (length xs) = xs"
    by (intro nth_equalityI) (simp_all add: nth_read_bytes at nth_append)
  moreover have "?m (p + of_nat (length xs)) = 0" by (simp add: at)
  ultimately show ?thesis using assms(1) by (simp add: cstr_read)
qed

end
