(* ===== verification/Kdebug.thy ===== *)
theory Kdebug
  imports Machine Mmu String_Laws
begin

text \<open>
  kern/kdebug.c and inc/stab.h: looking an instruction address up in the STABS debugging
  tables that the linker puts into the kernel image.  Table indices are C ints that stay far
  from overflow (the table holds 12-byte entries in a 32-bit address space), so they are \<open>int\<close>
  with C's truncating division; addresses are \<open>u32\<close> and wrap.
\<close>

section \<open>The stabs table (inc/stab.h)\<close>

record Stab =
  n_strx :: u32
  n_type :: u8
  n_other :: u8
  n_desc :: u16
  n_value :: u32

definition N_FUN :: i32 where [simp]: "N_FUN = 0x24"
definition N_SLINE :: i32 where [simp]: "N_SLINE = 0x44"
definition N_SO :: i32 where [simp]: "N_SO = 0x64"
definition N_SOL :: i32 where [simp]: "N_SOL = 0x84"
definition N_PSYM :: i32 where [simp]: "N_PSYM = 0xa0"

text \<open>\<open>stabs[i]\<close>: the 12-byte entry at index \<open>i\<close>, in the i386 layout of the struct.\<close>

definition stab_at :: "memory \<Rightarrow> u32 \<Rightarrow> int \<Rightarrow> Stab" where
  "stab_at m stabs i =
     (let p = stabs + 12 * word_of_int i
      in \<lparr>n_strx = load32 m p, n_type = m (p + 4), n_other = m (p + 5),
          n_desc = load16 m (p + 6), n_value = load32 m (p + 8)\<rparr>)"

text \<open>\<open>stabs[i].n_type == type\<close>, with the byte promoted to int.\<close>

definition has_type :: "(int \<Rightarrow> Stab) \<Rightarrow> i32 \<Rightarrow> int \<Rightarrow> bool" where
  "has_type st ty i \<longleftrightarrow> ucast (n_type (st i)) = ty"

section \<open>stab\_binsearch\<close>

function scan_back :: "(int \<Rightarrow> Stab) \<Rightarrow> int \<Rightarrow> i32 \<Rightarrow> int \<Rightarrow> int" where
  "scan_back st l ty m = (if l \<le> m \<and> \<not> has_type st ty m then scan_back st l ty (m - 1) else m)"
  by pat_completeness auto
termination
  by (relation "measure (\<lambda>(st, l, ty, m). nat (m - l + 1))") auto

declare scan_back.simps [simp del]

lemma scan_back_step:
  "l \<le> m \<Longrightarrow> \<not> has_type st ty m \<Longrightarrow> scan_back st l ty m = scan_back st l ty (m - 1)"
  by (subst scan_back.simps) simp

lemma scan_back_stop: "\<not> (l \<le> m \<and> \<not> has_type st ty m) \<Longrightarrow> scan_back st l ty m = m"
  by (subst scan_back.simps) (rule if_not_P)

lemma scan_back_spec:
  "scan_back st l ty m \<le> m \<and> (l \<le> scan_back st l ty m \<longrightarrow> has_type st ty (scan_back st l ty m))
    \<and> (\<forall>j. scan_back st l ty m < j \<longrightarrow> l \<le> j \<longrightarrow> j \<le> m \<longrightarrow> \<not> has_type st ty j)"
proof (induction st l ty m rule: scan_back.induct)
  case (1 st l ty m)
  show ?case
  proof (cases "l \<le> m \<and> \<not> has_type st ty m")
    case True
    then have eq: "scan_back st l ty m = scan_back st l ty (m - 1)" by (simp add: scan_back_step)
    have "\<not> has_type st ty j" if "scan_back st l ty (m - 1) < j" "l \<le> j" "j \<le> m" for j
      using "1.IH" True that by (cases "j = m") auto
    with "1.IH" True eq show ?thesis by auto
  next
    case False
    then show ?thesis by (auto simp: scan_back_stop)
  qed
qed

lemmas scan_back_le = scan_back_spec [THEN conjunct1]
lemmas scan_back_type = scan_back_spec [THEN conjunct2, THEN conjunct1, rule_format]
lemmas scan_back_none = scan_back_spec [THEN conjunct2, THEN conjunct2, rule_format]

lemma mid_bounds:
  assumes "(l :: int) \<le> r"
  shows "l \<le> (l + r) sdiv 2" "(l + r) sdiv 2 \<le> r"
proof -
  have "(l + r) sdiv 2 = (if 0 \<le> l + r then (l + r) div 2 else - ((- (l + r)) div 2))"
    by (auto simp: signed_divide_int_def sgn_if)
  then show "l \<le> (l + r) sdiv 2" "(l + r) sdiv 2 \<le> r"
    using assms by (auto split: if_splits)
qed

text \<open>
  The search proper.  \<open>rl\<close> and \<open>rr\<close> are \<open>*region_left\<close> and \<open>*region_right\<close>, \<open>any\<close> is
  \<open>any_matches\<close>.  After an exact match the loop continues from the match with \<open>addr\<close>
  incremented, so \<open>r - l\<close> need not shrink in that step; the next one then takes the first
  branch for that entry.
\<close>

function bs_loop ::
    "(int \<Rightarrow> Stab) \<Rightarrow> i32 \<Rightarrow> u32 \<Rightarrow> int \<Rightarrow> int \<Rightarrow> int \<Rightarrow> int \<Rightarrow> bool \<Rightarrow> int \<times> int \<times> bool" where
  "bs_loop st ty addr l r rl rr any =
     (if l \<le> r then
        let true_m = (l + r) sdiv 2; m = scan_back st l ty true_m
        in if m < l then bs_loop st ty addr (true_m + 1) r rl rr any
           else if n_value (st m) < addr then bs_loop st ty addr (true_m + 1) r m rr True
           else if addr < n_value (st m) then bs_loop st ty addr l (m - 1) rl (m - 1) True
           else bs_loop st ty (addr + 1) m r m rr True
      else (rl, rr, any))"
  by pat_completeness auto

definition bs_measure :: "(int \<Rightarrow> Stab) \<Rightarrow> i32 \<Rightarrow> u32 \<Rightarrow> int \<Rightarrow> int \<Rightarrow> nat" where
  "bs_measure st ty addr l r =
     2 * nat (r - l + 1)
       + (if n_value (st (scan_back st l ty ((l + r) sdiv 2))) = addr then 1 else 0)"

termination bs_loop
proof (relation "measure (\<lambda>(st, ty, addr, l, r, rl, rr, any). bs_measure st ty addr l r)",
    goal_cases)
  case 1
  show ?case by simp
next
  case (2 st ty addr l r rl rr any t m)
  then show ?case using mid_bounds [of l r] by (auto simp: bs_measure_def)
next
  case (3 st ty addr l r rl rr any t m)
  then show ?case using mid_bounds [of l r] by (auto simp: bs_measure_def)
next
  case (4 st ty addr l r rl rr any t m)
  then show ?case
    using mid_bounds [of l r] scan_back_le [of st l ty t] by (auto simp: bs_measure_def)
next
  case (5 st ty addr l r rl rr any t m)
  then have eq: "n_value (st m) = addr" and m: "l \<le> m" "m \<le> r"
    using mid_bounds [of l r] scan_back_le [of st l ty t] by auto
  show ?case
  proof (cases "m = l")
    case True
    with 5 eq show ?thesis by (auto simp: bs_measure_def)
  next
    case False
    with 5 eq m show ?thesis by (auto simp: bs_measure_def)
  qed
qed

declare bs_loop.simps [simp del]

function scan_right :: "(int \<Rightarrow> Stab) \<Rightarrow> int \<Rightarrow> i32 \<Rightarrow> int \<Rightarrow> int" where
  "scan_right st left ty l =
     (if left < l \<and> \<not> has_type st ty l then scan_right st left ty (l - 1) else l)"
  by pat_completeness auto
termination
  by (relation "measure (\<lambda>(st, left, ty, l). nat (l - left))") auto

declare scan_right.simps [simp del]

definition stab_binsearch :: "(int \<Rightarrow> Stab) \<Rightarrow> int \<Rightarrow> int \<Rightarrow> i32 \<Rightarrow> u32 \<Rightarrow> int \<times> int" where
  "stab_binsearch st region_left region_right ty addr =
     (let (rl, rr, any_matches) =
            bs_loop st ty addr region_left region_right region_left region_right False
      in if \<not> any_matches then (rl, rl - 1) else (scan_right st rl ty rr, rr))"

section \<open>What the search finds\<close>

text \<open>\<open>tab st ty L R i\<close>: \<open>i\<close> is an entry of the wanted type in the searched part.\<close>

definition tab :: "(int \<Rightarrow> Stab) \<Rightarrow> i32 \<Rightarrow> int \<Rightarrow> int \<Rightarrow> int \<Rightarrow> bool" where
  "tab st ty L R i \<longleftrightarrow> L \<le> i \<and> i \<le> R \<and> has_type st ty i"

definition tab_sorted :: "(int \<Rightarrow> Stab) \<Rightarrow> i32 \<Rightarrow> int \<Rightarrow> int \<Rightarrow> bool" where
  "tab_sorted st ty L R \<longleftrightarrow>
     (\<forall>i j. tab st ty L R i \<and> tab st ty L R j \<and> i < j \<longrightarrow> n_value (st i) \<le> n_value (st j))"

text \<open>
  After an exact match the search goes on for the address plus one.  So the entry that it finds may lie
  above the address, but only where there are entries at the address and at the one after it.
\<close>

definition overshoot :: "(int \<Rightarrow> Stab) \<Rightarrow> i32 \<Rightarrow> int \<Rightarrow> int \<Rightarrow> u32 \<Rightarrow> int \<Rightarrow> bool" where
  "overshoot st ty L R A k \<longleftrightarrow> (A < n_value (st k) \<longrightarrow>
     (\<exists>i. tab st ty L R i \<and> n_value (st i) = A) \<and> (\<exists>i. tab st ty L R i \<and> n_value (st i) = A + 1))"

definition below_top :: "(int \<Rightarrow> Stab) \<Rightarrow> i32 \<Rightarrow> int \<Rightarrow> int \<Rightarrow> bool" where
  "below_top st ty L R \<longleftrightarrow> (\<forall>i. tab st ty L R i \<longrightarrow> n_value (st i) \<noteq> 0xFFFFFFFF)"

text \<open>
  The loop invariant.  \<open>A\<close> is the address searched for; \<open>addr\<close> is larger after exact matches, and
  then there are entries at all addresses from \<open>A\<close> up to it.  \<open>found\<close> says that \<open>rl\<close> was set by the loop.
\<close>

definition bs_inv ::
    "(int \<Rightarrow> Stab) \<Rightarrow> i32 \<Rightarrow> int \<Rightarrow> int \<Rightarrow> u32 \<Rightarrow> u32 \<Rightarrow> int \<Rightarrow> int \<Rightarrow> int \<Rightarrow> bool \<Rightarrow> bool \<Rightarrow> bool" where
  "bs_inv st ty L R A addr l r rl any found \<longleftrightarrow>
     L \<le> l \<and> r \<le> R \<and> A \<le> addr
     \<and> (\<forall>v. A \<le> v \<longrightarrow> v < addr \<longrightarrow> (\<exists>i. tab st ty L R i \<and> n_value (st i) = v))
     \<and> (\<forall>i. tab st ty L R i \<longrightarrow> r < i \<longrightarrow> A < n_value (st i))
     \<and> (r = R \<or> tab st ty L R (r + 1))
     \<and> (if found
        then tab st ty L R rl \<and> rl \<le> l \<and> rl \<le> r \<and> n_value (st rl) \<le> addr
             \<and> overshoot st ty L R A rl
             \<and> (\<forall>i. tab st ty L R i \<longrightarrow> rl < i \<longrightarrow> l \<le> i)
        else rl = L \<and> (\<forall>i. tab st ty L R i \<longrightarrow> l \<le> i))
     \<and> (any \<longleftrightarrow> found \<or> r < R)"

lemma bs_inv_skip:
  assumes inv: "bs_inv st ty L R A addr l r rl any found" and lr: "l \<le> t"
    and none: "\<And>j. l \<le> j \<Longrightarrow> j \<le> t \<Longrightarrow> \<not> has_type st ty j"
  shows "bs_inv st ty L R A addr (t + 1) r rl any found"
proof -
  have "t + 1 \<le> i" if "tab st ty L R i" "l \<le> i" for i
    using none [of i] that by (force simp: tab_def)
  then show ?thesis using inv lr unfolding bs_inv_def by (auto split: if_splits)
qed

text \<open>An entry at or below \<open>addr\<close> becomes the left end.\<close>

lemma bs_inv_left:
  assumes inv: "bs_inv st ty L R A addr l r rl any found" and m: "tab st ty L R m" "l \<le> m" "m \<le> t" "t \<le> r"
    and val: "n_value (st m) < addr \<and> addr' = addr \<or> n_value (st m) = addr \<and> addr' = addr + 1"
    and low: "n_value (st m) + 1 \<noteq> 0" and none: "\<And>j. m < j \<Longrightarrow> j \<le> t \<Longrightarrow> \<not> has_type st ty j"
  shows "bs_inv st ty L R A addr' (t + 1) r m True True" and "bs_inv st ty L R A addr' m r m True True"
proof -
  have chain: "\<exists>i. tab st ty L R i \<and> n_value (st i) = v" if "A \<le> v" "v < addr" for v
    using inv that by (simp add: bs_inv_def)
  have A: "A \<le> addr" using inv by (simp add: bs_inv_def)
  have Suc: "unat (addr + 1) = Suc (unat addr)" if "n_value (st m) = addr"
    using low that unat_Suc_pred [of "addr + 1"] by simp
  have addr': "A \<le> addr' \<and> n_value (st m) \<le> addr'
      \<and> (\<forall>v. A \<le> v \<longrightarrow> v < addr' \<longrightarrow> (\<exists>i. tab st ty L R i \<and> n_value (st i) = v))"
  proof (cases "n_value (st m) = addr")
    case True
    then have eq: "addr' = addr + 1" using val by auto
    have "v < addr \<or> v = addr" if "v < addr'" for v
      using that Suc [OF True] unfolding eq by (auto simp: word_less_nat_alt word_unat_eq_iff less_Suc_eq)
    with chain m(1) True have "\<forall>v. A \<le> v \<longrightarrow> v < addr' \<longrightarrow> (\<exists>i. tab st ty L R i \<and> n_value (st i) = v)" by blast
    moreover have "addr \<le> addr'" using Suc [OF True] eq by (simp add: word_le_nat_alt)
    ultimately show ?thesis using A True by auto
  next
    case False
    with val A chain show ?thesis by auto
  qed
  moreover have "overshoot st ty L R A m"
    unfolding overshoot_def
  proof (intro impI conjI)
    assume above: "A < n_value (st m)"
    then have less: "A < addr" using val by auto
    then show "\<exists>i. tab st ty L R i \<and> n_value (st i) = A" using chain by blast
    have "A + 1 \<noteq> 0" using above word_n1_ge [of "n_value (st m)"] by (auto simp: add_eq_0_iff2)
    then have "unat (A + 1) = Suc (unat A)" using unat_Suc_pred [of "A + 1"] by simp
    then have "A + 1 \<le> n_value (st m)" "A \<le> A + 1" using above by (simp_all add: word_less_nat_alt word_le_nat_alt)
    then show "\<exists>i. tab st ty L R i \<and> n_value (st i) = A + 1"
      using m(1) val chain [of "A + 1"] by (cases "A + 1 = n_value (st m)") force+
  qed
  moreover have "t + 1 \<le> i" if "tab st ty L R i" "m < i" for i
    using none [of i] that by (force simp: tab_def)
  ultimately show "bs_inv st ty L R A addr' (t + 1) r m True True" "bs_inv st ty L R A addr' m r m True True"
    using inv m unfolding bs_inv_def by auto
qed

lemma bs_inv_right:
  assumes inv: "bs_inv st ty L R A addr l r rl any found" and sorted: "tab_sorted st ty L R"
    and m: "tab st ty L R m" "addr < n_value (st m)" "l \<le> m"
  shows "bs_inv st ty L R A addr l (m - 1) rl True found"
proof -
  have A: "A < n_value (st m)" using inv m(2) by (auto simp: bs_inv_def)
  have "A < n_value (st i)" if "tab st ty L R i" "m - 1 < i" for i
    using sorted m(1) A that unfolding tab_sorted_def
    by (cases "i = m") (auto intro: less_le_trans)
  moreover have "m \<le> R" using m(1) by (simp add: tab_def)
  moreover have "rl \<noteq> m" if found using inv m(2) that by (auto simp: bs_inv_def)
  ultimately show ?thesis using inv m by (auto simp: bs_inv_def split: if_splits)
qed

text \<open>One turn of the loop.\<close>

definition bs_next ::
    "(int \<Rightarrow> Stab) \<Rightarrow> i32 \<Rightarrow> u32 \<Rightarrow> int \<Rightarrow> int \<Rightarrow> int \<Rightarrow> int \<Rightarrow> bool \<Rightarrow> u32 \<times> int \<times> int \<times> int \<times> int \<times> bool" where
  "bs_next st ty addr l r rl rr any =
     (let true_m = (l + r) sdiv 2; m = scan_back st l ty true_m
      in if m < l then (addr, true_m + 1, r, rl, rr, any)
         else if n_value (st m) < addr then (addr, true_m + 1, r, m, rr, True)
         else if addr < n_value (st m) then (addr, l, m - 1, rl, m - 1, True)
         else (addr + 1, m, r, m, rr, True))"

lemma bs_loop_next:
  "bs_loop st ty addr l r rl rr any =
     (if l \<le> r then (case bs_next st ty addr l r rl rr any of
        (addr', l', r', rl', rr', any') \<Rightarrow> bs_loop st ty addr' l' r' rl' rr' any') else (rl, rr, any))"
  by (subst bs_loop.simps) (simp add: bs_next_def Let_def)

lemma bs_next_induct [case_names turn]:
  assumes "\<And>addr l r rl rr any. (l \<le> r \<Longrightarrow> case bs_next st ty addr l r rl rr any of
      (addr', l', r', rl', rr', any') \<Rightarrow> P addr' l' r' rl' rr' any') \<Longrightarrow> P addr l r rl rr any"
  shows "P addr l r rl rr any"
proof -
  have "st' = st \<longrightarrow> ty' = ty \<longrightarrow> P addr l r rl rr any" for st' ty'
  proof (induction st' ty' addr l r rl rr any rule: bs_loop.induct)
    case (1 st' ty' addr l r rl rr any)
    define t where "t = (l + r) sdiv 2"
    define m where "m = scan_back st' l ty' t"
    note IH = "1.IH" [OF _ t_def m_def]
    note step = bs_next_def [of st' ty' addr l r rl rr any, unfolded Let_def, folded t_def m_def]
    show ?case
    proof (intro impI, rule assms)
      assume eq: "st' = st" "ty' = ty" and lr: "l \<le> r"
      consider "m < l" | "\<not> m < l" "n_value (st' m) < addr"
        | "\<not> m < l" "\<not> n_value (st' m) < addr" "addr < n_value (st' m)"
        | "\<not> m < l" "\<not> n_value (st' m) < addr" "\<not> addr < n_value (st' m)" by blast
      then have "case bs_next st' ty' addr l r rl rr any of
          (addr', l', r', rl', rr', any') \<Rightarrow> P addr' l' r' rl' rr' any'"
        by cases (simp_all only: step [unfolded eq] IH [unfolded eq, OF lr] eq prod.case simp_thms if_True if_False)
      then show "case bs_next st ty addr l r rl rr any of
          (addr', l', r', rl', rr', any') \<Rightarrow> P addr' l' r' rl' rr' any'"
        by (simp only: eq)
    qed
  qed
  then show ?thesis by blast
qed

lemma bs_next_inv:
  assumes sorted: "tab_sorted st ty L R" and low: "below_top st ty L R"
    and inv: "bs_inv st ty L R A addr l r rl any found" and "l \<le> r"
    and turn: "bs_next st ty addr l r rl r any = (addr', l', r', rl', rr', any')"
  shows "rr' = r' \<and> (\<exists>found'. bs_inv st ty L R A addr' l' r' rl' any' found')"
proof -
  define t where "t = (l + r) sdiv 2"
  define m where "m = scan_back st l ty t"
  have t: "l \<le> t" "t \<le> r" using mid_bounds [OF \<open>l \<le> r\<close>] by (simp_all add: t_def)
  have none: "\<not> has_type st ty j" if "m < j" "l \<le> j" "j \<le> t" for j
    using that scan_back_none [of st l ty t j] by (simp add: m_def)
  note nx = turn [unfolded bs_next_def Let_def, folded t_def m_def]
  show ?thesis
  proof (cases "m < l")
    case True
    then have "bs_inv st ty L R A addr (t + 1) r rl any found"
      using bs_inv_skip [OF inv t(1)] none by auto
    with True nx show ?thesis by auto
  next
    case lm: False
    have mt: "m \<le> t" using scan_back_le [of st l ty t] by (simp add: m_def)
    have tm: "tab st ty L R m"
      using lm mt t scan_back_type [of l st ty t] inv by (simp add: tab_def m_def bs_inv_def)
    then have "n_value (st m) \<noteq> - 1" using low unfolding below_top_def by force
    then have top: "n_value (st m) + 1 \<noteq> 0" by (simp add: eq_neg_iff_add_eq_0)
    have none': "\<not> has_type st ty j" if "m < j" "j \<le> t" for j using none lm that by simp
    note left = bs_inv_left [OF inv tm _ mt t(2) _ top none']
    consider "n_value (st m) < addr" | "addr < n_value (st m)" | "n_value (st m) = addr" by fastforce
    then show ?thesis
    proof cases
      case 1
      with left(1) [of addr] lm nx show ?thesis by auto
    next
      case 2
      then have "\<not> n_value (st m) < addr" by simp
      with 2 bs_inv_right [OF inv sorted tm 2] lm nx show ?thesis by auto
    next
      case 3
      with left(2) [of "addr + 1"] lm nx show ?thesis by auto
    qed
  qed
qed

lemma bs_loop_inv:
  assumes "tab_sorted st ty L R" and "below_top st ty L R"
    and "bs_inv st ty L R A addr l r rl any found" and "rr = r"
  shows "\<exists>addr' l' r' rl' any' found'. bs_loop st ty addr l r rl rr any = (rl', r', any')
      \<and> bs_inv st ty L R A addr' l' r' rl' any' found' \<and> r' < l'"
  using assms(3,4)
proof (induction addr l r rl rr any arbitrary: found rule: bs_next_induct [where st = st and ty = ty])
  case (turn addr l r rl rr any)
  obtain addr' l' r' rl' rr' any' where nx: "bs_next st ty addr l r rl rr any = (addr', l', r', rl', rr', any')"
    by (metis prod_cases6)
  show ?case
  proof (cases "l \<le> r")
    case False
    then show ?thesis
      using turn.prems by (subst bs_loop_next) (auto simp: not_le)
  next
    case True
    then show ?thesis
      using bs_next_inv [OF assms(1,2) turn.prems(1) True] turn.IH turn.prems(2) nx
      by (subst bs_loop_next) auto
  qed
qed

lemma scan_right_none:
  "left \<le> l \<Longrightarrow> (\<And>j. left < j \<Longrightarrow> j \<le> l \<Longrightarrow> \<not> has_type st ty j) \<Longrightarrow>
    scan_right st left ty l = left"
proof (induction st left ty l rule: scan_right.induct)
  case (1 st left ty l)
  then show ?case by (subst scan_right.simps) force
qed

lemma bs_loop_result:
  assumes sorted: "tab_sorted st ty L R" and low: "below_top st ty L R"
  obtains addr' l' r' rl' any' found' where
    "bs_loop st ty A L R L R False = (rl', r', any')"
    "bs_inv st ty L R A addr' l' r' rl' any' found'" "r' < l'"
proof -
  have "bs_inv st ty L R A A L R L False False" by (auto simp: bs_inv_def tab_def)
  from bs_loop_inv [OF sorted low this refl] show ?thesis using that by blast
qed

lemma binsearch_brackets:
  assumes sorted: "tab_sorted st ty L R" and low: "below_top st ty L R"
    and k: "tab st ty L R k" "n_value (st k) \<le> A"
  shows "case stab_binsearch st L R ty A of (left, right) \<Rightarrow>
    tab st ty L R left \<and> left \<le> right \<and> overshoot st ty L R A left
    \<and> (\<forall>i. tab st ty L R i \<longrightarrow> left < i \<longrightarrow> right < i \<and> A < n_value (st i))
    \<and> (right = R \<or> tab st ty L R (right + 1))"
proof -
  obtain addr l r rl any found where res: "bs_loop st ty A L R L R False = (rl, r, any)"
    and inv: "bs_inv st ty L R A addr l r rl any found" and stop: "r < l"
    using bs_loop_result [OF sorted low] .
  have above: "A < n_value (st i)" if "tab st ty L R i" "r < i" for i
    using inv that by (simp add: bs_inv_def)
  have found
  proof (rule ccontr)
    assume "\<not> found"
    then have "l \<le> k" using inv k(1) by (simp add: bs_inv_def)
    then show False using above [OF k(1)] k(2) stop by simp
  qed
  then have rl: "tab st ty L R rl" "overshoot st ty L R A rl" "rl \<le> r" and any
    and after: "\<And>i. tab st ty L R i \<Longrightarrow> rl < i \<Longrightarrow> l \<le> i"
    using inv by (auto simp: bs_inv_def)
  have "r \<le> R" using inv by (simp add: bs_inv_def)
  then have "\<not> has_type st ty j" if "rl < j" "j \<le> r" for j
    using after [of j] that rl(1) stop by (auto simp: tab_def)
  with \<open>rl \<le> r\<close> have "scan_right st rl ty r = rl" by (rule scan_right_none)
  then have "stab_binsearch st L R ty A = (rl, r)"
    using res \<open>any\<close> by (simp add: stab_binsearch_def)
  moreover have "r < i \<and> A < n_value (st i)" if "tab st ty L R i" "rl < i" for i
    using after [OF that] above [OF that(1)] stop by simp
  moreover have "r = R \<or> tab st ty L R (r + 1)" using inv by (simp add: bs_inv_def)
  ultimately show ?thesis using rl by simp
qed

text \<open>
  C1: on a sorted table without an entry of the type at the last address, where some entry lies at or
  below the address, the search returns an entry of the type and the index before the next one, and all
  entries after it lie above the address.  The entry lies at or below the address too, unless there are
  entries both at the address and at the one after it: then the search may run past the right one.
\<close>

theorem stab_binsearch_finds:
  assumes sorted: "tab_sorted st ty L R" and low: "below_top st ty L R"
    and k: "tab st ty L R k" "n_value (st k) \<le> A"
  shows "case stab_binsearch st L R ty A of (left, right) \<Rightarrow>
    tab st ty L R left \<and> left \<le> right \<and> overshoot st ty L R A left
    \<and> (\<forall>i. tab st ty L R i \<longrightarrow> left < i \<longrightarrow> right < i \<and> A < n_value (st i))
    \<and> (right = R \<or> tab st ty L R (right + 1))"
  by (rule binsearch_brackets [OF assms])

text \<open>
  Where every entry of the type lies above the address, \<open>right\<close> is the index before the
  first of them, but \<open>left\<close> does not move past it: the result is an interval without the
  address that the caller's test \<open>left <= right\<close> takes for a match.
\<close>

theorem stab_binsearch_below_all:
  assumes sorted: "tab_sorted st ty L R" and low: "below_top st ty L R"
    and f: "tab st ty L R f" "\<forall>i. tab st ty L R i \<longrightarrow> f \<le> i \<and> A < n_value (st i)"
  shows "stab_binsearch st L R ty A = (min L (f - 1), f - 1)"
proof -
  obtain addr l r rl any found where res: "bs_loop st ty A L R L R False = (rl, r, any)"
    and inv: "bs_inv st ty L R A addr l r rl any found" and stop: "r < l"
    using bs_loop_result [OF sorted low] .
  have "\<not> found" using inv f(2) by (fastforce simp: bs_inv_def overshoot_def)
  then have rl: "rl = L" and after: "\<And>i. tab st ty L R i \<Longrightarrow> l \<le> i" and any: "any \<longleftrightarrow> r < R"
    using inv by (auto simp: bs_inv_def)
  have "r \<noteq> R" using after [OF f(1)] stop f(1) by (auto simp: tab_def)
  then have r: "r < R" "tab st ty L R (r + 1)" using inv by (auto simp: bs_inv_def)
  have "f = r + 1" using f(2) r(2) after [OF f(1)] stop by force
  moreover have "scan_right st L ty r = min L r"
  proof (cases "L \<le> r")
    case True
    have "\<not> has_type st ty j" if "L < j" "j \<le> r" for j
      using that after [of j] stop r(1) by (auto simp: tab_def)
    with True have "scan_right st L ty r = L" by (rule scan_right_none)
    with True show ?thesis by simp
  next
    case False
    then show ?thesis by (subst scan_right.simps) simp
  qed
  ultimately show ?thesis using res rl any r(1) by (simp add: stab_binsearch_def)
qed

lemma stab_binsearch_empty:
  assumes none: "\<forall>i. \<not> tab st ty L R i"
  shows "stab_binsearch st L R ty A = (L, L - 1)"
proof -
  have sorted: "tab_sorted st ty L R" using none by (simp add: tab_sorted_def)
  have low: "below_top st ty L R" using none by (simp add: below_top_def)
  obtain addr l r rl any found where res: "bs_loop st ty A L R L R False = (rl, r, any)"
    and inv: "bs_inv st ty L R A addr l r rl any found"
    using bs_loop_result [OF sorted low] .
  have "\<not> found" using inv none by (cases found) (simp_all add: bs_inv_def)
  then have "rl = L" "\<not> any" using inv none by (simp_all add: bs_inv_def)
  with res show ?thesis by (simp add: stab_binsearch_def)
qed

section \<open>debuginfo\_eip\<close>

record Eipdebuginfo =
  eip_file :: u32
  eip_line :: i32
  eip_fn_name :: u32
  eip_fn_namelen :: i32
  eip_fn_addr :: u32
  eip_fn_narg :: i32

function back_to_file :: "(int \<Rightarrow> Stab) \<Rightarrow> int \<Rightarrow> int \<Rightarrow> int" where
  "back_to_file st lfile lline =
     (if lfile \<le> lline \<and> \<not> has_type st N_SOL lline
         \<and> (\<not> has_type st N_SO lline \<or> n_value (st lline) = 0)
      then back_to_file st lfile (lline - 1) else lline)"
  by pat_completeness auto
termination
  by (relation "measure (\<lambda>(st, lfile, lline). nat (lline - lfile + 1))") auto

declare back_to_file.simps [simp del]

function count_args :: "(int \<Rightarrow> Stab) \<Rightarrow> int \<Rightarrow> int \<Rightarrow> i32 \<Rightarrow> i32" where
  "count_args st rfun lline narg =
     (if lline < rfun \<and> has_type st N_PSYM lline
      then count_args st rfun (lline + 1) (narg + 1) else narg)"
  by pat_completeness auto
termination
  by (relation "measure (\<lambda>(st, rfun, lline, narg). nat (rfun - lline))") auto

declare count_args.simps [simp del]

text \<open>\<open>stabs\<close> and \<open>stab_end - stabs - 1\<close>, the stabs of the kernel and their last index.\<close>

definition kernel_stabs :: "linkmap \<Rightarrow> memory \<Rightarrow> int \<Rightarrow> Stab" where
  "kernel_stabs lk m = stab_at m (STAB_BEGIN lk)"

definition last_stab :: "linkmap \<Rightarrow> int" where
  "last_stab lk = sint (STAB_END lk - STAB_BEGIN lk) sdiv 12 - 1"

definition strtab_size :: "linkmap \<Rightarrow> u32" where
  "strtab_size lk = STABSTR_END lk - STABSTR_BEGIN lk"

text \<open>
  The search for the function in the stabs \<open>[lfile, rfile]\<close> of the source file.  The result is
  \<open>info\<close>, the address relative to the function, \<open>lfun\<close>, \<open>rfun\<close>, \<open>lline\<close> and \<open>rline\<close>.
\<close>

definition find_function ::
    "linkmap \<Rightarrow> memory \<Rightarrow> u32 \<Rightarrow> Eipdebuginfo \<Rightarrow> int \<Rightarrow> int
      \<Rightarrow> Eipdebuginfo \<times> u32 \<times> int \<times> int \<times> int \<times> int" where
  "find_function lk m addr info lfile rfile =
     (let st = kernel_stabs lk m;
          (lfun, rfun) = stab_binsearch st lfile rfile N_FUN addr
      in if lfun \<le> rfun then
           let info1 = (if n_strx (st lfun) < strtab_size lk
                        then info\<lparr>eip_fn_name := STABSTR_BEGIN lk + n_strx (st lfun)\<rparr> else info);
               info2 = info1\<lparr>eip_fn_addr := n_value (st lfun)\<rparr>
           in (info2, addr - eip_fn_addr info2, lfun, rfun, lfun, rfun)
         else (info\<lparr>eip_fn_addr := addr\<rparr>, addr, lfun, rfun, lfile, rfile))"

text \<open>The line number, the file name of that line and the number of arguments.\<close>

definition find_line ::
    "linkmap \<Rightarrow> memory \<Rightarrow> u32 \<Rightarrow> Eipdebuginfo \<Rightarrow> int \<Rightarrow> int \<Rightarrow> int \<Rightarrow> int \<Rightarrow> int \<Rightarrow> Eipdebuginfo" where
  "find_line lk m addr info lfile lfun rfun lline0 rline0 =
     (let st = kernel_stabs lk m;
          (lline, rline) = stab_binsearch st lline0 rline0 N_SLINE addr;
          info1 = (if lline \<le> rline then info\<lparr>eip_line := ucast (n_desc (st lline))\<rparr> else info);
          lline1 = back_to_file st lfile lline;
          info2 = (if lfile \<le> lline1 \<and> n_strx (st lline1) < strtab_size lk
                   then info1\<lparr>eip_file := STABSTR_BEGIN lk + n_strx (st lline1)\<rparr> else info1)
      in if lfun < rfun then info2\<lparr>eip_fn_narg := count_args st rfun (lfun + 1) 0\<rparr> else info2)"

definition debuginfo_eip ::
    "linkmap \<Rightarrow> u32 \<Rightarrow> (i32 \<times> Eipdebuginfo, 'a machine_scheme) kernel" where
  "debuginfo_eip lk addr s =
     (let m = mem s;
          info = \<lparr>eip_file = lit_unknown lk, eip_line = 0, eip_fn_name = lit_unknown lk,
                  eip_fn_namelen = 9, eip_fn_addr = addr, eip_fn_narg = 0\<rparr>
      in if \<not> ULIM \<le> addr then kpanic ''kern/kdebug.c'' 130 (ascii ''User address'') [] s
         else if STABSTR_END lk \<le> STABSTR_BEGIN lk \<or> m (STABSTR_END lk - 1) \<noteq> 0
         then kreturn (- 1, info) s
         else
           let (lfile, rfile) = stab_binsearch (kernel_stabs lk m) 0 (last_stab lk) N_SO addr
           in if lfile = 0 then kreturn (- 1, info) s
              else
                let (info1, addr1, lfun, rfun, lline, rline) =
                      find_function lk m addr info lfile rfile
                in case strfind m (eip_fn_name info1) 58 of
                     None \<Rightarrow> None
                   | Some p \<Rightarrow>
                       let info2 = info1\<lparr>eip_fn_namelen := p - eip_fn_name info1\<rparr>
                       in kreturn (0, find_line lk m addr1 info2 lfile lfun rfun lline rline) s)"

definition strtab_ok :: "linkmap \<Rightarrow> memory \<Rightarrow> bool" where
  "strtab_ok lk m \<longleftrightarrow> STABSTR_BEGIN lk < STABSTR_END lk \<and> m (STABSTR_END lk - 1) = 0"

definition file_search :: "linkmap \<Rightarrow> memory \<Rightarrow> u32 \<Rightarrow> int \<times> int" where
  "file_search lk m addr = stab_binsearch (kernel_stabs lk m) 0 (last_stab lk) N_SO addr"

lemma strfind_returns: "m a = 0 \<Longrightarrow> \<exists>q. strfind m p c = Some q"
  using nul_reaches [of m a p] strfind_cstr by blast

text \<open>
  C27: the lookup always returns.  It panics exactly on user addresses, and its code is -1
  exactly when the string table is unusable or the file search ends on entry 0; a missing
  line number does not make it fail, whatever the comment in the source says.
\<close>

theorem debuginfo_eip_outcome:
  "case debuginfo_eip lk addr s of
     None \<Rightarrow> False
   | Some (Panic p s') \<Rightarrow> addr < ULIM \<and> pc_fmt p = ascii ''User address'' \<and> s' = s
   | Some (Ret (code, info) s') \<Rightarrow> ULIM \<le> addr \<and> s' = s
       \<and> code = (if strtab_ok lk (mem s) \<and> fst (file_search lk (mem s) addr) \<noteq> 0 then 0 else - 1)"
proof (cases "addr < ULIM \<or> \<not> strtab_ok lk (mem s)")
  case True
  then show ?thesis
    by (auto simp: debuginfo_eip_def kpanic_def kreturn_def strtab_ok_def not_le Let_def)
next
  case False
  then have "mem s (STABSTR_END lk - 1) = 0" by (simp add: strtab_ok_def)
  note nul = strfind_returns [where m = "mem s", OF this]
  have ok: "ULIM \<le> addr" "\<not> (STABSTR_END lk \<le> STABSTR_BEGIN lk \<or> mem s (STABSTR_END lk - 1) \<noteq> 0)"
    using False by (auto simp: strtab_ok_def)
  obtain lfile rfile where srch: "stab_binsearch (kernel_stabs lk (mem s)) 0 (last_stab lk) N_SO addr
      = (lfile, rfile)" by fastforce
  obtain i1 a1 f1 f2 l1 l2 where fn: "find_function lk (mem s) addr \<lparr>eip_file = lit_unknown lk,
      eip_line = 0, eip_fn_name = lit_unknown lk, eip_fn_namelen = 9, eip_fn_addr = addr,
      eip_fn_narg = 0\<rparr> lfile rfile = (i1, a1, f1, f2, l1, l2)" by (metis prod_cases6)
  obtain q where q: "strfind (mem s) (eip_fn_name i1) 58 = Some q" using nul by blast
  show ?thesis
    using False ok srch fn q
    by (simp add: debuginfo_eip_def file_search_def kreturn_def Let_def del: ULIM_def)
qed

text \<open>
  C5: on a sorted table without a function at the last address, where some function of the source file
  starts at or below the address, the lookup names the last N_FUN stab of the file at or below it: all
  later ones start above the address, and so does the one it names only if functions start both at the
  address and at the one after it.
\<close>

theorem debuginfo_eip_function:
  fixes s :: "'a machine_scheme" and lk :: linkmap
  defines "st \<equiv> kernel_stabs lk (mem s)"
  assumes addr: "ULIM \<le> addr" and str: "strtab_ok lk (mem s)"
    and srch: "file_search lk (mem s) addr = (lf, rf)" "lf \<noteq> 0"
    and sorted: "tab_sorted st N_FUN lf rf" and low: "below_top st N_FUN lf rf"
    and k: "tab st N_FUN lf rf k" "n_value (st k) \<le> addr"
  shows "\<exists>f info. debuginfo_eip lk addr s = Some (Ret (0, info) s)
    \<and> tab st N_FUN lf rf f \<and> overshoot st N_FUN lf rf addr f
    \<and> (\<forall>i. tab st N_FUN lf rf i \<longrightarrow> f < i \<longrightarrow> addr < n_value (st i))
    \<and> eip_fn_addr info = n_value (st f)
    \<and> (n_strx (st f) < strtab_size lk \<longrightarrow> eip_fn_name info = STABSTR_BEGIN lk + n_strx (st f))
    \<and> strfind (mem s) (eip_fn_name info) 58 = Some (eip_fn_name info + eip_fn_namelen info)"
proof -
  obtain f g where fg: "stab_binsearch st lf rf N_FUN addr = (f, g)" by fastforce
  have f: "tab st N_FUN lf rf f" "overshoot st N_FUN lf rf addr f" "f \<le> g"
    "\<forall>i. tab st N_FUN lf rf i \<longrightarrow> f < i \<longrightarrow> addr < n_value (st i)"
    using binsearch_brackets [OF sorted low k] fg by auto
  let ?i0 = "\<lparr>eip_file = lit_unknown lk, eip_line = 0, eip_fn_name = lit_unknown lk,
      eip_fn_namelen = 9, eip_fn_addr = addr, eip_fn_narg = 0\<rparr>"
  obtain i1 where i1: "find_function lk (mem s) addr ?i0 lf rf = (i1, addr - n_value (st f), f, g, f, g)"
      "eip_fn_addr i1 = n_value (st f)"
      "n_strx (st f) < strtab_size lk \<longrightarrow> eip_fn_name i1 = STABSTR_BEGIN lk + n_strx (st f)"
    using fg f(3) by (simp add: find_function_def st_def Let_def)
  obtain q where q: "strfind (mem s) (eip_fn_name i1) 58 = Some q"
    using strfind_returns [where m = "mem s" and a = "STABSTR_END lk - 1"] str
    unfolding strtab_ok_def by blast
  let ?i2 = "i1\<lparr>eip_fn_namelen := q - eip_fn_name i1\<rparr>"
  let ?info = "find_line lk (mem s) (addr - n_value (st f)) ?i2 lf f g f g"
  have "debuginfo_eip lk addr s = Some (Ret (0, ?info) s)"
    using addr str srch i1(1) q
    by (auto simp: debuginfo_eip_def file_search_def strtab_ok_def kreturn_def Let_def simp del: ULIM_def)
  moreover have "eip_fn_addr ?info = n_value (st f)" "eip_fn_name ?info = eip_fn_name i1"
      "eip_fn_namelen ?info = q - eip_fn_name i1"
    using i1(2) by (simp_all add: find_line_def Let_def split: prod.split)
  moreover note f i1(3) q
  ultimately show ?thesis by (intro exI [of _ f] exI [of _ ?info]) (simp only: refl simp_thms diff_add_cancel add_diff_eq add_diff_cancel_left')
qed

section \<open>Worked examples\<close>

text \<open>
  The table in the comment above \<open>stab_binsearch\<close>: the N\_SO entries 0, 13, 117, 118, 555,
  556 and 657 of an early kernel.
\<close>

definition so_table :: "(int \<times> u32) list" where
  "so_table = [(0, 0xf0100000), (13, 0xf0100040), (117, 0xf0100176), (118, 0xf0100178),
     (555, 0xf0100652), (556, 0xf0100654), (657, 0xf0100849)]"

definition so_stabs :: "int \<Rightarrow> Stab" where
  "so_stabs i = (case map_of so_table i of
     None \<Rightarrow> \<lparr>n_strx = 0, n_type = 0, n_other = 0, n_desc = 0, n_value = 0\<rparr>
   | Some v \<Rightarrow> \<lparr>n_strx = 0, n_type = 0x64, n_other = 0, n_desc = 0, n_value = v\<rparr>)"

lemma tab_so_stabs:
  "tab so_stabs N_SO 0 657 i \<longleftrightarrow> i \<in> {0, 13, 117, 118, 555, 556, 657}"
  by (auto simp: tab_def has_type_def so_stabs_def so_table_def split: if_splits)

lemma so_stabs_values:
  "n_value (so_stabs 0) = 0xf0100000" "n_value (so_stabs 13) = 0xf0100040"
  "n_value (so_stabs 117) = 0xf0100176" "n_value (so_stabs 118) = 0xf0100178"
  "n_value (so_stabs 555) = 0xf0100652" "n_value (so_stabs 556) = 0xf0100654"
  "n_value (so_stabs 657) = 0xf0100849"
  by (simp_all add: so_stabs_def so_table_def)

lemma so_stabs_sorted: "tab_sorted so_stabs N_SO 0 657"
  unfolding tab_sorted_def tab_so_stabs by (auto simp: so_stabs_values)

lemma so_stabs_low: "below_top so_stabs N_SO 0 657"
  unfolding below_top_def tab_so_stabs by (auto simp: so_stabs_values)

theorem stab_binsearch_finds_witness:
  "stab_binsearch so_stabs 0 657 N_SO 0xf0100184 = (118, 554)
   \<and> (case stab_binsearch so_stabs 0 657 N_SO 0xf0100184 of (left, right) \<Rightarrow>
        tab so_stabs N_SO 0 657 left \<and> overshoot so_stabs N_SO 0 657 0xf0100184 left)"
proof -
  have k: "tab so_stabs N_SO 0 657 118" "n_value (so_stabs 118) \<le> 0xf0100184"
    unfolding tab_so_stabs by (simp_all add: so_stabs_values)
  have "stab_binsearch so_stabs 0 657 N_SO 0xf0100184 = (118, 554)" by code_simp
  with stab_binsearch_finds [OF so_stabs_sorted so_stabs_low k] show ?thesis by simp
qed

theorem stab_binsearch_below_all_witness:
  "stab_binsearch so_stabs 0 657 N_SO 0xf00fff00 = (- 1, - 1)"
proof -
  have f: "tab so_stabs N_SO 0 657 0"
      "\<forall>i. tab so_stabs N_SO 0 657 i \<longrightarrow> 0 \<le> i \<and> 0xf00fff00 < n_value (so_stabs i)"
    unfolding tab_so_stabs by (auto simp: so_stabs_values)
  show ?thesis using stab_binsearch_below_all [OF so_stabs_sorted so_stabs_low f] by simp
qed

text \<open>
  After an exact match the search continues for the address plus one, so an entry at that
  address is returned although it lies above the address searched for.
\<close>

theorem stab_binsearch_off_by_one:
  "stab_binsearch (\<lambda>i. \<lparr>n_strx = 0, n_type = 0x24, n_other = 0, n_desc = 0,
       n_value = (if i = 0 then 10 else 11)\<rparr>) 0 1 N_FUN 10 = (1, 1)"
  by code_simp

text \<open>
  A small table at 0xf0200000: an empty header, a source file at 0xf0100000 whose function
  \<open>f\<close> starts at 0xf0100040 and the end of the file at 0xf0100100.  The strings \<open>"", "a.c"\<close>
  and \<open>"f:F"\<close> follow.
\<close>

definition demo_stab :: "u8 \<Rightarrow> u8 \<Rightarrow> u32 \<Rightarrow> u8 list" where
  "demo_stab strx ty v = [strx, 0, 0, 0, ty, 0, 7, 0, ucast v, ucast (drop_bit 8 v),
     ucast (drop_bit 16 v), ucast (drop_bit 24 v)]"

definition demo_memory :: memory where
  "demo_memory = image 0xf0200000 (demo_stab 0 0 0 @ demo_stab 1 0x64 0xf0100000
     @ demo_stab 5 0x24 0xf0100040 @ demo_stab 0 0x64 0xf0100100
     @ [0, 97, 46, 99, 0, 102, 58, 70, 0])"

definition demo_link :: linkmap where
  "demo_link = \<lparr>sym_start = 0, sym_entry = 0, sym_etext = 0, sym_edata = 0, sym_bss_start = 0,
     sym_end = 0, sym_bootstack = 0, sym_entry_pgtable = 0, sym_entry_pgdir = 0,
     STAB_BEGIN = 0xf0200000, STAB_END = 0xf0200030, STABSTR_BEGIN = 0xf0200030,
     STABSTR_END = 0xf0200039, lit_unknown = 0, sym_line_buf = 0\<rparr>"

definition demo_machine :: machine where
  "demo_machine = \<lparr>mem = demo_memory, io_log = [], cr0 = 0, cr2 = 0, cr3 = 0, cr4 = 0,
     eflags = 0\<rparr>"

lemma demo_search: "file_search demo_link demo_memory 0xf0100052 = (1, 2)"
  by code_simp

lemma demo_entries:
  "has_type (kernel_stabs demo_link demo_memory) N_FUN 1 = False"
  "has_type (kernel_stabs demo_link demo_memory) N_FUN 2 = True"
  "n_value (kernel_stabs demo_link demo_memory 2) = 0xf0100040"
  "n_strx (kernel_stabs demo_link demo_memory 2) = 5"
  by code_simp+

lemma tab_demo: "tab (kernel_stabs demo_link demo_memory) N_FUN 1 2 i \<longleftrightarrow> i = 2"
proof -
  have "tab (kernel_stabs demo_link demo_memory) N_FUN 1 2 i \<longleftrightarrow>
      (i = 1 \<or> i = 2) \<and> has_type (kernel_stabs demo_link demo_memory) N_FUN i"
    unfolding tab_def by auto
  also have "\<dots> \<longleftrightarrow> i = 2" using demo_entries(1,2) by auto
  finally show ?thesis .
qed

theorem debuginfo_eip_function_witness:
  "\<exists>info. debuginfo_eip demo_link 0xf0100052 demo_machine = Some (Ret (0, info) demo_machine)
     \<and> eip_fn_addr info = 0xf0100040 \<and> eip_fn_name info = 0xf0200035"
proof -
  let ?st = "kernel_stabs demo_link (mem demo_machine)"
  have m: "mem demo_machine = demo_memory" by (simp add: demo_machine_def)
  have addr: "ULIM \<le> 0xf0100052" by simp
  have str: "strtab_ok demo_link (mem demo_machine)" by code_simp
  have size: "strtab_size demo_link = 9" "STABSTR_BEGIN demo_link = 0xf0200030" by code_simp+
  have sorted: "tab_sorted ?st N_FUN 1 2" unfolding tab_sorted_def m tab_demo by simp
  have low: "below_top ?st N_FUN 1 2"
    unfolding below_top_def m tab_demo using demo_entries(3) by simp
  have k: "tab ?st N_FUN 1 2 2" "n_value (?st 2) \<le> 0xf0100052"
    unfolding m tab_demo using demo_entries(3) by simp_all
  have srch: "file_search demo_link (mem demo_machine) 0xf0100052 = (1, 2)"
    unfolding m by (rule demo_search)
  have nz: "(1 :: int) \<noteq> 0" by simp
  obtain f info where "debuginfo_eip demo_link 0xf0100052 demo_machine = Some (Ret (0, info) demo_machine)"
      "tab ?st N_FUN 1 2 f" "eip_fn_addr info = n_value (?st f)"
      "n_strx (?st f) < strtab_size demo_link \<longrightarrow>
         eip_fn_name info = STABSTR_BEGIN demo_link + n_strx (?st f)"
    using debuginfo_eip_function [OF addr str srch nz sorted low k] by blast
  then show ?thesis
    using demo_entries(3,4) unfolding m tab_demo size by (intro exI [of _ info]) simp
qed

end
