(* ===== verification/Format.thy ===== *)
theory Format
  imports Machine String_Laws
begin

text \<open>
  lib/printfmt.c: the formatting engine shared by cprintf, snprintf and panic.  The function
  that takes each character is a parameter \<open>putch\<close> on a state of any type, as in the C code,
  and \<open>rd\<close> reads the memory of that state, since \<open>%s\<close> fetches each byte only when it is
  printed.  A \<open>long long\<close> takes two argument slots, low half first.  \<open>None\<close> stands
  for a run that does not return or reads arguments the caller did not pass.
\<close>

section \<open>Arguments and error strings\<close>

fun va_word :: "vararg list \<Rightarrow> (u32 \<times> vararg list) option" where
  "va_word (Slot w # ap) = Some (w, ap)"
| "va_word _ = None"

fun va_quad :: "vararg list \<Rightarrow> (u64 \<times> vararg list) option" where
  "va_quad (Slot lo # Slot hi # ap) = Some (ucast lo OR push_bit 32 (ucast hi), ap)"
| "va_quad _ = None"

fun va_ptr :: "vararg list \<Rightarrow> (vararg \<times> vararg list) option" where
  "va_ptr (a # ap) = Some (a, ap)"
| "va_ptr [] = None"

text \<open>The error codes of inc/error.h; the texts stand in the order of the codes.\<close>

definition E_UNSPECIFIED :: i32 where [simp]: "E_UNSPECIFIED = 1"
definition E_BAD_ENV :: i32 where [simp]: "E_BAD_ENV = 2"
definition E_INVAL :: i32 where [simp]: "E_INVAL = 3"
definition E_NO_MEM :: i32 where [simp]: "E_NO_MEM = 4"
definition E_NO_FREE_ENV :: i32 where [simp]: "E_NO_FREE_ENV = 5"
definition E_FAULT :: i32 where [simp]: "E_FAULT = 6"
definition MAXERROR :: i32 where [simp]: "MAXERROR = 7"

definition error_string :: "u8 list option list" where
  "error_string = [None, Some (ascii ''unspecified error''), Some (ascii ''bad environment''),
     Some (ascii ''invalid parameter''), Some (ascii ''out of memory''),
     Some (ascii ''out of environments''), Some (ascii ''segmentation fault'')]"

lemma error_string_codes:
  "length error_string = unat MAXERROR" "error_string ! 0 = None"
  "error_string ! unat E_UNSPECIFIED = Some (ascii ''unspecified error'')"
  "error_string ! unat E_BAD_ENV = Some (ascii ''bad environment'')"
  "error_string ! unat E_INVAL = Some (ascii ''invalid parameter'')"
  "error_string ! unat E_NO_MEM = Some (ascii ''out of memory'')"
  "error_string ! unat E_NO_FREE_ENV = Some (ascii ''out of environments'')"
  "error_string ! unat E_FAULT = Some (ascii ''segmentation fault'')"
  by (simp_all add: error_string_def)

section \<open>printnum\<close>

text \<open>\<open>for (; width > 0; width--) putch(c)\<close>; returns the final width too.\<close>

function pad_pos :: "(i32 \<Rightarrow> 's \<Rightarrow> 's) \<Rightarrow> i32 \<Rightarrow> i32 \<Rightarrow> 's \<Rightarrow> i32 \<times> 's" where
  "pad_pos putch c width s =
     (if 0 <s width then pad_pos putch c (width - 1) (putch c s) else (width, s))"
  by pat_completeness auto
termination
  by (relation "measure (\<lambda>(putch, c, width, s). unat width)") (auto intro: measure_unat)

declare pad_pos.simps [simp del]

text \<open>\<open>"0123456789abcdef"[k]\<close>, the NUL of the literal included.\<close>

definition digit_char :: "u64 \<Rightarrow> i32 option" where
  "digit_char k =
     (if k \<le> 16 then Some (scast ((ascii ''0123456789abcdef'' @ [0]) ! unat k)) else None)"

partial_function (option) printnum ::
    "(i32 \<Rightarrow> 's \<Rightarrow> 's) \<Rightarrow> u64 \<Rightarrow> u32 \<Rightarrow> i32 \<Rightarrow> i32 \<Rightarrow> 's \<Rightarrow> 's option" where
  "printnum putch num base width padc s =
     (if base = 0 then None
      else do {
        s1 \<leftarrow> (if ucast base \<le> num
               then printnum putch (num div ucast base) base (width - 1) padc s
               else Some (snd (pad_pos putch padc (width - 1) s)));
        d \<leftarrow> digit_char (num mod ucast base);
        Some (putch d s1) })"

definition getuint :: "vararg list \<Rightarrow> i32 \<Rightarrow> (u64 \<times> vararg list) option" where
  "getuint ap lflag =
     (if 2 \<le>s lflag then va_quad ap
      else map_option (\<lambda>(w, ap'). (ucast w, ap')) (va_word ap))"

definition getint :: "vararg list \<Rightarrow> i32 \<Rightarrow> (u64 \<times> vararg list) option" where
  "getint ap lflag =
     (if 2 \<le>s lflag then va_quad ap
      else map_option (\<lambda>(w, ap'). (scast w, ap')) (va_word ap))"

section \<open>The \%-escape sequences\<close>

record fmt_spec =
  fs_padc :: u8
  fs_width :: i32
  fs_precision :: i32
  fs_lflag :: i32
  fs_altflag :: bool

definition spec0 :: fmt_spec where
  "spec0 = \<lparr>fs_padc = asc (CHR '' ''), fs_width = - 1, fs_precision = - 1, fs_lflag = 0,
     fs_altflag = False\<rparr>"

text \<open>The character at index \<open>i\<close> of the format, which ends in NUL.\<close>

definition fch :: "u8 list \<Rightarrow> nat \<Rightarrow> u8" where
  "fch fmt i = (if i < length fmt then fmt ! i else 0)"

text \<open>The loop of the width field; \<open>ch\<close> is the digit already read.\<close>

function scan_digits :: "u8 list \<Rightarrow> nat \<Rightarrow> i32 \<Rightarrow> i32 \<Rightarrow> i32 \<times> nat" where
  "scan_digits fmt i precision ch =
     (let precision' = precision * 10 + ch - asc (CHR ''0''); c = fch fmt i
      in if asc (CHR ''0'') \<le>s c \<and> c \<le>s asc (CHR ''9'')
         then scan_digits fmt (Suc i) precision' (scast c) else (precision', i))"
  by pat_completeness auto
termination
  by (relation "measure (\<lambda>(fmt, i, precision, ch). length fmt - i)")
    (auto simp: fch_def word_sle_eq split: if_splits)

declare scan_digits.simps [simp del]

lemma scan_digits_mono: "i \<le> snd (scan_digits fmt i precision ch)"
proof (induction fmt i precision ch rule: scan_digits.induct)
  case (1 fmt i precision ch)
  show ?case by (subst scan_digits.simps) (use 1 in \<open>auto simp: Let_def dest: Suc_leD\<close>)
qed

definition process_precision :: "fmt_spec \<Rightarrow> fmt_spec" where
  "process_precision sp =
     (if fs_width sp <s 0 then sp\<lparr>fs_width := fs_precision sp, fs_precision := - 1\<rparr> else sp)"

text \<open>
  The \<open>reswitch\<close> loop over flags, width and precision, up to the conversion character: that
  character, the index after it, the remaining arguments and the settings.
\<close>

function scan_flags ::
    "u8 list \<Rightarrow> nat \<Rightarrow> vararg list \<Rightarrow> fmt_spec \<Rightarrow> (u8 \<times> nat \<times> vararg list \<times> fmt_spec) option" where
  "scan_flags fmt i ap sp =
     (let ch = fch fmt i in
      if ch = asc (CHR ''-'') then scan_flags fmt (Suc i) ap (sp\<lparr>fs_padc := asc (CHR ''-'')\<rparr>)
      else if ch = asc (CHR ''0'') then scan_flags fmt (Suc i) ap (sp\<lparr>fs_padc := asc (CHR ''0'')\<rparr>)
      else if asc (CHR ''1'') \<le> ch \<and> ch \<le> asc (CHR ''9'') then
        let (p, j) = scan_digits fmt (Suc i) 0 (ucast ch)
        in scan_flags fmt j ap (process_precision (sp\<lparr>fs_precision := p\<rparr>))
      else if ch = asc (CHR ''*'') then
        case va_word ap of
          None \<Rightarrow> None
        | Some (p, ap') \<Rightarrow>
            scan_flags fmt (Suc i) ap' (process_precision (sp\<lparr>fs_precision := p\<rparr>))
      else if ch = asc (CHR ''.'') then
        scan_flags fmt (Suc i) ap (if fs_width sp <s 0 then sp\<lparr>fs_width := 0\<rparr> else sp)
      else if ch = asc (CHR ''#'') then scan_flags fmt (Suc i) ap (sp\<lparr>fs_altflag := True\<rparr>)
      else if ch = asc (CHR ''l'') then
        scan_flags fmt (Suc i) ap (sp\<lparr>fs_lflag := fs_lflag sp + 1\<rparr>)
      else Some (ch, Suc i, ap, sp))"
  by pat_completeness auto

lemma fch_pos: "fch fmt i \<noteq> 0 \<Longrightarrow> i < length fmt"
  by (simp add: fch_def split: if_splits)

lemma fch_Suc_less: "ch = fch fmt i \<Longrightarrow> ch \<noteq> 0 \<Longrightarrow> length fmt - Suc i < length fmt - i"
  using fch_pos [of fmt i] by simp

termination scan_flags
proof (relation "measure (\<lambda>(fmt, i, ap, sp). length fmt - i)", goal_cases)
  case 1
  show ?case by simp
next
  case (4 fmt i ap sp ch x p j)
  then have "fch fmt i \<noteq> 0" by auto
  moreover have "Suc i \<le> j"
    using 4 scan_digits_mono [of "Suc i" fmt 0 "ucast ch"] by (metis snd_conv)
  ultimately show ?case using fch_pos [of fmt i] by simp
qed (simp only: in_measure prod.case, rule fch_Suc_less, assumption, simp)+

declare scan_flags.simps [simp del]

text \<open>\<open>for (fmt--; fmt[-1] != '%'; fmt--)\<close> from the index \<open>Suc i\<close> on.\<close>

primrec back_up :: "u8 list \<Rightarrow> nat \<Rightarrow> nat" where
  "back_up fmt 0 = 0"
| "back_up fmt (Suc k) = (if fch fmt k = asc (CHR ''%'') then Suc k else back_up fmt k)"

section \<open>Conversions\<close>

text \<open>The loop of \<open>%s\<close>; \<open>rd s\<close> is the memory the string is in.\<close>

partial_function (option) put_chars ::
    "(i32 \<Rightarrow> 's \<Rightarrow> 's) \<Rightarrow> ('s \<Rightarrow> memory) \<Rightarrow> u32 \<Rightarrow> bool \<Rightarrow> i32 \<Rightarrow> i32 \<Rightarrow> 's \<Rightarrow> (i32 \<times> 's) option" where
  "put_chars putch rd p altflag precision width s =
     (let c = rd s p; ch = scast c :: i32 in
      if c \<noteq> 0 \<and> (precision <s 0 \<or> 0 \<le>s precision - 1)
      then put_chars putch rd (p + 1) altflag
             (if precision <s 0 then precision else precision - 1) (width - 1)
             (putch (if altflag \<and> (ch <s asc (CHR '' '') \<or> asc (CHR ''~'') <s ch)
                     then asc (CHR ''?'') else ch) s)
      else Some (width, s))"

definition put_string ::
    "(i32 \<Rightarrow> 's \<Rightarrow> 's) \<Rightarrow> ('s \<Rightarrow> memory) \<Rightarrow> u32 \<Rightarrow> fmt_spec \<Rightarrow> 's \<Rightarrow> 's option" where
  "put_string putch rd p sp s =
     (let (width1, s1) =
        (if 0 <s fs_width sp \<and> fs_padc sp \<noteq> asc (CHR ''-'')
         then pad_pos putch (scast (fs_padc sp))
                (fs_width sp - strnlen (rd s) p (fs_precision sp)) s
         else (fs_width sp, s))
      in do { (width2, s2) \<leftarrow> put_chars putch rd p (fs_altflag sp) (fs_precision sp) width1 s1;
              Some (snd (pad_pos putch (asc (CHR '' '')) width2 s2)) })"

definition put_number ::
    "(i32 \<Rightarrow> 's \<Rightarrow> 's) \<Rightarrow> u64 \<Rightarrow> u32 \<Rightarrow> fmt_spec \<Rightarrow> 's \<Rightarrow> 's option" where
  "put_number putch num base sp s =
     printnum putch num base (fs_width sp) (scast (fs_padc sp)) s"

text \<open>All conversions but \<open>%e\<close>.\<close>

definition convert ::
    "(i32 \<Rightarrow> 's \<Rightarrow> 's) \<Rightarrow> ('s \<Rightarrow> memory) \<Rightarrow> u8 \<Rightarrow> vararg list \<Rightarrow> fmt_spec \<Rightarrow> 's
      \<Rightarrow> (vararg list \<times> 's) option" where
  "convert putch rd ch ap sp s =
     (if ch = asc (CHR ''c'') then do { (w, ap1) \<leftarrow> va_word ap; Some (ap1, putch w s) }
      else if ch = asc (CHR ''s'') then do {
        (a, ap1) \<leftarrow> va_ptr ap;
        s1 \<leftarrow> (case a of
                 Slot p \<Rightarrow>
                   if p = 0 then put_string putch (\<lambda>_. lit (ascii ''(null)'')) lit_ptr sp s
                   else put_string putch rd p sp s
               | Lit xs \<Rightarrow> put_string putch (\<lambda>_. lit xs) lit_ptr sp s);
        Some (ap1, s1) }
      else if ch = asc (CHR ''d'') then do {
        (num, ap1) \<leftarrow> getint ap (fs_lflag sp);
        s1 \<leftarrow> (if num <s 0 then put_number putch (- num) 10 sp (putch (asc (CHR ''-'')) s)
               else put_number putch num 10 sp s);
        Some (ap1, s1) }
      else if ch = asc (CHR ''p'') then do {
        (w, ap1) \<leftarrow> va_word ap;
        s1 \<leftarrow> put_number putch (ucast w) 16 sp (putch (asc (CHR ''x'')) (putch (asc (CHR ''0'')) s));
        Some (ap1, s1) }
      else if ch = asc (CHR ''%'') then Some (ap, putch (ucast ch) s)
      else do {
        (num, ap1) \<leftarrow> getuint ap (fs_lflag sp);
        s1 \<leftarrow> put_number putch num
               (if ch = asc (CHR ''u'') then 10 else if ch = asc (CHR ''o'') then 8 else 16) sp s;
        Some (ap1, s1) })"

definition is_conv :: "u8 \<Rightarrow> bool" where
  "is_conv ch \<longleftrightarrow> ch \<in> set (ascii ''csduopx%'')"

text \<open>
  The \<open>printfmt\<close> call that \<open>%e\<close> makes.  The negative of the least int is itself, which passes
  the test \<open>err >= MAXERROR\<close> and reads outside the table.
\<close>

definition error_call :: "i32 \<Rightarrow> (u8 list \<times> vararg list) option" where
  "error_call w =
     (let err = (if w <s 0 then - w else w)
      in if MAXERROR \<le>s err then Some (ascii ''error %d'', [Slot err])
         else if err <s 0 then None
         else case error_string ! unat err of
             None \<Rightarrow> Some (ascii ''error %d'', [Slot err])
           | Some p \<Rightarrow> Some (ascii ''%s'', [Lit p]))"

partial_function (option) vprintfmt ::
    "(i32 \<Rightarrow> 's \<Rightarrow> 's) \<Rightarrow> ('s \<Rightarrow> memory) \<Rightarrow> u8 list \<Rightarrow> nat \<Rightarrow> vararg list \<Rightarrow> 's \<Rightarrow> 's option" where
  "vprintfmt putch rd fmt i ap s =
     (let ch = fch fmt i in
      if ch \<noteq> asc (CHR ''%'') then
        if ch = 0 then Some s else vprintfmt putch rd fmt (Suc i) ap (putch (ucast ch) s)
      else do {
        (ch1, j, ap1, sp) \<leftarrow> scan_flags fmt (Suc i) ap spec0;
        if ch1 = asc (CHR ''e'') then do {
          (w, ap2) \<leftarrow> va_word ap1;
          (fmt1, ap3) \<leftarrow> error_call w;
          s1 \<leftarrow> vprintfmt putch rd fmt1 0 ap3 s;
          vprintfmt putch rd fmt j ap2 s1 }
        else if is_conv ch1 then do {
          (ap2, s1) \<leftarrow> convert putch rd ch1 ap1 sp s;
          vprintfmt putch rd fmt j ap2 s1 }
        else vprintfmt putch rd fmt (back_up fmt (j - 1)) ap1 (putch (asc (CHR ''%'')) s) })"

definition printfmt ::
    "(i32 \<Rightarrow> 's \<Rightarrow> 's) \<Rightarrow> ('s \<Rightarrow> memory) \<Rightarrow> u8 list \<Rightarrow> vararg list \<Rightarrow> 's \<Rightarrow> 's option" where
  "printfmt putch rd fmt ap s = vprintfmt putch rd fmt 0 ap s"

section \<open>snprintf\<close>

record sprintbuf =
  sb_mem :: memory
  sb_buf :: u32
  sb_ebuf :: u32
  sb_cnt :: i32

definition sprintputch :: "i32 \<Rightarrow> sprintbuf \<Rightarrow> sprintbuf" where
  "sprintputch ch b =
     (let b1 = b\<lparr>sb_cnt := sb_cnt b + 1\<rparr>
      in if sb_buf b1 < sb_ebuf b1
         then b1\<lparr>sb_mem := (sb_mem b1)(sb_buf b1 := ucast ch), sb_buf := sb_buf b1 + 1\<rparr>
         else b1)"

definition vsnprintf ::
    "u32 \<Rightarrow> i32 \<Rightarrow> u8 list \<Rightarrow> vararg list \<Rightarrow> memory \<Rightarrow> (i32 \<times> memory) option" where
  "vsnprintf buf n fmt ap m =
     (let b = \<lparr>sb_mem = m, sb_buf = buf, sb_ebuf = buf + n - 1, sb_cnt = 0\<rparr>
      in if buf = 0 \<or> n <s 1 then Some (- E_INVAL, m)
         else do {
           b1 \<leftarrow> vprintfmt sprintputch sb_mem fmt 0 ap b;
           Some (sb_cnt b1, (sb_mem b1)(sb_buf b1 := 0)) })"

definition snprintf ::
    "u32 \<Rightarrow> i32 \<Rightarrow> u8 list \<Rightarrow> vararg list \<Rightarrow> memory \<Rightarrow> (i32 \<times> memory) option" where
  "snprintf buf n fmt ap m = vsnprintf buf n fmt ap m"

end
