(* ===== verification/Format_Laws.thy ===== *)
theory Format_Laws
  imports Format
begin

text \<open>
  What the formatting engine of lib/printfmt.c prints: positional notation for numbers, the
  text of every conversion, and a total rendering function that \<open>vprintfmt\<close> sends to its
  \<open>putch\<close> character by character, whatever the sink.
\<close>

section \<open>Numbers\<close>

text \<open>The digits of \<open>n\<close> in base \<open>b\<close>, most significant first.\<close>

fun digits :: "nat \<Rightarrow> nat \<Rightarrow> nat list" where
  "digits b n = (if b < 2 \<or> n < b then [n] else digits b (n div b) @ [n mod b])"

declare digits.simps [simp del]

lemma digits_small: "n < b \<Longrightarrow> digits b n = [n]"
  by (simp add: digits.simps)

lemma digits_step: "2 \<le> b \<Longrightarrow> b \<le> n \<Longrightarrow> digits b n = digits b (n div b) @ [n mod b]"
  by (subst digits.simps) simp

lemma digits_value: "2 \<le> b \<Longrightarrow> foldl (\<lambda>a d. a * b + d) 0 (digits b n) = n"
proof (induction b n rule: digits.induct)
  case (1 b n)
  then show ?case by (cases "n < b") (simp_all add: digits_small digits_step)
qed

lemma digits_bound: "2 \<le> b \<Longrightarrow> \<forall>d \<in> set (digits b n). d < b"
proof (induction b n rule: digits.induct)
  case (1 b n)
  show ?case
  proof (cases "n < b")
    case True
    then show ?thesis by (simp add: digits_small)
  next
    case False
    then have "\<forall>d \<in> set (digits b (n div b)). d < b"
      by (intro "1.IH") (use False "1.prems" in linarith)+
    moreover have "n mod b < b" using "1.prems" by (intro mod_less_divisor) linarith
    ultimately show ?thesis using False "1.prems" by (simp only: digits_step not_less) simp
  qed
qed

lemma digits_not_Nil [simp]: "digits b n \<noteq> []"
  by (subst digits.simps) simp

lemma digits_hd: "2 \<le> b \<Longrightarrow> 0 < n \<Longrightarrow> 0 < hd (digits b n)"
proof (induction b n rule: digits.induct)
  case (1 b n)
  then show ?case
    by (cases "n < b") (simp_all add: digits_small digits_step div_greater_zero_iff)
qed

lemma digits_length: "2 \<le> b \<Longrightarrow> n < 2 ^ Suc k \<Longrightarrow> length (digits b n) \<le> Suc k"
proof (induction k arbitrary: n)
  case 0
  then show ?case by (simp add: digits_small)
next
  case (Suc k)
  show ?case
  proof (cases "n < b")
    case True
    then show ?thesis by (simp add: digits_small)
  next
    case False
    have "n div b \<le> n div 2" using Suc.prems(1) by (intro div_le_mono2) simp_all
    then have "n div b < 2 ^ Suc k" using Suc.prems(2) by simp
    with Suc.IH Suc.prems(1) False show ?thesis by (simp add: digits_step)
  qed
qed

lemma digits_length_base: "2 \<le> b \<Longrightarrow> n < b ^ Suc k \<Longrightarrow> length (digits b n) \<le> Suc k"
proof (induction k arbitrary: n)
  case 0
  then show ?case by (simp add: digits_small)
next
  case (Suc k)
  show ?case
  proof (cases "n < b")
    case True
    then show ?thesis by (simp add: digits_small)
  next
    case False
    have "n div b < b ^ Suc k" using Suc.prems by (simp add: div_less_iff_less_mult mult.commute)
    with Suc.IH Suc.prems(1) False show ?thesis by (simp add: digits_step)
  qed
qed

definition digit_text :: "nat \<Rightarrow> i32" where
  "digit_text d = scast ((ascii ''0123456789abcdef'') ! d)"

lemma digit_char_text: "unat k < 16 \<Longrightarrow> digit_char k = Some (digit_text (unat k))"
  unfolding digit_char_def digit_text_def nth_append by (simp add: word_le_nat_alt)

subsection \<open>Padding\<close>

lemma sint_pos: "0 <s (w :: i32) \<longleftrightarrow> 0 < sint w"
  by (simp add: word_sless_alt)

lemma pad_pos_fold:
  "pad_pos putch c w s =
    (if 0 <s w then 0 else w, fold putch (replicate (nat (sint w)) c) s)"
proof (induction putch c w s rule: pad_pos.induct)
  case (1 putch c w s)
  show ?case
  proof (cases "0 <s w")
    case True
    then have pos: "0 < sint w" by (simp add: sint_pos)
    then have dec: "sint (w - 1) = sint w - 1" by (intro sint_minus_1) simp
    have rep: "replicate (nat (sint w)) c = c # replicate (nat (sint w - 1)) c"
      using pos by (metis Suc_nat_eq_nat_zadd1 add.commute diff_add_cancel nat_eq_iff2 int_one_le_iff_zero_less
          le_diff_eq replicate_Suc add_0 diff_ge_0_iff_ge)
    have "\<not> 0 <s w - 1 \<Longrightarrow> w - 1 = 0"
    proof -
      assume "\<not> 0 <s w - 1"
      then have "sint (w - 1) = 0" using dec pos by (simp add: sint_pos)
      then show ?thesis by (simp only: signed_eq_0_iff)
    qed
    then show ?thesis
      using True 1 [OF True] by (subst pad_pos.simps) (auto simp: dec rep)
  next
    case False
    then have "nat (sint w) = 0" by (simp add: sint_pos)
    with False show ?thesis by (subst pad_pos.simps) simp
  qed
qed

definition number_text :: "nat \<Rightarrow> nat \<Rightarrow> int \<Rightarrow> i32 \<Rightarrow> i32 list" where
  "number_text b n width padc =
     (let ds = digits b n
      in replicate (nat (width - int (length ds))) padc @ map digit_text ds)"

lemma unat_base64: "unat (ucast (base :: u32) :: u64) = unat base"
  using unat_lt32 [of base] by (simp add: unsigned_ucast_eq take_bit_nat_eq_self)

lemma printnum_text:
  assumes base: "2 \<le> unat base" "unat base \<le> 16"
  shows "- 2147483648 \<le> sint width - int (length (digits (unat base) (unat num))) \<Longrightarrow>
    printnum putch num base width padc s =
      Some (fold putch (number_text (unat base) (unat num) (sint width) padc) s)"
proof (induction "unat num" arbitrary: num width rule: less_induct)
  case less
  let ?b = "unat base" and ?n = "unat num"
  have b0: "base \<noteq> 0" using base by auto
  have le: "ucast base \<le> num \<longleftrightarrow> ?b \<le> ?n" by (simp add: word_le_nat_alt unat_base64)
  have digit: "digit_char (num mod ucast base) = Some (digit_text (?n mod ?b))"
    using base by (subst digit_char_text) (simp_all add: unat_mod unat_base64 order_less_le_trans [OF mod_less_divisor])
  have width1: "sint (width - 1) = sint width - 1"
  proof (rule sint_minus_1)
    have "0 < length (digits ?b ?n)" by simp
    then have "0 < int (length (digits ?b ?n))" by linarith
    with less.prems show "- 2147483648 < sint width" by linarith
  qed
  show ?case
  proof (cases "?b \<le> ?n")
    case True
    have div: "unat (num div ucast base) = ?n div ?b" by (simp add: unat_div unat_base64)
    have step: "digits ?b ?n = digits ?b (?n div ?b) @ [?n mod ?b]"
      using base True by (simp add: digits_step)
    have "?n div ?b < ?n" using base True by simp
    then have "printnum putch (num div ucast base) base (width - 1) padc s =
        Some (fold putch (number_text ?b (?n div ?b) (sint width - 1) padc) s)"
      using less.hyps [of "num div ucast base" "width - 1"] less.prems step
      by (simp add: div width1)
    then show ?thesis
      using b0 le True digit
      by (subst printnum.simps) (simp add: number_text_def step Let_def algebra_simps)
  next
    case False
    then show ?thesis
      using b0 le digit
      by (subst printnum.simps)
        (simp add: number_text_def digits_small Let_def pad_pos_fold width1)
  qed
qed

section \<open>Strings\<close>

text \<open>How many characters of a string \<open>%s\<close> shows.\<close>

definition shown :: "i32 \<Rightarrow> u8 list \<Rightarrow> nat" where
  "shown precision xs =
     (if precision <s 0 then length xs else min (nat (sint precision)) (length xs))"

definition char_text :: "bool \<Rightarrow> u8 \<Rightarrow> i32" where
  "char_text altflag x =
     (let ch = scast x :: i32
      in if altflag \<and> (ch <s asc (CHR '' '') \<or> asc (CHR ''~'') <s ch) then asc (CHR ''?'') else ch)"

definition string_text :: "fmt_spec \<Rightarrow> u8 list \<Rightarrow> i32 list" where
  "string_text sp xs =
     (let n = shown (fs_precision sp) xs;
          left = 0 <s fs_width sp \<and> fs_padc sp \<noteq> asc (CHR ''-'');
          gap = nat (sint (fs_width sp) - int n)
      in (if left then replicate gap (scast (fs_padc sp)) else [])
         @ map (char_text (fs_altflag sp)) (take n xs)
         @ (if left then [] else replicate gap (asc (CHR '' ''))))"

lemma precision_left:
  fixes precision :: i32
  assumes "\<not> sint precision < 0"
  shows "0 \<le>s precision - 1 \<longleftrightarrow> precision \<noteq> 0"
proof (cases "precision = 0")
  case True
  then show ?thesis by (simp add: word_sle_eq)
next
  case nz: False
  then have "sint precision \<noteq> 0" by (simp only: signed_eq_0_iff not_False_eq_True)
  with assms have "sint (precision - 1) = sint precision - 1" by (intro sint_minus_1) simp
  with \<open>sint precision \<noteq> 0\<close> assms nz show ?thesis by (simp add: word_sle_eq)
qed

lemma shown_Cons:
  "0 \<le> sint precision \<Longrightarrow> shown precision (x # xs) =
    (if precision = 0 then 0 else Suc (shown (precision - 1) xs))"
proof -
  assume pos: "0 \<le> sint precision"
  show ?thesis
  proof (cases "precision = 0")
    case True
    then show ?thesis by (simp add: shown_def)
  next
    case False
    then have "sint precision \<noteq> 0" by (simp only: signed_eq_0_iff not_False_eq_True)
    with pos have one: "1 \<le> sint precision" by simp
    then have dec: "sint (precision - 1) = sint precision - 1" by (intro sint_minus_1) simp
    have "nat (sint precision) = Suc (nat (sint precision - 1))" using one by simp
    with one dec False show ?thesis by (simp add: shown_def word_sless_alt)
  qed
qed

lemma shown_Nil [simp]: "shown precision [] = 0"
  by (simp add: shown_def)

lemma shown_Cons_neg: "sint precision < 0 \<Longrightarrow> shown precision (x # xs) = Suc (shown precision xs)"
  by (simp add: shown_def word_sless_alt)

lemma strnlen_shown:
  assumes "cstr m p xs" and "length xs < 2147483648"
  shows "strnlen m p precision = of_nat (shown precision xs)"
proof (cases "sint precision < 0")
  case True
  with sint_neg_uint have "length xs \<le> unat precision" using assms(2) by force
  with True assms(1) show ?thesis
    by (simp add: strnlen_cstr shown_def word_sless_alt min_absorb1)
next
  case False
  then have "unat precision = nat (sint precision)"
    using sint_nonneg_uint [of precision] by (metis nat_int not_less)
  with False assms(1) show ?thesis
    by (simp add: strnlen_cstr shown_def word_sless_alt min.commute)
qed

text \<open>
  A sink: a state that takes characters.  \<open>Inv\<close> is what its \<open>putch\<close> maintains; strings that
  are in memory whenever \<open>Inv\<close> holds can be printed from there.
\<close>

locale sink =
  fixes putch :: "i32 \<Rightarrow> 's \<Rightarrow> 's" and rd :: "'s \<Rightarrow> memory" and Inv :: "'s \<Rightarrow> bool"
  assumes keeps: "Inv s \<Longrightarrow> Inv (putch c s)"
begin

lemma Inv_fold: "Inv s \<Longrightarrow> Inv (fold putch cs s)"
  by (induction cs arbitrary: s) (simp_all add: keeps)

lemma put_chars_text:
  "\<forall>s. Inv s \<longrightarrow> cstr (rd' s) p xs \<Longrightarrow> Inv s \<Longrightarrow>
    put_chars putch rd' p altflag precision width s =
      Some (width - of_nat (shown precision xs),
        fold putch (map (char_text altflag) (take (shown precision xs) xs)) s)"
proof (induction xs arbitrary: p precision width s)
  case Nil
  then have "rd' s p = 0" by simp
  then show ?case by (subst put_chars.simps) (simp add: Let_def)
next
  case (Cons x xs)
  let ?s = "putch (char_text altflag x) s"
  have x: "rd' s p = x" "x \<noteq> 0" and tl: "\<forall>s. Inv s \<longrightarrow> cstr (rd' s) (p + 1) xs" and s1: "Inv ?s"
    using Cons.prems keeps by auto
  note IH = Cons.IH [OF tl s1]
  have ct: "(if altflag \<and> ((scast x :: i32) <s asc (CHR '' '') \<or> asc (CHR ''~'') <s (scast x :: i32))
      then asc (CHR ''?'') else scast x) = char_text altflag x"
    by (simp add: char_text_def Let_def)
  show ?case
  proof (cases "sint precision < 0")
    case True
    then have neg: "precision <s 0" by (simp add: word_sless_alt)
    show ?thesis
      by (subst put_chars.simps)
        (simp only: Let_def x ct neg IH [of precision "width - 1"] shown_Cons_neg [OF True], simp add: IH)
  next
    case False
    then have nneg: "\<not> precision <s 0" by (simp add: word_sless_alt)
    from False have sh: "shown precision (x # xs) =
        (if precision = 0 then 0 else Suc (shown (precision - 1) xs))"
      by (intro shown_Cons) simp
    show ?thesis
      by (subst put_chars.simps)
        (simp only: Let_def x ct nneg precision_left [OF False] IH [of "precision - 1" "width - 1"] sh, simp add: IH)
  qed
qed

lemma put_string_text:
  assumes str: "\<forall>s. Inv s \<longrightarrow> cstr (rd' s) p xs" and s: "Inv s"
    and len: "length xs < 1073741824" and width: "- 1073741824 \<le> sint (fs_width sp)"
  shows "put_string putch rd' p sp s = Some (fold putch (string_text sp xs) s)"
proof -
  let ?n = "shown (fs_precision sp) xs"
  let ?w = "fs_width sp"
  have n: "?n \<le> length xs" by (simp add: shown_def)
  have "cstr (rd' s) p xs" using str s by simp
  then have nl: "strnlen (rd' s) p (fs_precision sp) = of_nat ?n"
    using len by (simp add: strnlen_shown)
  have w1: "sint (?w - of_nat ?n) = sint ?w - int ?n"
    using n len width by (intro sint_minus_of_nat) simp_all
  show ?thesis
  proof (cases "0 <s ?w \<and> fs_padc sp \<noteq> asc (CHR ''-'')")
    case True
    let ?w1 = "if 0 <s ?w - of_nat ?n then 0 else ?w - of_nat ?n"
    let ?s1 = "fold putch (replicate (nat (sint ?w - int ?n)) (scast (fs_padc sp))) s"
    have pos: "0 < sint ?w" using True by (simp add: word_sless_alt)
    have "sint (?w1 - of_nat ?n) \<le> 0"
    proof -
      have "sint ?w1 \<le> 0" "- int ?n \<le> sint ?w1" using pos w1 by (auto simp: sint_pos)
      then show ?thesis using n len by (subst sint_minus_of_nat) simp_all
    qed
    then have nopad: "nat (sint (?w1 - of_nat ?n)) = 0" by simp
    have s1: "Inv ?s1" using s by (rule Inv_fold)
    have "pad_pos putch (scast (fs_padc sp)) (?w - of_nat ?n) s = (?w1, ?s1)"
      by (simp only: pad_pos_fold w1)
    then show ?thesis
      using True put_chars_text [OF str s1, of "fs_altflag sp" "fs_precision sp" ?w1]
      by (simp only: put_string_def nl if_P Let_def prod.case bind.bind_lunit pad_pos_fold nopad
          string_text_def snd_conv simp_thms) simp
  next
    case False
    then show ?thesis
      using put_chars_text [OF str s, of "fs_altflag sp" "fs_precision sp" ?w] w1
      by (simp only: put_string_def if_not_P if_False Let_def prod.case bind.bind_lunit pad_pos_fold
          string_text_def snd_conv simp_thms) (auto simp: word_sless_alt)
  qed
qed

end

section \<open>The rendering of a format\<close>

text \<open>
  The text of one conversion, for arguments that are numbers or string literals.  A width
  below \<open>- 2 ^ 30\<close>, which only \<open>*\<close> can give and on which the C ints may overflow, has none.
\<close>

definition signed_text :: "u64 \<Rightarrow> fmt_spec \<Rightarrow> i32 list" where
  "signed_text num sp =
     (if num <s 0
      then asc (CHR ''-'') # number_text 10 (unat (- num)) (sint (fs_width sp)) (scast (fs_padc sp))
      else number_text 10 (unat num) (sint (fs_width sp)) (scast (fs_padc sp)))"

definition conv_text :: "u8 \<Rightarrow> vararg list \<Rightarrow> fmt_spec \<Rightarrow> (i32 list \<times> vararg list) option" where
  "conv_text ch ap sp =
     (let num_text = (\<lambda>base num. number_text base num (sint (fs_width sp)) (scast (fs_padc sp))) in
      if sint (fs_width sp) < - 1073741824 then None
      else if ch = asc (CHR ''c'') then map_option (\<lambda>(w, ap1). ([w], ap1)) (va_word ap)
      else if ch = asc (CHR ''s'') then
        case va_ptr ap of
          None \<Rightarrow> None
        | Some (Slot p, ap1) \<Rightarrow> if p = 0 then Some (string_text sp (ascii ''(null)''), ap1) else None
        | Some (Lit xs, ap1) \<Rightarrow>
            if 0 \<in> set xs \<or> 1073741824 \<le> length xs then None else Some (string_text sp xs, ap1)
      else if ch = asc (CHR ''d'') then
        map_option (\<lambda>(num, ap1). (signed_text num sp, ap1)) (getint ap (fs_lflag sp))
      else if ch = asc (CHR ''p'') then
        map_option (\<lambda>(w, ap1). ([asc (CHR ''0''), asc (CHR ''x'')] @ num_text 16 (unat w), ap1))
          (va_word ap)
      else if ch = asc (CHR ''%'') then Some ([asc (CHR ''%'')], ap)
      else map_option (\<lambda>(num, ap1). (num_text
             (if ch = asc (CHR ''u'') then 10 else if ch = asc (CHR ''o'') then 8 else 16) (unat num), ap1))
          (getuint ap (fs_lflag sp)))"

definition error_text :: "i32 \<Rightarrow> i32 list option" where
  "error_text w =
     (let n = nat \<bar>sint w\<bar>
      in if n = 2147483648 then None
         else if n = 0 \<or> 7 \<le> n
         then Some (map scast (ascii ''error '') @ number_text 10 n (- 1) (asc (CHR '' '')))
         else map_option (map scast) (error_string ! n))"

lemma scan_digits_no_percent:
  "i \<le> k \<Longrightarrow> k < snd (scan_digits fmt i precision ch) \<Longrightarrow> fch fmt k \<noteq> asc (CHR ''%'')"
proof (induction fmt i precision ch rule: scan_digits.induct)
  case (1 fmt i precision ch)
  let ?digit = "asc (CHR ''0'') \<le>s fch fmt i \<and> fch fmt i \<le>s asc (CHR ''9'')"
  show ?case
  proof (cases ?digit)
    case True
    have step: "scan_digits fmt i precision ch = scan_digits fmt (Suc i)
        (precision * 10 + ch - asc (CHR ''0'')) (scast (fch fmt i))"
      by (subst scan_digits.simps) (simp only: Let_def if_P [OF True])
    have here: "fch fmt i \<noteq> asc (CHR ''%'')" using True by (auto simp: word_sle_eq)
    show ?thesis
    proof (cases "k = i")
      case True
      with here show ?thesis by simp
    next
      case False
      with "1.prems" have k: "Suc i \<le> k" by simp
      show ?thesis by (rule "1.IH" [OF refl refl True k]) (use "1.prems" in \<open>simp only: step\<close>)
    qed
  next
    case False
    then have "snd (scan_digits fmt i precision ch) = i"
      by (subst scan_digits.simps) (simp only: Let_def if_not_P if_False snd_conv)
    with "1.prems" show ?thesis by simp
  qed
qed

text \<open>
  One round of the \<open>reswitch\<close> loop: \<open>None\<close> at the conversion character, \<open>Some None\<close> when the
  argument of \<open>*\<close> is missing.
\<close>

definition flag_step ::
    "u8 list \<Rightarrow> nat \<Rightarrow> vararg list \<Rightarrow> fmt_spec \<Rightarrow> (nat \<times> vararg list \<times> fmt_spec) option option" where
  "flag_step fmt i ap sp =
     (let ch = fch fmt i in
      if ch = asc (CHR ''-'') then Some (Some (Suc i, ap, sp\<lparr>fs_padc := asc (CHR ''-'')\<rparr>))
      else if ch = asc (CHR ''0'') then Some (Some (Suc i, ap, sp\<lparr>fs_padc := asc (CHR ''0'')\<rparr>))
      else if asc (CHR ''1'') \<le> ch \<and> ch \<le> asc (CHR ''9'') then
        let (p, j) = scan_digits fmt (Suc i) 0 (ucast ch)
        in Some (Some (j, ap, process_precision (sp\<lparr>fs_precision := p\<rparr>)))
      else if ch = asc (CHR ''*'') then
        Some (map_option (\<lambda>(p, ap'). (Suc i, ap', process_precision (sp\<lparr>fs_precision := p\<rparr>))) (va_word ap))
      else if ch = asc (CHR ''.'') then
        Some (Some (Suc i, ap, if fs_width sp <s 0 then sp\<lparr>fs_width := 0\<rparr> else sp))
      else if ch = asc (CHR ''#'') then Some (Some (Suc i, ap, sp\<lparr>fs_altflag := True\<rparr>))
      else if ch = asc (CHR ''l'') then Some (Some (Suc i, ap, sp\<lparr>fs_lflag := fs_lflag sp + 1\<rparr>))
      else None)"

lemma scan_flags_step:
  "scan_flags fmt i ap sp = (case flag_step fmt i ap sp of
     None \<Rightarrow> Some (fch fmt i, Suc i, ap, sp)
   | Some None \<Rightarrow> None
   | Some (Some (j, ap', sp')) \<Rightarrow> scan_flags fmt j ap' sp')"
  by (subst scan_flags.simps) (simp add: flag_step_def Let_def split: option.split prod.split)

lemma flag_step_progress:
  assumes "flag_step fmt i ap sp = Some (Some (j, ap', sp'))"
  shows "i < j \<and> i < length fmt \<and> (\<forall>k. i \<le> k \<longrightarrow> k < j \<longrightarrow> fch fmt k \<noteq> asc (CHR ''%''))"
proof -
  let ?ch = "fch fmt i"
  have not0: "?ch \<noteq> 0" and here: "?ch \<noteq> asc (CHR ''%'')"
    using assms by (auto simp: flag_step_def Let_def)
  have j: "j = Suc i \<or> j = snd (scan_digits fmt (Suc i) 0 (ucast ?ch))"
    using assms by (auto simp: flag_step_def Let_def split: if_splits prod.splits)
  then have "i < j" using scan_digits_mono [of "Suc i" fmt 0 "ucast ?ch"] by auto
  moreover have "fch fmt k \<noteq> asc (CHR ''%'')" if "i \<le> k" "k < j" for k
  proof (cases "k = i")
    case True
    with here show ?thesis by simp
  next
    case False
    then have k: "Suc i \<le> k" using that by simp
    with that j have "k < snd (scan_digits fmt (Suc i) 0 (ucast ?ch))" by auto
    then show ?thesis by (rule scan_digits_no_percent [OF k])
  qed
  ultimately show ?thesis using fch_pos [OF not0] by simp
qed

lemma flag_step_stop: "flag_step fmt i ap sp = None \<Longrightarrow> flag_step fmt i ap' sp' = None"
  by (simp add: flag_step_def Let_def split: if_splits prod.splits)

lemma scan_flags_shape:
  "scan_flags fmt i ap sp = Some (c, j, ap1, sp1) \<Longrightarrow>
    i < j \<and> fch fmt (j - 1) = c \<and> (\<forall>k. i \<le> k \<longrightarrow> k < j - 1 \<longrightarrow> fch fmt k \<noteq> asc (CHR ''%''))"
proof (induction "length fmt - i" arbitrary: i ap sp rule: less_induct)
  case less
  consider "flag_step fmt i ap sp = None" |
    j' ap' sp' where "flag_step fmt i ap sp = Some (Some (j', ap', sp'))"
    using less.prems scan_flags_step [of fmt i ap sp] by (auto split: option.splits)
  then show ?case
  proof cases
    case 1
    with less.prems scan_flags_step [of fmt i ap sp] show ?thesis by auto
  next
    case 2
    note prog = flag_step_progress [OF 2]
    have "scan_flags fmt j' ap' sp' = Some (c, j, ap1, sp1)"
      using less.prems 2 scan_flags_step [of fmt i ap sp] by simp
    from less.hyps [OF _ this] prog
    have IH: "j' < j" "fch fmt (j - 1) = c"
        "\<And>k. j' \<le> k \<Longrightarrow> k < j - 1 \<Longrightarrow> fch fmt k \<noteq> asc (CHR ''%'')" by auto
    have "fch fmt k \<noteq> asc (CHR ''%'')" if "i \<le> k" "k < j - 1" for k
      using prog IH(3) that by (cases "k < j'") auto
    with IH prog show ?thesis by auto
  qed
qed

lemma back_up_eq:
  "m \<le> n \<Longrightarrow> (\<And>k. m < k \<Longrightarrow> k < n \<Longrightarrow> fch fmt k \<noteq> asc (CHR ''%'')) \<Longrightarrow>
    fch fmt m = asc (CHR ''%'') \<Longrightarrow> m < n \<Longrightarrow> back_up fmt n = Suc m"
proof (induction n)
  case 0
  then show ?case by simp
next
  case (Suc n)
  show ?case
  proof (cases "m = n")
    case True
    with Suc.prems show ?thesis by simp
  next
    case False
    then have "m < n" using Suc.prems by simp
    moreover have "fch fmt n \<noteq> asc (CHR ''%'')" using Suc.prems(2) \<open>m < n\<close> by blast
    ultimately show ?thesis using Suc.IH Suc.prems by simp
  qed
qed

lemma scan_flags_back_up:
  assumes "scan_flags fmt (Suc i) ap sp = Some (c, j, ap1, sp1)" and "fch fmt i = asc (CHR ''%'')"
  shows "back_up fmt (j - 1) = Suc i"
proof (rule back_up_eq)
  note shape = scan_flags_shape [OF assms(1)]
  show "i \<le> j - 1" "i < j - 1" using shape by auto
  show "fch fmt i = asc (CHR ''%'')" by (rule assms(2))
  show "fch fmt k \<noteq> asc (CHR ''%'')" if "i < k" "k < j - 1" for k
    using shape that by (auto simp: Suc_le_eq)
qed

text \<open>The text a format produces: the abstract specification of \<open>vprintfmt\<close>.\<close>

function render :: "u8 list \<Rightarrow> nat \<Rightarrow> vararg list \<Rightarrow> i32 list option" where
  "render fmt i ap =
     (let ch = fch fmt i in
      if ch \<noteq> asc (CHR ''%'') then
        if ch = 0 then Some [] else map_option ((#) (ucast ch)) (render fmt (Suc i) ap)
      else case scan_flags fmt (Suc i) ap spec0 of
          None \<Rightarrow> None
        | Some (ch1, j, ap1, sp) \<Rightarrow>
            if ch1 = asc (CHR ''e'') then
              case va_word ap1 of
                None \<Rightarrow> None
              | Some (w, ap2) \<Rightarrow>
                  (case error_text w of
                     None \<Rightarrow> None
                   | Some t \<Rightarrow> map_option ((@) t) (render fmt j ap2))
            else if is_conv ch1 then
              case conv_text ch1 ap1 sp of
                None \<Rightarrow> None
              | Some (t, ap2) \<Rightarrow> map_option ((@) t) (render fmt j ap2)
            else map_option ((#) (asc (CHR ''%''))) (render fmt (Suc i) ap1))"
  by pat_completeness auto
termination
proof (relation "measure (\<lambda>(fmt, i, ap). length fmt - i)", goal_cases)
  case 1
  show ?case by simp
next
  case (2 fmt i ap ch)
  then show ?case by (simp only: in_measure prod.case) (rule fch_Suc_less [of ch], simp_all)
next
  case (3 fmt i ap ch q c x j y ap1 sp x2 w ap2 t)
  then have "Suc i < j" using scan_flags_shape [of fmt "Suc i" ap spec0 c j ap1 sp] by simp
  moreover have "length fmt - Suc i < length fmt - i" using 3 by (intro fch_Suc_less [of ch]) simp_all
  ultimately show ?case by simp
next
  case (4 fmt i ap ch q c x j y ap1 sp x2 t ap2)
  then have "Suc i < j" using scan_flags_shape [of fmt "Suc i" ap spec0 c j ap1 sp] by simp
  moreover have "length fmt - Suc i < length fmt - i" using 4 by (intro fch_Suc_less [of ch]) simp_all
  ultimately show ?case by simp
next
  case (5 fmt i ap ch)
  then show ?case by (simp only: in_measure prod.case) (rule fch_Suc_less [of ch], simp_all)
qed

declare render.simps [simp del]

lemma replicate_num: "replicate (numeral k) x = x # replicate (pred_numeral k) x"
  by (simp add: numeral_eq_Suc)

text \<open>Evaluating \<open>render\<close>, to be used with \<open>split del: if_split\<close>.\<close>

lemmas render_eval = render.simps scan_flags.simps scan_digits.simps fch_def spec0_def conv_text_def
  process_precision_def is_conv_def getint_def getuint_def signed_text_def number_text_def digits.simps
  digit_text_def string_text_def shown_def char_text_def error_text_def error_string_def
  word_sless_alt word_sle_eq replicate_num Let_def

section \<open>vprintfmt prints the rendering\<close>

text \<open>
  \<open>resolves rd Inv a b\<close>: the argument \<open>b\<close> is \<open>a\<close>, or the string that \<open>a\<close> points to in memory
  as long as \<open>Inv\<close> holds.
\<close>

definition resolves :: "('s \<Rightarrow> memory) \<Rightarrow> ('s \<Rightarrow> bool) \<Rightarrow> vararg \<Rightarrow> vararg \<Rightarrow> bool" where
  "resolves rd Inv a b \<longleftrightarrow> a = b
     \<or> (\<exists>p xs. a = Slot p \<and> b = Lit xs \<and> p \<noteq> 0 \<and> (\<forall>s. Inv s \<longrightarrow> cstr (rd s) p xs))"

lemma resolves_Slot: "resolves rd Inv a (Slot w) \<longleftrightarrow> a = Slot w"
  by (auto simp: resolves_def)

lemma resolves_refl: "list_all2 (resolves rd Inv) ap ap"
  by (simp add: list_all2_refl resolves_def)

lemma va_word_resolves:
  "va_word ap' = Some (w, ap1') \<Longrightarrow> list_all2 (resolves rd Inv) ap ap' \<Longrightarrow>
    \<exists>ap1. va_word ap = Some (w, ap1) \<and> list_all2 (resolves rd Inv) ap1 ap1'"
  by (cases ap' rule: va_word.cases) (auto simp: list_all2_Cons2 resolves_Slot)

lemma va_quad_resolves:
  "va_quad ap' = Some (w, ap1') \<Longrightarrow> list_all2 (resolves rd Inv) ap ap' \<Longrightarrow>
    \<exists>ap1. va_quad ap = Some (w, ap1) \<and> list_all2 (resolves rd Inv) ap1 ap1'"
  by (cases ap' rule: va_quad.cases) (auto simp: list_all2_Cons2 resolves_Slot)

lemma getint_resolves:
  "getint ap' l = Some (w, ap1') \<Longrightarrow> list_all2 (resolves rd Inv) ap ap' \<Longrightarrow>
    \<exists>ap1. getint ap l = Some (w, ap1) \<and> list_all2 (resolves rd Inv) ap1 ap1'"
  using va_word_resolves va_quad_resolves by (fastforce simp: getint_def split: if_splits)

lemma getuint_resolves:
  "getuint ap' l = Some (w, ap1') \<Longrightarrow> list_all2 (resolves rd Inv) ap ap' \<Longrightarrow>
    \<exists>ap1. getuint ap l = Some (w, ap1) \<and> list_all2 (resolves rd Inv) ap1 ap1'"
  using va_word_resolves va_quad_resolves by (fastforce simp: getuint_def split: if_splits)

lemma flag_step_resolves:
  assumes "flag_step fmt i ap' sp = Some (Some (j, ap1', sp1))"
    and "list_all2 (resolves rd Inv) ap ap'"
  shows "\<exists>ap1. flag_step fmt i ap sp = Some (Some (j, ap1, sp1)) \<and> list_all2 (resolves rd Inv) ap1 ap1'"
proof (cases "fch fmt i = asc (CHR ''*'')")
  case True
  then obtain p where "va_word ap' = Some (p, ap1')" "j = Suc i"
      "sp1 = process_precision (sp\<lparr>fs_precision := p\<rparr>)"
    using assms(1) by (auto simp: flag_step_def)
  with True va_word_resolves [OF _ assms(2)] show ?thesis by (fastforce simp: flag_step_def)
next
  case False
  with assms(1) have "ap1' = ap'"
    by (auto simp: flag_step_def Let_def split: if_splits prod.splits)
  moreover have "flag_step fmt i ap sp = Some (Some (j, ap, sp1))"
    using False assms(1) by (auto simp: flag_step_def Let_def split: if_splits prod.splits)
  ultimately show ?thesis using assms(2) by blast
qed

lemma scan_flags_resolves:
  "scan_flags fmt i ap' sp = Some (c, j, ap1', sp1) \<Longrightarrow> list_all2 (resolves rd Inv) ap ap' \<Longrightarrow>
    \<exists>ap1. scan_flags fmt i ap sp = Some (c, j, ap1, sp1) \<and> list_all2 (resolves rd Inv) ap1 ap1'"
proof (induction "length fmt - i" arbitrary: i ap ap' sp rule: less_induct)
  case less
  consider "flag_step fmt i ap' sp = None" |
    j' ap2 sp2 where "flag_step fmt i ap' sp = Some (Some (j', ap2, sp2))"
    using less.prems(1) scan_flags_step [of fmt i ap' sp] by (auto split: option.splits)
  then show ?case
  proof cases
    case 1
    with flag_step_stop have "flag_step fmt i ap sp = None" by blast
    with 1 less.prems scan_flags_step [of fmt i ap' sp] scan_flags_step [of fmt i ap sp]
    show ?thesis by auto
  next
    case 2
    from flag_step_resolves [OF 2 less.prems(2)] obtain ap3 where
      3: "flag_step fmt i ap sp = Some (Some (j', ap3, sp2))" and r: "list_all2 (resolves rd Inv) ap3 ap2"
      by blast
    have "scan_flags fmt j' ap2 sp2 = Some (c, j, ap1', sp1)"
      using less.prems(1) 2 scan_flags_step [of fmt i ap' sp] by simp
    from less.hyps [OF _ this r] flag_step_progress [OF 2] 3 scan_flags_step [of fmt i ap sp]
    show ?thesis by auto
  qed
qed

lemma unat64_bound: "unat (num :: u64) < 18446744073709551616"
proof -
  have "unat num < 2 ^ LENGTH(64)" by (rule unsigned_less)
  then show ?thesis by simp
qed

lemma put_number_text:
  assumes base: "2 \<le> unat base" "unat base \<le> 16" and width: "- 1073741824 \<le> sint (fs_width sp)"
  shows "put_number putch num base sp s =
    Some (fold putch (number_text (unat base) (unat num) (sint (fs_width sp)) (scast (fs_padc sp))) s)"
proof -
  have "length (digits (unat base) (unat num)) \<le> Suc 63"
    using unat64_bound [of num] base by (intro digits_length) simp_all
  with width show ?thesis
    unfolding put_number_def by (intro printnum_text base) linarith
qed

context sink
begin

lemma convert_string_text:
  assumes tx: "conv_text (asc (CHR ''s'')) ap' sp = Some (t, ap1')" and ap: "list_all2 (resolves rd Inv) ap ap'"
    and s: "Inv s" and width: "- 1073741824 \<le> sint (fs_width sp)"
  shows "\<exists>ap1. convert putch rd (asc (CHR ''s'')) ap sp s = Some (ap1, fold putch t s)
    \<and> list_all2 (resolves rd Inv) ap1 ap1'"
proof -
  from tx width obtain b where b: "va_ptr ap' = Some (b, ap1')"
      "(b = Slot 0 \<and> t = string_text sp (ascii ''(null)''))
       \<or> (\<exists>xs. b = Lit xs \<and> 0 \<notin> set xs \<and> length xs < 1073741824 \<and> t = string_text sp xs)"
    by (auto simp: conv_text_def Let_def split: option.splits vararg.splits if_splits)
  then obtain a ap1 where a: "va_ptr ap = Some (a, ap1)" "resolves rd Inv a b"
      and r: "list_all2 (resolves rd Inv) ap1 ap1'"
    using ap by (cases ap'; cases ap) auto
  have lits: "put_string putch (\<lambda>_. lit xs) lit_ptr sp s = Some (fold putch (string_text sp xs) s)"
    if "0 \<notin> set xs" "length xs < 1073741824" for xs
    using that by (intro put_string_text s width) (auto intro!: cstr_lit [unfolded lit_ptr_def])
  have "0 \<notin> set (ascii ''(null)'')" by simp
  note null = lits [OF this, unfolded lit_ptr_def]
  from a(2) b(2) r a(1) show ?thesis
    using null lits put_string_text [OF _ s _ width, of rd]
    by (auto simp: convert_def resolves_def)
qed

lemma convert_text:
  assumes tx: "conv_text c ap' sp = Some (t, ap1')" and ap: "list_all2 (resolves rd Inv) ap ap'"
    and s: "Inv s"
  shows "\<exists>ap1. convert putch rd c ap sp s = Some (ap1, fold putch t s)
    \<and> list_all2 (resolves rd Inv) ap1 ap1'"
proof -
  have width: "- 1073741824 \<le> sint (fs_width sp)"
    using tx by (simp add: conv_text_def Let_def split: if_splits)
  note num = put_number_text [OF _ _ width]
  show ?thesis
  proof (cases "c = asc (CHR ''s'')")
    case True
    with tx ap s width show ?thesis using convert_string_text by blast
  next
    case False
    note nots = False
    have nw: "\<not> sint (fs_width sp) < - 1073741824" using width by simp
    consider "c = asc (CHR ''c'')" | "c = asc (CHR ''d'')" | "c = asc (CHR ''p'')" | "c = asc (CHR ''%'')"
      | (u) "c \<noteq> asc (CHR ''c'')" "c \<noteq> asc (CHR ''d'')" "c \<noteq> asc (CHR ''p'')" "c \<noteq> asc (CHR ''%'')"
      by blast
    then show ?thesis
    proof cases
      case 1
      with tx nw obtain w where w: "va_word ap' = Some (w, ap1')" "t = [w]"
        by (auto simp: conv_text_def)
      from va_word_resolves [OF w(1) ap] w(2) 1 show ?thesis by (auto simp: convert_def)
    next
      case 2
      with tx nw obtain n where n: "getint ap' (fs_lflag sp) = Some (n, ap1')" "t = signed_text n sp"
        by (auto simp: conv_text_def)
      from getint_resolves [OF n(1) ap] obtain ap1 where
        "getint ap (fs_lflag sp) = Some (n, ap1)" "list_all2 (resolves rd Inv) ap1 ap1'" by blast
      with 2 n(2) show ?thesis by (simp add: convert_def num signed_text_def)
    next
      case 3
      with tx nw obtain w where w: "va_word ap' = Some (w, ap1')"
          "t = [asc (CHR ''0''), asc (CHR ''x'')]
             @ number_text 16 (unat w) (sint (fs_width sp)) (scast (fs_padc sp))"
        by (auto simp: conv_text_def)
      from va_word_resolves [OF w(1) ap] w(2) 3 show ?thesis
        by (auto simp: convert_def num unat_base64)
    next
      case 4
      with tx nw ap show ?thesis by (auto simp: convert_def conv_text_def)
    next
      case u
      let ?base = "if c = asc (CHR ''u'') then 10 else if c = asc (CHR ''o'') then 8 else (16 :: u32)"
      from u nots tx nw obtain n where n: "getuint ap' (fs_lflag sp) = Some (n, ap1')"
          "t = number_text (unat ?base) (unat n) (sint (fs_width sp)) (scast (fs_padc sp))"
        by (auto simp: conv_text_def)
      from getuint_resolves [OF n(1) ap] obtain ap1 where
        "getuint ap (fs_lflag sp) = Some (n, ap1)" "list_all2 (resolves rd Inv) ap1 ap1'" by blast
      with u nots n(2) show ?thesis by (simp add: convert_def num)
    qed
  qed
qed

end

lemma vprintfmt_stop: "fch fmt i = 0 \<Longrightarrow> vprintfmt putch rd fmt i ap s = Some s"
  by (subst vprintfmt.simps) simp

lemma vprintfmt_plain:
  "fch fmt i \<noteq> asc (CHR ''%'') \<Longrightarrow> fch fmt i \<noteq> 0 \<Longrightarrow>
    vprintfmt putch rd fmt i ap s = vprintfmt putch rd fmt (Suc i) ap (putch (ucast (fch fmt i)) s)"
  by (subst vprintfmt.simps) simp

lemma not_conv_e: "is_conv c \<Longrightarrow> c \<noteq> asc (CHR ''e'')"
  by (auto simp: is_conv_def)

lemma vprintfmt_conv:
  assumes "fch fmt i = asc (CHR ''%'')" and "scan_flags fmt (Suc i) ap spec0 = Some (c, j, ap1, sp)"
    and "is_conv c" and "convert putch rd c ap1 sp s = Some (ap2, s1)"
  shows "vprintfmt putch rd fmt i ap s = vprintfmt putch rd fmt j ap2 s1"
  using assms not_conv_e [OF assms(3)] by (subst vprintfmt.simps) simp

lemma vprintfmt_error:
  assumes "fch fmt i = asc (CHR ''%'')"
    and "scan_flags fmt (Suc i) ap spec0 = Some (asc (CHR ''e''), j, ap1, sp)"
    and "va_word ap1 = Some (w, ap2)" and "error_call w = Some (fmt1, ap3)"
    and "vprintfmt putch rd fmt1 0 ap3 s = Some s1"
  shows "vprintfmt putch rd fmt i ap s = vprintfmt putch rd fmt j ap2 s1"
  using assms by (subst vprintfmt.simps) simp

lemma vprintfmt_other:
  assumes "fch fmt i = asc (CHR ''%'')" and "scan_flags fmt (Suc i) ap spec0 = Some (c, j, ap1, sp)"
    and "c \<noteq> asc (CHR ''e'')" and "\<not> is_conv c"
  shows "vprintfmt putch rd fmt i ap s =
    vprintfmt putch rd fmt (Suc i) ap1 (putch (asc (CHR ''%'')) s)"
  using assms scan_flags_back_up [OF assms(2,1)] by (subst vprintfmt.simps) simp

lemma string_text_plain: "string_text spec0 xs = map scast xs"
  by (simp add: string_text_def spec0_def shown_def char_text_def Let_def)

lemma spec0_fields:
  "fs_width spec0 = - 1" "fs_padc spec0 = asc (CHR '' '')" "fs_lflag spec0 = 0"
  by (simp_all add: spec0_def)

lemma error_magnitude:
  assumes "error_text w = Some t"
  defines "err \<equiv> if w <s 0 then - w else w"
  shows "sint err = \<bar>sint w\<bar>" "unat err = nat \<bar>sint w\<bar>" "\<not> err <s 0" "MAXERROR \<le>s err \<longleftrightarrow> 7 \<le> nat \<bar>sint w\<bar>"
proof -
  have "sint w \<noteq> - 2147483648" using assms by (auto simp: error_text_def)
  then have "sint (- w) = - sint w" if "sint w < 0"
    using that sint32_range [of w] by (simp add: sint_word_minus signed31)
  then show err: "sint err = \<bar>sint w\<bar>" by (auto simp: err_def word_sless_alt)
  then have "int (unat err) = \<bar>sint w\<bar>" by (subst sint_nonneg_uint) simp_all
  then show "unat err = nat \<bar>sint w\<bar>" by linarith
  show "\<not> err <s 0" using err by (simp add: word_sless_alt)
  show "MAXERROR \<le>s err \<longleftrightarrow> 7 \<le> nat \<bar>sint w\<bar>" using err by (simp add: word_sle_eq le_nat_iff)
qed

context sink
begin

lemma print_Lit:
  assumes "0 \<notin> set xs" and "length xs < 1073741824" and s: "Inv s"
  shows "vprintfmt putch rd (ascii ''%s'') 0 [Lit xs] s = Some (fold putch (map scast xs) s)"
proof -
  have scan: "scan_flags (ascii ''%s'') (Suc 0) [Lit xs] spec0
      = Some (asc (CHR ''s''), 2, [Lit xs], spec0)"
    by (subst scan_flags.simps) (simp add: fch_def)
  have "conv_text (asc (CHR ''s'')) [Lit xs] spec0 = Some (map scast xs, [])"
    using assms by (simp add: conv_text_def string_text_plain spec0_fields)
  from convert_text [OF this resolves_refl s]
  have conv: "convert putch rd (asc (CHR ''s'')) [Lit xs] spec0 s
      = Some ([], fold putch (map scast xs) s)" by simp
  show ?thesis
    by (subst vprintfmt_conv [OF _ scan _ conv]) (simp_all add: fch_def is_conv_def vprintfmt_stop)
qed

lemma print_error_number:
  assumes s: "Inv s" and w: "0 \<le> sint w"
  shows "vprintfmt putch rd (ascii ''error %d'') 0 [Slot w] s =
    Some (fold putch (map scast (ascii ''error '') @ number_text 10 (nat (sint w)) (- 1) (asc (CHR '' ''))) s)"
proof -
  let ?f = "ascii ''error %d''"
  let ?s = "fold putch (map scast (ascii ''error '')) s"
  have scan: "scan_flags ?f (Suc 6) [Slot w] spec0 = Some (asc (CHR ''d''), 8, [Slot w], spec0)"
    by (subst scan_flags.simps) (simp add: fch_def)
  have sw: "sint (scast w :: u64) = sint w"
    using sint32_range [of w]
    by (simp add: signed_scast_eq) (rule signed_take_bit_int_eq_self, simp_all)
  then have "\<not> (scast w :: u64) <s 0" using w by (simp add: word_sless_alt)
  moreover have "int (unat (scast w :: u64)) = sint w"
  proof -
    have "uint (scast w :: u64) = take_bit 64 (sint w)" using uint_sint [of "scast w :: u64"] sw by simp
    also have "\<dots> = sint w" using w sint32_range [of w] by (intro take_bit_int_eq_self) simp_all
    finally show ?thesis by simp
  qed
  then have "unat (scast w :: u64) = nat (sint w)" by linarith
  ultimately have "conv_text (asc (CHR ''d'')) [Slot w] spec0
      = Some (number_text 10 (nat (sint w)) (- 1) (asc (CHR '' '')), [])"
    by (simp add: conv_text_def getint_def signed_text_def spec0_fields word_sle_eq)
  note ct = convert_text [OF this resolves_refl]
  have "convert putch rd (asc (CHR ''d'')) [Slot w] spec0 s'
      = Some ([], fold putch (number_text 10 (nat (sint w)) (- 1) (asc (CHR '' ''))) s')"
    if "Inv s'" for s' using ct [OF that] by simp
  note conv = this [OF Inv_fold [OF s]]
  have ends: "vprintfmt putch rd ?f 6 [Slot w] ?s =
      Some (fold putch (number_text 10 (nat (sint w)) (- 1) (asc (CHR '' ''))) ?s)"
    by (subst vprintfmt_conv [OF _ scan _ conv]) (simp_all add: fch_def is_conv_def vprintfmt_stop)
  have six: "(6 :: nat) = Suc (Suc (Suc (Suc (Suc (Suc 0)))))" by simp
  show ?thesis using ends [unfolded six] by (simp add: vprintfmt_plain fch_def)
qed

lemma error_call_text:
  assumes t: "error_text w = Some t" and s: "Inv s"
  obtains f a where "error_call w = Some (f, a)" "vprintfmt putch rd f 0 a s = Some (fold putch t s)"
proof -
  let ?err = "if w <s 0 then - w else w"
  let ?n = "nat \<bar>sint w\<bar>"
  note err = error_magnitude(1) [OF t] and un = error_magnitude(2) [OF t] and nneg = error_magnitude(3) [OF t]
    and max = error_magnitude(4) [OF t]
  have lens: "\<forall>p \<in> set error_string. case p of None \<Rightarrow> True | Some xs \<Rightarrow> 0 \<notin> set xs \<and> length xs < 1073741824"
    by (simp add: error_string_def)
  show ?thesis
  proof (cases "?n = 0 \<or> 7 \<le> ?n")
    case True
    have "error_call w = Some (ascii ''error %d'', [Slot ?err])"
    proof (cases "7 \<le> ?n")
      case True
      with max show ?thesis by (simp add: error_call_def Let_def)
    next
      case False
      with True have "?n = 0" by simp
      with False max un nneg show ?thesis
        by (simp add: error_call_def Let_def error_string_def)
    qed
    moreover have "t = map scast (ascii ''error '') @ number_text 10 ?n (- 1) (asc (CHR '' ''))"
      using t True by (simp add: error_text_def Let_def split: if_splits)
    ultimately show ?thesis
      using that print_error_number [OF s, of ?err] err by simp
  next
    case False
    then have n: "?n < length error_string" "error_string ! ?n \<noteq> None"
      by (auto simp: error_string_def nth_Cons')
    then obtain p where p: "error_string ! ?n = Some p" by auto
    have "0 \<notin> set p" "length p < 1073741824" using lens n p by (auto dest!: nth_mem)
    moreover have "t = map scast p" using t False p by (simp add: error_text_def Let_def split: if_splits)
    moreover have "error_call w = Some (ascii ''%s'', [Lit p])"
      using False max un nneg p by (simp add: error_call_def Let_def)
    ultimately show ?thesis using that print_Lit [OF _ _ s] by simp
  qed
qed

lemma render_percentE:
  assumes "render fmt i ap = Some t" and pc: "fch fmt i = asc (CHR ''%'')"
  obtains (error) j ap1 sp w ap2 t1 t2
      where "scan_flags fmt (Suc i) ap spec0 = Some (asc (CHR ''e''), j, ap1, sp)" "va_word ap1 = Some (w, ap2)"
        "error_text w = Some t1" "render fmt j ap2 = Some t2" "t = t1 @ t2"
    | (conv) c j ap1 sp t1 ap2 t2
      where "scan_flags fmt (Suc i) ap spec0 = Some (c, j, ap1, sp)" "c \<noteq> asc (CHR ''e'')" "is_conv c"
        "conv_text c ap1 sp = Some (t1, ap2)" "render fmt j ap2 = Some t2" "t = t1 @ t2"
    | (other) c j ap1 sp t1
      where "scan_flags fmt (Suc i) ap spec0 = Some (c, j, ap1, sp)" "c \<noteq> asc (CHR ''e'')" "\<not> is_conv c"
        "render fmt (Suc i) ap1 = Some t1" "t = asc (CHR ''%'') # t1"
  using assms(1) unfolding render.simps [of fmt i] Let_def pc
  by (auto split: option.splits prod.splits if_splits)

lemma vprintfmt_render:
  "render fmt i ap' = Some t \<Longrightarrow> list_all2 (resolves rd Inv) ap ap' \<Longrightarrow> Inv s \<Longrightarrow>
    vprintfmt putch rd fmt i ap s = Some (fold putch t s)"
proof (induction fmt i ap' arbitrary: ap s t rule: render.induct)
  case (1 fmt i ap')
  note r = "1.prems"(2) and s = "1.prems"(3)
  show ?case
  proof (cases "fch fmt i = asc (CHR ''%'')")
    case False
    show ?thesis
    proof (cases "fch fmt i = 0")
      case True
      with "1.prems"(1) have "t = []" by (subst (asm) render.simps) simp
      with True show ?thesis by (simp add: vprintfmt_stop)
    next
      case nz: False
      with False "1.prems"(1) obtain t1 where t1: "render fmt (Suc i) ap' = Some t1"
          "t = ucast (fch fmt i) # t1"
        by (subst (asm) render.simps) (auto simp: Let_def)
      show ?thesis
        using "1.IH"(1) [OF refl False nz t1(1) r keeps [OF s]] False nz t1(2)
        by (simp add: vprintfmt_plain)
    qed
  next
    case True
    note pc = True
    then have pc': "\<not> fch fmt i \<noteq> asc (CHR ''%'')" by simp
    from "1.prems"(1) pc show ?thesis
    proof (cases rule: render_percentE)
      case (error j ap1' sp w ap2' t1 t2)
      from scan_flags_resolves [OF error(1) r] obtain ap1 where
        scan: "scan_flags fmt (Suc i) ap spec0 = Some (asc (CHR ''e''), j, ap1, sp)"
          "list_all2 (resolves rd Inv) ap1 ap1'" by blast
      from va_word_resolves [OF error(2) scan(2)] obtain ap2 where
        w1: "va_word ap1 = Some (w, ap2)" and r2: "list_all2 (resolves rd Inv) ap2 ap2'" by blast
      from error_call_text [OF error(3) s] obtain f a where
        call: "error_call w = Some (f, a)" "vprintfmt putch rd f 0 a s = Some (fold putch t1 s)" .
      have "vprintfmt putch rd fmt i ap s = vprintfmt putch rd fmt j ap2 (fold putch t1 s)"
        by (rule vprintfmt_error [OF pc scan(1) w1 call])
      with "1.IH"(2) [OF refl pc' error(1) refl refl refl refl error(2) refl error(3,4) r2 Inv_fold [OF s]] error(5)
      show ?thesis by simp
    next
      case (conv c j ap1' sp t1 ap2' t2)
      from scan_flags_resolves [OF conv(1) r] obtain ap1 where
        scan: "scan_flags fmt (Suc i) ap spec0 = Some (c, j, ap1, sp)" "list_all2 (resolves rd Inv) ap1 ap1'"
        by blast
      from convert_text [OF conv(4) scan(2) s] obtain ap2 where
        cv: "convert putch rd c ap1 sp s = Some (ap2, fold putch t1 s)"
        and r2: "list_all2 (resolves rd Inv) ap2 ap2'" by blast
      from "1.IH"(3) [OF refl pc' conv(1) refl refl refl conv(2,3,4) refl conv(5) r2 Inv_fold [OF s]] conv(6)
      show ?thesis using vprintfmt_conv [OF pc scan(1) conv(3) cv] by simp
    next
      case (other c j ap1' sp t1)
      from scan_flags_resolves [OF other(1) r] obtain ap1 where
        scan: "scan_flags fmt (Suc i) ap spec0 = Some (c, j, ap1, sp)" "list_all2 (resolves rd Inv) ap1 ap1'"
        by blast
      from "1.IH"(4) [OF refl pc' other(1) refl refl refl other(2,3,4) scan(2) keeps [OF s]] other(5)
      show ?thesis using vprintfmt_other [OF pc scan(1) other(2,3), of putch rd s] by simp
    qed
  qed
qed

end

section \<open>Two sinks\<close>

text \<open>A list that collects the characters.\<close>

definition collect :: "i32 \<Rightarrow> i32 list \<Rightarrow> i32 list" where
  "collect c out = out @ [c]"

interpretation collect: sink collect rd "\<lambda>_. True" for rd
  by unfold_locales

lemma fold_collect: "fold collect cs out = out @ cs"
  by (induction cs arbitrary: out) (simp_all add: collect_def)

text \<open>The buffer of \<open>snprintf\<close>: \<open>n\<close> bytes from \<open>buf\<close> on, over the initial memory \<open>m\<close>.\<close>

definition sprint_inv :: "u32 \<Rightarrow> i32 \<Rightarrow> memory \<Rightarrow> sprintbuf \<Rightarrow> bool" where
  "sprint_inv buf n m b \<longleftrightarrow>
     n \<noteq> 0 \<and> buf \<le> sb_buf b \<and> sb_buf b \<le> sb_ebuf b \<and> sb_ebuf b = buf + n - 1
     \<and> (\<forall>a. \<not> in_rng a buf (unat n) \<longrightarrow> sb_mem b a = m a)"

interpretation sprint: sink sprintputch sb_mem "sprint_inv buf n m" for buf n m
proof
  fix s c
  assume inv: "sprint_inv buf n m s"
  show "sprint_inv buf n m (sprintputch c s)"
  proof (cases "sb_buf s < sb_ebuf s")
    case True
    have le: "unat buf \<le> unat (sb_buf s)" "unat (sb_buf s) < unat (sb_ebuf s)"
        "sb_ebuf s = buf + n - 1"
      using inv True by (simp_all add: sprint_inv_def word_le_nat_alt word_less_nat_alt)
    have eb: "sb_ebuf s - buf = n - 1" using le(3) by simp
    have "unat (sb_buf s - buf) < unat (sb_ebuf s - buf)"
      using le(1,2) by (simp add: unat_diff32 [of _ buf])
    moreover have "unat (n - 1) \<le> unat n" if "n \<noteq> 0" using unat_Suc_pred [OF that] by simp
    moreover have "n \<noteq> 0" using inv by (simp add: sprint_inv_def)
    ultimately have rng: "in_rng (sb_buf s) buf (unat n)" unfolding in_rng_def eb by linarith
    have "unat (sb_buf s + 1) = Suc (unat (sb_buf s))"
      using le unat_lt32 [of "sb_ebuf s"] by (simp add: unat_plus32)
    with le inv rng True show ?thesis
      by (auto simp: sprint_inv_def sprintputch_def word_le_nat_alt)
  next
    case False
    then have "sprintputch c s = s\<lparr>sb_cnt := sb_cnt s + 1\<rparr>" by (simp add: sprintputch_def)
    moreover have "sprint_inv buf n m (s\<lparr>sb_cnt := x\<rparr>) = sprint_inv buf n m s" for x
      by (simp add: sprint_inv_def)
    ultimately show ?thesis using inv by (simp only:)
  qed
qed

lemma fold_sprintputch:
  "unat (sb_buf b) + r = unat (sb_ebuf b) \<Longrightarrow>
    fold sprintputch out b = b\<lparr>sb_mem := write_bytes (map ucast (take r out)) (sb_buf b) (sb_mem b),
      sb_buf := sb_buf b + of_nat (min r (length out)), sb_cnt := sb_cnt b + of_nat (length out)\<rparr>"
proof (induction out arbitrary: b r)
  case Nil
  then show ?case by simp
next
  case (Cons c out)
  show ?case
  proof (cases r)
    case 0
    then have no: "\<not> sb_buf b < sb_ebuf b" using Cons.prems by (simp add: word_less_nat_alt)
    let ?b = "b\<lparr>sb_cnt := sb_cnt b + 1\<rparr>"
    have "sprintputch c b = ?b" using no by (simp add: sprintputch_def)
    with Cons.IH [of ?b 0] Cons.prems 0 show ?thesis by (simp add: algebra_simps)
  next
    case (Suc k)
    then have yes: "sb_buf b < sb_ebuf b" using Cons.prems by (simp add: word_less_nat_alt)
    let ?b = "b\<lparr>sb_cnt := sb_cnt b + 1, sb_mem := (sb_mem b)(sb_buf b := ucast c), sb_buf := sb_buf b + 1\<rparr>"
    have "sprintputch c b = ?b" using yes by (simp add: sprintputch_def)
    moreover have "unat (sb_buf b + 1) = Suc (unat (sb_buf b))"
      using Cons.prems Suc unat_lt32 [of "sb_ebuf b"] by (simp add: unat_plus32)
    ultimately show ?thesis using Cons.IH [of ?b k] Cons.prems Suc
      by (simp add: algebra_simps fun_upd_def)
  qed
qed

text \<open>The arguments of a call, with the strings they point to outside the buffer.\<close>

definition string_args ::
    "u32 \<Rightarrow> nat \<Rightarrow> memory \<Rightarrow> vararg list \<Rightarrow> vararg list \<Rightarrow> bool" where
  "string_args buf n m = list_all2 (\<lambda>a b. a = b
     \<or> (\<exists>p xs. a = Slot p \<and> b = Lit xs \<and> p \<noteq> 0 \<and> cstr m p xs
          \<and> (\<forall>c. in_rng c p (Suc (length xs)) \<longrightarrow> \<not> in_rng c buf n)))"

lemma string_args_resolves:
  assumes "string_args buf (unat n) m ap ap'"
  shows "list_all2 (resolves sb_mem (sprint_inv buf n m)) ap ap'"
  using assms unfolding string_args_def
proof (rule list_all2_mono, goal_cases)
  case (1 a b)
  have "cstr (sb_mem s) p xs"
    if "cstr m p xs" "\<forall>c. in_rng c p (Suc (length xs)) \<longrightarrow> \<not> in_rng c buf (unat n)"
      "sprint_inv buf n m s" for p xs s
    using that by (intro cstr_frame [OF that(1)]) (simp add: sprint_inv_def)
  with 1 show ?case unfolding resolves_def by blast
qed

lemma vsnprintf_run:
  assumes buf: "buf \<noteq> 0" "0 <s n" "unat buf + unat n \<le> 4294967296"
    and args: "string_args buf (unat n) m ap ap'" and out: "render fmt 0 ap' = Some out"
  shows "vsnprintf buf n fmt ap m =
    Some (of_nat (length out), write_bytes (map ucast (take (unat n - 1) out) @ [0]) buf m)"
proof -
  let ?b = "\<lparr>sb_mem = m, sb_buf = buf, sb_ebuf = buf + n - 1, sb_cnt = 0\<rparr>"
  let ?r = "unat n - 1"
  have sn: "0 < sint n" using buf(2) by (simp add: word_sless_alt)
  have n: "n \<noteq> 0" "\<not> n <s 1" using sn by (auto simp: word_sless_alt)
  have "unat (n - 1) = ?r" using unat_Suc_pred [OF n(1)] by simp
  moreover have "unat (buf + (n - 1)) = unat buf + unat (n - 1)"
    using buf(3) unat_Suc_pred [OF n(1)] by (subst unat_plus32) simp
  ultimately have eb: "unat buf + ?r = unat (buf + n - 1)" by (simp add: algebra_simps)
  then have "sprint_inv buf n m ?b" using n by (simp add: sprint_inv_def word_le_nat_alt)
  from sprint.vprintfmt_render [OF out string_args_resolves [OF args] this]
  have "vprintfmt sprintputch sb_mem fmt 0 ap ?b = Some (fold sprintputch out ?b)" .
  moreover have "fold sprintputch out ?b = ?b\<lparr>sb_mem := write_bytes (map ucast (take ?r out)) buf m,
      sb_buf := buf + of_nat (min ?r (length out)), sb_cnt := of_nat (length out)\<rparr>"
    using fold_sprintputch [of ?b ?r out] eb by simp
  ultimately show ?thesis
    using buf(1) n by (simp add: vsnprintf_def write_bytes_append min.commute)
qed

text \<open>
  C6: with room for a NUL, the buffer gets the rendering cut to \<open>n - 1\<close> bytes and the NUL, no
  other byte changes, and the result is the length of the whole rendering.
\<close>

theorem vsnprintf_output:
  assumes buf: "buf \<noteq> 0" "0 <s n" "unat buf + unat n \<le> 4294967296"
    and args: "string_args buf (unat n) m ap ap'" and out: "render fmt 0 ap' = Some out"
  shows "vsnprintf buf n fmt ap m =
    Some (of_nat (length out), write_bytes (map ucast (take (unat n - 1) out) @ [0]) buf m)"
  using assms by (rule vsnprintf_run)

theorem vsnprintf_output_witness:
  "vsnprintf 16 6 (ascii ''x=%03d %s'') [Slot 7, Slot 64] (image 64 (ascii ''ok'')) =
    Some (8, write_bytes (ascii ''x=007'' @ [0]) 16 (image 64 (ascii ''ok'')))"
proof -
  let ?m = "image 64 (ascii ''ok'')"
  let ?ap = "[Slot 7, Lit (ascii ''ok'')]"
  have buf: "16 \<noteq> (0 :: u32)" "0 <s (6 :: i32)" "unat (16 :: u32) + unat (6 :: i32) \<le> 4294967296"
    by (simp_all add: word_sless_alt)
  have c: "cstr ?m 64 (ascii ''ok'')" by (simp add: image_def)
  have "\<not> in_rng x 16 (unat (6 :: i32))" if x: "in_rng x 64 (Suc (length (ascii ''ok'')))" for x
  proof -
    from x have "x = 64 \<or> x = 65 \<or> x = 66" by (simp add: in_rng_Suc)
    then show ?thesis by (auto simp: in_rng_def)
  qed
  with c have args: "string_args 16 (unat (6 :: i32)) ?m [Slot 7, Slot 64] ?ap"
    unfolding string_args_def by auto
  have out: "render (ascii ''x=%03d %s'') 0 ?ap = Some (map ucast (ascii ''x=007 ok''))"
    by (simp add: render_eval split del: if_split)
  show ?thesis using vsnprintf_output [OF buf args out] by simp
qed

section \<open>Printing to any sink\<close>

text \<open>
  C23: \<open>printnum\<close> prints the number in positional notation: digits below the base, the first
  one not zero unless the number is, whose value is the number, padded on the left to the width.
\<close>

theorem printnum_digits:
  assumes "2 \<le> unat base" "unat base \<le> 16" "- 1073741824 \<le> sint width"
  shows "\<exists>ds. printnum putch num base width padc s =
      Some (fold putch (replicate (nat (sint width - int (length ds))) padc @ map digit_text ds) s)
    \<and> foldl (\<lambda>a d. a * unat base + d) 0 ds = unat num
    \<and> (\<forall>d \<in> set ds. d < unat base) \<and> (num \<noteq> 0 \<longrightarrow> hd ds \<noteq> 0)"
proof (intro exI conjI)
  let ?ds = "digits (unat base) (unat num)"
  have "length ?ds \<le> Suc 63" using unat64_bound [of num] assms by (intro digits_length) simp_all
  with assms show "printnum putch num base width padc s =
      Some (fold putch (replicate (nat (sint width - int (length ?ds))) padc @ map digit_text ?ds) s)"
    using printnum_text [of base width num putch padc s] by (simp add: number_text_def Let_def)
  show "foldl (\<lambda>a d. a * unat base + d) 0 ?ds = unat num" using assms by (intro digits_value)
  show "\<forall>d \<in> set ?ds. d < unat base" using assms by (intro digits_bound)
  show "num \<noteq> 0 \<longrightarrow> hd ?ds \<noteq> 0"
    using assms digits_hd [of "unat base" "unat num"] by (auto simp: unat_gt_0)
qed

theorem printnum_digits_witness:
  "(\<exists>ds. printnum collect 255 16 4 48 [] =
      Some (replicate (nat (4 - int (length ds))) 48 @ map digit_text ds)
      \<and> foldl (\<lambda>a d. a * 16 + d) 0 ds = 255)
   \<and> printnum collect 255 16 4 48 [] = Some [48, 48, 102, 102]"
proof
  have "2 \<le> unat (16 :: u32)" "unat (16 :: u32) \<le> 16" "- 1073741824 \<le> sint (4 :: i32)"
    by simp_all
  from printnum_digits [OF this, of collect 255 48 "[]", unfolded fold_collect] show
    "\<exists>ds. printnum collect 255 16 4 48 [] =
      Some (replicate (nat (4 - int (length ds))) 48 @ map digit_text ds)
      \<and> foldl (\<lambda>a d. a * 16 + d) 0 ds = 255" by auto
  show "printnum collect 255 16 4 48 [] = Some [48, 48, 102, 102]"
    by (simp add: printnum.simps digit_char_def pad_pos_fold collect_def replicate_num
        word_sless_alt word_sle_eq split del: if_split)
qed

text \<open>
  On every sink, a format that has a rendering is printed as its rendering, one \<open>putch\<close> per
  character in order; string arguments may be literals or lie in memory that the printing
  leaves alone.
\<close>

theorem vprintfmt_prints_render:
  assumes "sink putch Inv" and "render fmt 0 ap' = Some out"
    and "list_all2 (resolves rd Inv) ap ap'" and "Inv s"
  shows "printfmt putch rd fmt ap s = Some (fold putch out s)"
  unfolding printfmt_def using assms(2-4) by (rule sink.vprintfmt_render [OF assms(1)])

theorem vprintfmt_prints_render_witness:
  "printfmt collect (\<lambda>_. image 64 (ascii ''user'')) (ascii ''%s: %08x, %e%%'') [Slot 64, Slot 0xbeef, Slot (- 4)] []
    = Some (map ucast (ascii ''user: 0000beef, out of memory%''))"
proof -
  let ?rd = "\<lambda>_ :: i32 list. image 64 (ascii ''user'')"
  have sink: "sink collect (\<lambda>_. True)" by unfold_locales
  have out: "render (ascii ''%s: %08x, %e%%'') 0 [Lit (ascii ''user''), Slot 0xbeef, Slot (- 4)]
      = Some (map ucast (ascii ''user: 0000beef, out of memory%''))"
    by (simp add: render_eval split del: if_split)
  have "cstr (image 64 (ascii ''user'')) 64 (ascii ''user'')" by (simp add: image_def)
  then have args: "list_all2 (resolves ?rd (\<lambda>_. True)) [Slot 64, Slot 0xbeef, Slot (- 4)]
      [Lit (ascii ''user''), Slot 0xbeef, Slot (- 4)]"
    by (simp add: resolves_def)
  show ?thesis using vprintfmt_prints_render [OF sink out args TrueI] by (simp add: collect_def)
qed

text \<open>
  An int with padding as the code prints it: the sign first, then the padding on the left, whatever
  the padding character.
\<close>

definition padded_int :: "u32 \<Rightarrow> int \<Rightarrow> i32 \<Rightarrow> i32 list" where
  "padded_int w width padc = (if w <s 0 then [45] else []) @ number_text 10 (nat \<bar>sint w\<bar>) width padc"

lemma signed_text_padded:
  "signed_text (scast (w :: u32)) sp = padded_int w (sint (fs_width sp)) (scast (fs_padc sp))"
proof -
  have bounds: "- 2147483648 \<le> sint w" "sint w < 2147483648" by (rule sint32_range)+
  have sc: "(scast w :: u64) = word_of_int (sint w)" by (rule scast_eq)
  have "sint (scast w :: u64) = sint w"
    using bounds by (simp add: signed_scast_eq) (rule signed_take_bit_int_eq_self, simp_all)
  then have neg: "(scast w :: u64) <s 0 \<longleftrightarrow> w <s 0" by (simp add: word_sless_alt)
  have pos: "unat (word_of_int j :: u64) = nat j" if "0 \<le> j" "j < 4294967296" for j
  proof -
    have "uint (word_of_int j :: u64) = take_bit 64 j" by (simp add: uint_word_of_int take_bit_eq_mod)
    also have "\<dots> = j" using that by (intro take_bit_int_eq_self) simp_all
    finally show ?thesis by (metis nat_uint_eq)
  qed
  show ?thesis
  proof (cases "w <s 0")
    case True
    have "- (scast w :: u64) = word_of_int (- sint w)" by (simp only: sc of_int_minus)
    then have "unat (- (scast w :: u64)) = nat \<bar>sint w\<bar>"
      using pos [of "- sint w"] True bounds by (simp add: word_sless_alt)
    with True neg show ?thesis by (simp add: signed_text_def padded_int_def)
  next
    case False
    then have "unat (scast w :: u64) = nat \<bar>sint w\<bar>"
      using pos [of "sint w"] bounds by (simp only: sc word_sless_alt) simp
    with False neg show ?thesis by (simp add: signed_text_def padded_int_def)
  qed
qed

lemma pad_render:
  "render (ascii ''%-5d'') 0 [Slot w] = Some (padded_int w 5 45)"
  "render (ascii ''%5d'') 0 [Slot w] = Some (padded_int w 5 32)"
  by (simp_all add: render.simps scan_flags.simps scan_digits.simps fch_def spec0_def conv_text_def
  process_precision_def is_conv_def getint_def signed_text_padded word_sle_eq word_sless_alt Let_def split del: if_split)

lemma error_outcome: "printfmt collect rd (ascii ''%e'') [Slot w] [] = None \<longleftrightarrow> w = 0x80000000"
proof (cases "error_text w")
  case None
  moreover have "error_string ! n \<noteq> None" if "n \<noteq> 0" "\<not> 7 \<le> n" for n
    using that by (simp add: error_string_def nth_Cons split: nat.splits)
  note this [of "nat \<bar>sint w\<bar>"]
  ultimately have "\<bar>sint w\<bar> = 2147483648"
    by (simp add: error_text_def Let_def split: if_splits)
  then have "sint w = sint (0x80000000 :: u32)" using sint32_range [of w] by simp
  then have "w = 0x80000000" by (simp only: signed_word_eqI)
  moreover have "printfmt collect rd (ascii ''%e'') [Slot 0x80000000] [] = None"
    by (simp add: printfmt_def vprintfmt.simps scan_flags.simps fch_def error_call_def
        word_sless_alt word_sle_eq split del: if_split)
  ultimately show ?thesis by simp
next
  case (Some t)
  have "render (ascii ''%e'') 0 [Slot w] = Some t"
    using Some by (simp add: render.simps scan_flags.simps fch_def spec0_def Let_def split del: if_split)
  from collect.vprintfmt_render [OF this resolves_refl TrueI, of rd "[]"]
  have "printfmt collect rd (ascii ''%e'') [Slot w] [] = Some (fold collect t [])" by (simp add: printfmt_def)
  moreover have "w \<noteq> 0x80000000" using Some by (auto simp: error_text_def)
  ultimately show ?thesis by simp
qed

text \<open>
  C40: for every int the flag \<open>-\<close> pads on the left with dashes instead of on the right with spaces,
  and a negative number prints its sign before the padding; \<open>%e\<close> has a result for every int but the
  least one, for which it reads outside of the table of messages.
\<close>

theorem vprintfmt_padding_quirks:
  "printfmt collect rd (ascii ''%-5d'') [Slot w] [] = Some (padded_int w 5 45)
   \<and> printfmt collect rd (ascii ''%5d'') [Slot w] [] = Some (padded_int w 5 32)
   \<and> (printfmt collect rd (ascii ''%e'') [Slot w] [] = None \<longleftrightarrow> w = 0x80000000)"
  using collect.vprintfmt_render [OF pad_render(1) resolves_refl TrueI, of rd w "[]"]
    collect.vprintfmt_render [OF pad_render(2) resolves_refl TrueI, of rd w "[]"] error_outcome
  by (simp add: printfmt_def fold_collect)

end
