(* ===== verification/Format_Items.thy ===== *)
theory Format_Items
  imports Format_Laws
begin

text \<open>
  Format strings as their author writes them: a list of characters and directives, each with flags, a
  width, a precision, length modifiers and a conversion.  What such a list means is defined here from
  these fields and the arguments alone, with integers in place of words and without the scanner of
  lib/printfmt.c; the scanner and the conversions are then shown to give this meaning to its text.
\<close>

section \<open>Formats\<close>

datatype flag = Dash | Zero | Sharp

datatype amount = Absent | Fixed nat | Star

datatype conversion = Char_conv | String_conv | Signed_conv | Unsigned_conv | Octal_conv | Hex_conv
  | Pointer_conv | Percent_conv | Error_conv

record directive =
  dv_flags :: "flag list"
  dv_width :: amount
  dv_prec :: "amount option"
  dv_longs :: nat
  dv_conv :: conversion

datatype item = Plain u8 | Directive directive

text \<open>The text of a format.\<close>

definition decimal :: "nat \<Rightarrow> u8 list" where
  "decimal n = map (\<lambda>d. ucast (digit_text d)) (digits 10 n)"

fun flag_byte :: "flag \<Rightarrow> u8" where
  "flag_byte Dash = asc (CHR ''-'')"
| "flag_byte Zero = asc (CHR ''0'')"
| "flag_byte Sharp = asc (CHR ''#'')"

fun amount_bytes :: "amount \<Rightarrow> u8 list" where
  "amount_bytes Absent = []"
| "amount_bytes (Fixed n) = decimal n"
| "amount_bytes Star = [asc (CHR ''*'')]"

fun conv_byte :: "conversion \<Rightarrow> u8" where
  "conv_byte Char_conv = asc (CHR ''c'')"
| "conv_byte String_conv = asc (CHR ''s'')"
| "conv_byte Signed_conv = asc (CHR ''d'')"
| "conv_byte Unsigned_conv = asc (CHR ''u'')"
| "conv_byte Octal_conv = asc (CHR ''o'')"
| "conv_byte Hex_conv = asc (CHR ''x'')"
| "conv_byte Pointer_conv = asc (CHR ''p'')"
| "conv_byte Percent_conv = asc (CHR ''%'')"
| "conv_byte Error_conv = asc (CHR ''e'')"

definition prec_bytes :: "amount option \<Rightarrow> u8 list" where
  "prec_bytes a = (case a of None \<Rightarrow> [] | Some a \<Rightarrow> asc (CHR ''.'') # amount_bytes a)"

fun item_bytes :: "item \<Rightarrow> u8 list" where
  "item_bytes (Plain c) = [c]"
| "item_bytes (Directive d) = asc (CHR ''%'') # map flag_byte (dv_flags d) @ amount_bytes (dv_width d)
     @ prec_bytes (dv_prec d) @ replicate (dv_longs d) (asc (CHR ''l'')) @ [conv_byte (dv_conv d)]"

fun amount_ok :: "amount \<Rightarrow> bool" where
  "amount_ok (Fixed n) \<longleftrightarrow> 0 < n \<and> n < 2147483648"
| "amount_ok _ \<longleftrightarrow> True"

fun item_ok :: "item \<Rightarrow> bool" where
  "item_ok (Plain c) \<longleftrightarrow> c \<noteq> 0 \<and> c \<noteq> asc (CHR ''%'')"
| "item_ok (Directive d) \<longleftrightarrow> amount_ok (dv_width d) \<and> pred_option amount_ok (dv_prec d) \<and> dv_longs d < 2147483648"

section \<open>Their meaning\<close>

text \<open>A width or precision: none, the number written, or the next argument.\<close>

fun amount_value :: "amount \<Rightarrow> vararg list \<Rightarrow> (int option \<times> vararg list) option" where
  "amount_value Absent ap = Some (None, ap)"
| "amount_value (Fixed n) ap = Some (Some (int n), ap)"
| "amount_value Star (Slot w # ap) = Some (Some (sint w), ap)"
| "amount_value Star _ = None"

text \<open>
  The width and the limit that the precision sets.  A point makes a missing or negative width zero; a
  missing or negative precision sets no limit.
\<close>

definition extent :: "directive \<Rightarrow> vararg list \<Rightarrow> (int \<times> int option \<times> vararg list) option" where
  "extent d ap = do {
     (w, ap1) \<leftarrow> amount_value (dv_width d) ap;
     case dv_prec d of
       None \<Rightarrow> Some (case w of None \<Rightarrow> - 1 | Some v \<Rightarrow> v, None, ap1)
     | Some a \<Rightarrow> do {
         (p, ap2) \<leftarrow> amount_value a ap1;
         Some (case w of None \<Rightarrow> 0 | Some v \<Rightarrow> max 0 v,
               case p of None \<Rightarrow> None | Some v \<Rightarrow> if 0 \<le> v then Some v else None, ap2) } }"

text \<open>The last of the flags \<open>-\<close> and \<open>0\<close> is the padding character, a blank without one.\<close>

definition padding :: "flag list \<Rightarrow> i32" where
  "padding fs = (case filter (\<lambda>f. f \<noteq> Sharp) (rev fs) of [] \<Rightarrow> 32 | f # _ \<Rightarrow> if f = Dash then 45 else 48)"

text \<open>An integer argument; with two \<open>l\<close>s it has 64 bits in two slots, the low half first.\<close>

definition natural_arg :: "nat \<Rightarrow> vararg list \<Rightarrow> (nat \<times> vararg list) option" where
  "natural_arg longs ap = (case ap of
     Slot lo # ap1 \<Rightarrow>
       if longs < 2 then Some (unat lo, ap1)
       else (case ap1 of Slot hi # ap2 \<Rightarrow> Some (unat lo + 4294967296 * unat hi, ap2) | _ \<Rightarrow> None)
   | _ \<Rightarrow> None)"

definition integer_arg :: "nat \<Rightarrow> vararg list \<Rightarrow> (int \<times> vararg list) option" where
  "integer_arg longs ap =
     map_option (\<lambda>(n, ap1). (let k = (if longs < 2 then 32 else 64) in
       if int n < 2 ^ (k - 1) then int n else int n - 2 ^ k, ap1)) (natural_arg longs ap)"

definition string_field :: "int \<Rightarrow> int option \<Rightarrow> i32 \<Rightarrow> bool \<Rightarrow> u8 list \<Rightarrow> i32 list" where
  "string_field width limit pad alt xs =
     (let ys = (case limit of None \<Rightarrow> xs | Some v \<Rightarrow> take (nat v) xs);
          out = map (\<lambda>x. if alt \<and> (sint x < 32 \<or> 126 < sint x) then 63 else scast x) ys;
          gap = nat (width - int (length ys))
      in if 0 < width \<and> pad \<noteq> 45 then replicate gap pad @ out else out @ replicate gap 32)"

text \<open>The messages of \<open>%e\<close>; for the least int there is none.\<close>

definition error_names :: "u8 list list" where
  "error_names = [ascii ''unspecified error'', ascii ''bad environment'', ascii ''invalid parameter'',
     ascii ''out of memory'', ascii ''out of environments'', ascii ''segmentation fault'']"

definition error_message :: "int \<Rightarrow> i32 list option" where
  "error_message v =
     (let n = nat \<bar>v\<bar> in
      if 2147483648 \<le> n then None
      else if 1 \<le> n \<and> n \<le> length error_names then Some (map scast (error_names ! (n - 1)))
      else Some (map scast (ascii ''error '') @ map digit_text (digits 10 n)))"

fun conv_meaning ::
    "conversion \<Rightarrow> int \<Rightarrow> int option \<Rightarrow> i32 \<Rightarrow> bool \<Rightarrow> nat \<Rightarrow> vararg list \<Rightarrow> (i32 list \<times> vararg list) option" where
  "conv_meaning Char_conv width limit pad alt longs (Slot w # ap) = Some ([w], ap)"
| "conv_meaning Percent_conv width limit pad alt longs ap = Some ([37], ap)"
| "conv_meaning String_conv width limit pad alt longs (Lit xs # ap) =
     (if 0 \<in> set xs \<or> 1073741824 \<le> length xs then None else Some (string_field width limit pad alt xs, ap))"
| "conv_meaning String_conv width limit pad alt longs (Slot w # ap) =
     (if w = 0 then Some (string_field width limit pad alt (ascii ''(null)''), ap) else None)"
| "conv_meaning Signed_conv width limit pad alt longs ap =
     map_option (\<lambda>(v, ap1). ((if v < 0 then [45] else []) @ number_text 10 (nat \<bar>v\<bar>) width pad, ap1)) (integer_arg longs ap)"
| "conv_meaning Unsigned_conv width limit pad alt longs ap =
     map_option (\<lambda>(n, ap1). (number_text 10 n width pad, ap1)) (natural_arg longs ap)"
| "conv_meaning Octal_conv width limit pad alt longs ap =
     map_option (\<lambda>(n, ap1). (number_text 8 n width pad, ap1)) (natural_arg longs ap)"
| "conv_meaning Hex_conv width limit pad alt longs ap =
     map_option (\<lambda>(n, ap1). (number_text 16 n width pad, ap1)) (natural_arg longs ap)"
| "conv_meaning Pointer_conv width limit pad alt longs ap =
     map_option (\<lambda>(n, ap1). ([48, 120] @ number_text 16 n width pad, ap1)) (natural_arg 0 ap)"
| "conv_meaning Error_conv width limit pad alt longs (Slot w # ap) =
     map_option (\<lambda>t. (t, ap)) (error_message (sint w))"
| "conv_meaning _ width limit pad alt longs _ = None"

text \<open>
  A width of less than \<open>- 2 ^ 30\<close>, which only an argument can give, has no meaning here: the code counts
  it down with the characters of the string.
\<close>

fun items_text :: "item list \<Rightarrow> vararg list \<Rightarrow> i32 list option" where
  "items_text [] ap = Some []"
| "items_text (Plain c # its) ap = map_option ((#) (ucast c)) (items_text its ap)"
| "items_text (Directive d # its) ap = do {
     (width, limit, ap1) \<leftarrow> extent d ap;
     if width < - 1073741824 then None
     else do {
       (t, ap2) \<leftarrow> conv_meaning (dv_conv d) width limit (padding (dv_flags d)) (Sharp \<in> set (dv_flags d)) (dv_longs d) ap1;
       map_option ((@) t) (items_text its ap2) } }"

section \<open>The scanner reads the fields\<close>

lemma fch_drop: "drop i fmt = c # rest \<Longrightarrow> fch fmt i = c \<and> drop (Suc i) fmt = rest"
proof -
  assume d: "drop i fmt = c # rest"
  then have "i < length fmt" by (metis drop_eq_Nil list.discI not_le)
  with d show ?thesis by (simp add: fch_def flip: Cons_nth_drop_Suc)
qed

lemma fch_end: "drop i fmt = [] \<Longrightarrow> fch fmt i = 0"
  by (simp add: fch_def)

lemma digit_byte:
  assumes "d < 10"
  shows "(ucast (digit_text d) :: u8) = 48 + of_nat d" "strtol_digit (48 + of_nat d) = Some (of_nat d)"
    "(48 + of_nat d :: u8) \<notin> {0, 9, 32, 43, 45}"
    "48 \<le>s (48 + of_nat d :: u8) \<and> (48 + of_nat d :: u8) \<le>s 57"
    "(scast (48 + of_nat d :: u8) :: i32) = 48 + of_nat d" "(ucast (48 + of_nat d :: u8) :: i32) = 48 + of_nat d"
    "0 < d \<Longrightarrow> 49 \<le> (48 + of_nat d :: u8) \<and> (48 + of_nat d :: u8) \<le> 57 \<and> (48 + of_nat d :: u8) \<noteq> 48"
proof -
  from assms have "d \<in> {0, 1, 2, 3, 4, 5, 6, 7, 8, 9}" by auto
  then show "(ucast (digit_text d) :: u8) = 48 + of_nat d"
      "strtol_digit (48 + of_nat d) = Some (of_nat d)" "(48 + of_nat d :: u8) \<notin> {0, 9, 32, 43, 45}"
      "48 \<le>s (48 + of_nat d :: u8) \<and> (48 + of_nat d :: u8) \<le>s 57"
      "(scast (48 + of_nat d :: u8) :: i32) = 48 + of_nat d" "(ucast (48 + of_nat d :: u8) :: i32) = 48 + of_nat d"
      "0 < d \<Longrightarrow> 49 \<le> (48 + of_nat d :: u8) \<and> (48 + of_nat d :: u8) \<le> 57 \<and> (48 + of_nat d :: u8) \<noteq> 48"
    by (auto simp: digit_text_def strtol_digit_def word_sle_eq)
qed

lemma decimal_bytes: "decimal n = map (\<lambda>d. 48 + of_nat d) (digits 10 n)"
  using digits_bound [of 10 n] digit_byte(1) by (auto simp: decimal_def)

lemma foldl_of_nat:
  "foldl (\<lambda>a d. a * of_nat b + of_nat d) (of_nat x) ds = (of_nat (foldl (\<lambda>a d. a * b + d) x ds) :: i32)"
  by (induction ds arbitrary: x) (simp_all flip: of_nat_mult of_nat_add)

definition no_digit :: "u8 list \<Rightarrow> bool" where
  "no_digit rest \<longleftrightarrow> (case rest of [] \<Rightarrow> True | c # _ \<Rightarrow> \<not> (48 \<le>s c \<and> c \<le>s 57))"

lemma no_digit_drop: "drop i fmt = rest \<Longrightarrow> no_digit rest \<Longrightarrow> \<not> (48 \<le>s fch fmt i \<and> fch fmt i \<le>s 57)"
  by (cases rest) (simp_all add: no_digit_def fch_end fch_drop word_sle_eq)

lemma scan_digits_number:
  "drop i fmt = map (\<lambda>d. 48 + of_nat d) ds @ rest \<Longrightarrow> no_digit rest \<Longrightarrow> \<forall>e \<in> set ds. e < 10 \<Longrightarrow>
    scan_digits fmt i (of_nat p) (48 + of_nat d) = (of_nat (foldl (\<lambda>a d. a * 10 + d) p (d # ds)), i + length ds)"
proof (induction ds arbitrary: i p d)
  case Nil
  then show ?case using no_digit_drop [of i fmt rest]
    by (subst scan_digits.simps) (auto simp: algebra_simps Let_def)
next
  case (Cons e ds)
  note c = fch_drop [of i fmt "48 + of_nat e" "map (\<lambda>d. 48 + of_nat d) ds @ rest"]
  have e: "fch fmt i = 48 + of_nat e" "drop (Suc i) fmt = map (\<lambda>d. 48 + of_nat d) ds @ rest"
    using c Cons.prems(1) by simp_all
  have lt: "e < 10" using Cons.prems(3) by simp
  have "scan_digits fmt i (of_nat p) (48 + of_nat d) = scan_digits fmt (Suc i) (of_nat (p * 10 + d)) (48 + of_nat e)"
    using digit_byte(4,5) [OF lt] by (subst scan_digits.simps) (simp add: e(1) algebra_simps)
  with Cons.IH [OF e(2) Cons.prems(2), of "p * 10 + d" e] Cons.prems(3) show ?case by simp
qed

definition apply_flag :: "flag \<Rightarrow> fmt_spec \<Rightarrow> fmt_spec" where
  "apply_flag f sp = (if f = Sharp then sp\<lparr>fs_altflag := True\<rparr> else sp\<lparr>fs_padc := flag_byte f\<rparr>)"

lemma scan_flag_list:
  "drop i fmt = map flag_byte fs @ rest \<Longrightarrow>
    scan_flags fmt i ap sp = scan_flags fmt (i + length fs) ap (fold apply_flag fs sp)
    \<and> drop (i + length fs) fmt = rest"
proof (induction fs arbitrary: i sp)
  case Nil
  then show ?case by simp
next
  case (Cons f fs)
  note c = fch_drop [of i fmt "flag_byte f" "map flag_byte fs @ rest"]
  have "scan_flags fmt i ap sp = scan_flags fmt (Suc i) ap (apply_flag f sp)"
    using c Cons.prems by (subst scan_flags.simps) (cases f; simp add: apply_flag_def Let_def)
  with Cons.IH [of "Suc i" "apply_flag f sp"] c Cons.prems show ?case by simp
qed

lemma scan_longs:
  "drop i fmt = replicate n (asc (CHR ''l'')) @ rest \<Longrightarrow>
    scan_flags fmt i ap sp = scan_flags fmt (i + n) ap (sp\<lparr>fs_lflag := fs_lflag sp + of_nat n\<rparr>)
    \<and> drop (i + n) fmt = rest"
proof (induction n arbitrary: i sp)
  case 0
  then show ?case by simp
next
  case (Suc n)
  note c = fch_drop [of i fmt "asc (CHR ''l'')" "replicate n (asc (CHR ''l'')) @ rest"]
  have "scan_flags fmt i ap sp = scan_flags fmt (Suc i) ap (sp\<lparr>fs_lflag := fs_lflag sp + 1\<rparr>)"
    using c Suc.prems by (subst scan_flags.simps) (simp add: Let_def)
  with Suc.IH [of "Suc i" "sp\<lparr>fs_lflag := fs_lflag sp + 1\<rparr>"] c Suc.prems show ?case
    by (simp add: algebra_simps)
qed

lemma decimal_Cons:
  assumes "0 < n"
  obtains d ds where "decimal n = (48 + of_nat d) # map (\<lambda>d. 48 + of_nat d) ds" "0 < d" "d < 10"
    "\<forall>e \<in> set ds. e < 10" "foldl (\<lambda>a d. a * 10 + d) 0 (d # ds) = n"
proof -
  obtain d ds where dd: "digits 10 n = d # ds" by (cases "digits 10 n") auto
  with that digits_bound [of 10 n] digits_hd [of 10 n] digits_value [of 10 n] assms show thesis
    by (auto simp: decimal_bytes)
qed

lemma scan_amount:
  assumes at: "drop i fmt = amount_bytes a @ rest" and rest: "no_digit rest" and ok: "amount_ok a"
    and v: "amount_value a ap = Some (v, ap')"
  shows "scan_flags fmt i ap sp = scan_flags fmt (i + length (amount_bytes a)) ap'
      (case v of None \<Rightarrow> sp | Some x \<Rightarrow> process_precision (sp\<lparr>fs_precision := word_of_int x\<rparr>))"
    and "drop (i + length (amount_bytes a)) fmt = rest"
proof -
  show "drop (i + length (amount_bytes a)) fmt = rest"
    using at by (metis add.commute append_eq_conv_conj drop_drop)
  show "scan_flags fmt i ap sp = scan_flags fmt (i + length (amount_bytes a)) ap'
      (case v of None \<Rightarrow> sp | Some x \<Rightarrow> process_precision (sp\<lparr>fs_precision := word_of_int x\<rparr>))"
  proof (cases a)
    case Absent
    with v show ?thesis by simp
  next
    case Star
    with v obtain w where "ap = Slot w # ap'" "v = Some (sint w)" by (cases "(a, ap)" rule: amount_value.cases) auto
    with Star at fch_drop [of i fmt] show ?thesis by (subst scan_flags.simps) (simp add: Let_def)
  next
    case (Fixed n)
    then have n: "0 < n" using ok by simp
    from decimal_Cons [OF this] obtain d ds where
      dd: "decimal n = (48 + of_nat d) # map (\<lambda>d. 48 + of_nat d) ds" "0 < d" "d < 10" "\<forall>e \<in> set ds. e < 10"
        "foldl (\<lambda>a d. a * 10 + d) 0 (d # ds) = n" by blast
    note c = fch_drop [of i fmt "48 + of_nat d" "map (\<lambda>d. 48 + of_nat d) ds @ rest"]
    have first: "fch fmt i = 48 + of_nat d" and tl: "drop (Suc i) fmt = map (\<lambda>d. 48 + of_nat d) ds @ rest"
      using c at Fixed dd(1) by simp_all
    have "scan_digits fmt (Suc i) 0 (48 + of_nat d) = (of_nat n, Suc i + length ds)"
      using scan_digits_number [OF tl rest dd(4), of 0 d] dd(5) by simp
    moreover have "ap' = ap" "v = Some (int n)" using v Fixed by simp_all
    moreover have "length (amount_bytes a) = Suc (length ds)" using Fixed dd(1) by simp
    ultimately show ?thesis
      using digit_byte(3,6,7) [OF dd(3)] dd(2) by (subst scan_flags.simps) (simp add: first Let_def)
  qed
qed

section \<open>The settings of a directive\<close>

text \<open>What the scanner's words and the fields have to do with each other.\<close>

definition settings :: "fmt_spec \<Rightarrow> int \<Rightarrow> int option \<Rightarrow> i32 \<Rightarrow> bool \<Rightarrow> nat \<Rightarrow> bool" where
  "settings sp width limit pad alt longs \<longleftrightarrow> sint (fs_width sp) = width
     \<and> (case limit of None \<Rightarrow> fs_precision sp <s 0 | Some v \<Rightarrow> sint (fs_precision sp) = v \<and> 0 \<le> v)
     \<and> scast (fs_padc sp) = pad \<and> (fs_padc sp = asc (CHR ''-'') \<longleftrightarrow> pad = 45)
     \<and> fs_altflag sp = alt \<and> (2 \<le>s fs_lflag sp \<longleftrightarrow> 2 \<le> longs)"

lemma fold_apply_flag:
  "fold apply_flag fs sp = sp\<lparr>fs_padc := (case filter (\<lambda>f. f \<noteq> Sharp) (rev fs) of [] \<Rightarrow> fs_padc sp | f # _ \<Rightarrow> flag_byte f),
     fs_altflag := fs_altflag sp \<or> Sharp \<in> set fs\<rparr>"
proof (induction fs rule: rev_induct)
  case (snoc f fs)
  then show ?case by (cases f) (simp_all add: apply_flag_def)
qed simp

lemma padding_flags:
  fixes fs :: "flag list"
  defines "c \<equiv> (case filter (\<lambda>f. f \<noteq> Sharp) (rev fs) of [] \<Rightarrow> asc (CHR '' '') | f # _ \<Rightarrow> flag_byte f)"
  shows "scast c = padding fs" "c = asc (CHR ''-'') \<longleftrightarrow> padding fs = 45"
proof -
  have c: "c = asc (CHR '' '') \<and> padding fs = 32 \<or> c = flag_byte Dash \<and> padding fs = 45 \<or> c = flag_byte Zero \<and> padding fs = 48"
  proof (cases "filter (\<lambda>f. f \<noteq> Sharp) (rev fs)")
    case Nil
    then show ?thesis by (simp add: c_def padding_def)
  next
    case (Cons f gs)
    then have "f \<in> set (filter (\<lambda>f. f \<noteq> Sharp) (rev fs))" by simp
    then have "f \<noteq> Sharp" by simp
    with Cons show ?thesis by (cases f) (simp_all add: c_def padding_def)
  qed
  then show "scast c = padding fs" "c = asc (CHR ''-'') \<longleftrightarrow> padding fs = 45" by auto
qed

lemma sint_small:
  fixes w :: i32
  shows "- 2147483648 \<le> v \<Longrightarrow> v < 2147483648 \<Longrightarrow> sint (word_of_int v :: i32) = v"
  by (simp add: signed_of_int signed_take_bit_int_eq_self)

lemma amount_value_range:
  assumes "amount_value a ap = Some (v, ap')" and "amount_ok a"
  shows "case v of None \<Rightarrow> True | Some x \<Rightarrow> - 2147483648 \<le> x \<and> x < 2147483648"
proof (cases "(a, ap)" rule: amount_value.cases)
  case (3 w ap)
  with assms show ?thesis using sint32_range [of w] by auto
qed (use assms in auto)

lemma spec_update_order:
  "sp\<lparr>fs_precision := p, fs_width := w\<rparr> = sp\<lparr>fs_width := w, fs_precision := p\<rparr>"
  by (rule fmt_spec.equality) simp_all

lemma scan_directive:
  assumes ok: "item_ok (Directive d)" and at: "drop i fmt = item_bytes (Directive d) @ rest"
    and ext: "extent d ap = Some (width, limit, ap')"
  shows "\<exists>sp. scan_flags fmt (Suc i) ap spec0
      = Some (conv_byte (dv_conv d), i + length (item_bytes (Directive d)), ap', sp)
    \<and> settings sp width limit (padding (dv_flags d)) (Sharp \<in> set (dv_flags d)) (dv_longs d)"
proof -
  let ?longs = "replicate (dv_longs d) (asc (CHR ''l'')) @ [conv_byte (dv_conv d)] @ rest"
  obtain w ap1 where w: "amount_value (dv_width d) ap = Some (w, ap1)"
    using ext by (auto simp: extent_def split: Option.bind_splits)
  have "drop (Suc i) fmt = map flag_byte (dv_flags d) @ amount_bytes (dv_width d) @ prec_bytes (dv_prec d) @ ?longs"
    using fch_drop [of i fmt] at by simp
  note f = scan_flag_list [OF this]
  let ?i1 = "Suc i + length (dv_flags d)" and ?sp1 = "fold apply_flag (dv_flags d) spec0"
  have nd: "no_digit ?longs" "no_digit (prec_bytes (dv_prec d) @ ?longs)"
    by (cases "dv_longs d"; cases "dv_conv d"; cases "dv_prec d"; simp add: no_digit_def prec_bytes_def word_sle_eq)+
  have okw: "amount_ok (dv_width d)" using ok by simp
  have f1: "scan_flags fmt (Suc i) ap spec0 = scan_flags fmt ?i1 ap ?sp1"
    "drop ?i1 fmt = amount_bytes (dv_width d) @ prec_bytes (dv_prec d) @ ?longs" using f by blast+
  note wd = scan_amount(1) [OF f1(2) nd(2) okw w, of ?sp1] scan_amount(2) [OF f1(2) nd(2) okw w]
  let ?i2 = "?i1 + length (amount_bytes (dv_width d))"
  let ?W = "case w of None \<Rightarrow> - 1 | Some v \<Rightarrow> v"
  let ?sp2 = "?sp1\<lparr>fs_width := word_of_int ?W, fs_precision := - 1\<rparr>"
  have sp2: "(case w of None \<Rightarrow> ?sp1 | Some x \<Rightarrow> process_precision (?sp1\<lparr>fs_precision := word_of_int x\<rparr>)) = ?sp2"
    by (cases w) (simp_all add: fold_apply_flag process_precision_def spec0_def word_sless_alt)
  have W: "- 2147483648 \<le> ?W" "?W < 2147483648"
    using amount_value_range [OF w okw] by (auto split: option.splits)
  have sW: "sint (word_of_int ?W :: i32) = ?W" using W by (rule sint_small)
  obtain sp3 i3 where s3: "scan_flags fmt ?i2 ap1 ?sp2 = scan_flags fmt i3 ap' sp3" "drop i3 fmt = ?longs"
      "i3 = ?i2 + length (prec_bytes (dv_prec d))"
      "sint (fs_width sp3) = width" "case limit of None \<Rightarrow> fs_precision sp3 <s 0 | Some v \<Rightarrow> sint (fs_precision sp3) = v \<and> 0 \<le> v"
      "fs_padc sp3 = fs_padc ?sp1" "fs_altflag sp3 = fs_altflag ?sp1" "fs_lflag sp3 = 0"
  proof (cases "dv_prec d")
    case None
    then have e: "width = ?W" "limit = None" "ap' = ap1" using ext w by (auto simp: extent_def)
    show thesis
      by (rule that [of ?i2 ?sp2]) (use e sW wd(2) None in \<open>simp_all add: prec_bytes_def fold_apply_flag spec0_def word_sless_alt\<close>)
  next
    case (Some a)
    then obtain p where p: "amount_value a ap1 = Some (p, ap')" and e: "width = max 0 ?W"
        "limit = (case p of None \<Rightarrow> None | Some v \<Rightarrow> if 0 \<le> v then Some v else None)"
      using ext w by (auto simp: extent_def max_def split: Option.bind_splits option.splits)
    let ?sp = "?sp1\<lparr>fs_width := word_of_int (max 0 ?W), fs_precision := - 1\<rparr>"
    have dot: "drop ?i2 fmt = asc (CHR ''.'') # amount_bytes a @ ?longs"
      using wd(2) Some by (simp add: prec_bytes_def)
    note c = fch_drop [OF dot]
    have okp: "amount_ok a" using ok Some by simp
    have "scan_flags fmt ?i2 ap1 ?sp2 = scan_flags fmt (Suc ?i2) ap1 ?sp"
      using c sW by (cases "?W < 0"; subst scan_flags.simps) (simp_all add: Let_def word_sless_alt max_def spec_update_order)
    moreover note scan_amount(1) [OF conjunct2 [OF c] nd(1) okp p, of ?sp] scan_amount(2) [OF conjunct2 [OF c] nd(1) okp p]
    moreover have sM: "sint (word_of_int (max 0 ?W) :: i32) = max 0 ?W" using W by (intro sint_small) auto
    then have "(case p of None \<Rightarrow> ?sp | Some x \<Rightarrow> process_precision (?sp\<lparr>fs_precision := word_of_int x\<rparr>))
        = ?sp\<lparr>fs_precision := word_of_int (case p of None \<Rightarrow> - 1 | Some x \<Rightarrow> x)\<rparr>"
      by (cases p) (simp_all add: process_precision_def word_sless_alt)
    moreover have "sint (word_of_int x :: i32) = x" if "p = Some x" for x
      using amount_value_range [OF p okp] that by (intro sint_small) auto
    ultimately show thesis using Some e sM
      by (intro that [of "Suc ?i2 + length (amount_bytes a)" "?sp\<lparr>fs_precision := word_of_int (case p of None \<Rightarrow> - 1 | Some x \<Rightarrow> x)\<rparr>"])
        (simp_all add: prec_bytes_def fold_apply_flag spec0_def word_sless_alt split: option.split)
  qed
  let ?sp4 = "sp3\<lparr>fs_lflag := of_nat (dv_longs d)\<rparr>"
  have l: "scan_flags fmt i3 ap' sp3 = scan_flags fmt (i3 + dv_longs d) ap' ?sp4"
    "drop (i3 + dv_longs d) fmt = [conv_byte (dv_conv d)] @ rest"
    using scan_longs [OF s3(2), of ap' sp3] s3(8) by simp_all
  have "scan_flags fmt (i3 + dv_longs d) ap' ?sp4 = Some (conv_byte (dv_conv d), Suc (i3 + dv_longs d), ap', ?sp4)"
    using fch_drop [OF l(2) [simplified]] by (subst scan_flags.simps) (cases "dv_conv d"; simp add: Let_def)
  then have scan: "scan_flags fmt (Suc i) ap spec0 = Some (conv_byte (dv_conv d), i + length (item_bytes (Directive d)), ap', ?sp4)"
    using f1(1) wd(1) sp2 s3(1,3) l(1) by (simp add: algebra_simps)
  have "2 \<le>s (of_nat (dv_longs d) :: i32) \<longleftrightarrow> 2 \<le> dv_longs d"
    using ok sint_small [of "int (dv_longs d)"] by (simp add: word_sle_eq)
  moreover have "fs_padc ?sp1 = (case filter (\<lambda>f. f \<noteq> Sharp) (rev (dv_flags d)) of [] \<Rightarrow> asc (CHR '' '') | f # _ \<Rightarrow> flag_byte f)"
    "fs_altflag ?sp1 \<longleftrightarrow> Sharp \<in> set (dv_flags d)"
    by (simp_all add: fold_apply_flag spec0_def cong: list.case_cong)
  ultimately have "settings ?sp4 width limit (padding (dv_flags d)) (Sharp \<in> set (dv_flags d)) (dv_longs d)"
    using s3(4-7) padding_flags [of "dv_flags d"] unfolding settings_def by (simp split: option.splits)
  with scan show ?thesis by blast
qed

section \<open>The conversions\<close>

lemma quad_value: "uint (ucast (lo :: u32) OR push_bit 32 (ucast (hi :: u32)) :: u64) = uint lo + 4294967296 * uint hi"
proof -
  have "ucast lo OR push_bit 32 (ucast hi) = (ucast lo + push_bit 32 (ucast hi) :: u64)"
    by (rule disjunctive_add [symmetric]) (auto simp: bit_simps dest: bit_imp_le_length)
  moreover have "uint (ucast hi :: u64) = uint hi" "uint (ucast lo :: u64) = uint lo"
    using uint_lt2p [of hi] uint_lt2p [of lo] by (simp_all add: unsigned_ucast_eq take_bit_int_eq_self)
  moreover from this have "uint (push_bit 32 (ucast hi) :: u64) = take_bit 64 (push_bit 32 (uint hi))"
    by (simp only: unsigned_push_bit_eq) simp
  then have "uint (push_bit 32 (ucast hi) :: u64) = 4294967296 * uint hi"
    using uint_lt2p [of hi] by (simp add: push_bit_eq_mult take_bit_int_eq_self)
  ultimately show ?thesis
    using uint_lt2p [of lo] uint_lt2p [of hi] by (simp add: uint_word_ariths)
qed

lemma sint_as_uint:
  "sint (w :: u32) = (if uint w < 2147483648 then uint w else uint w - 4294967296)"
  "sint (w' :: u64) = (if uint w' < 9223372036854775808 then uint w' else uint w' - 18446744073709551616)"
proof -
  have top: "x div n = (if x < n then 0 else 1)" if "0 \<le> x" "x < 2 * n" for x n :: int
    using that int_div_pos_eq [of x n 1 "x - n"] by auto
  have "bit (uint w) 31 \<longleftrightarrow> \<not> uint w < 2147483648" "bit (uint w') 63 \<longleftrightarrow> \<not> uint w' < 9223372036854775808"
    using uint_lt2p [of w] uint_lt2p [of w'] top [of "uint w" 2147483648] top [of "uint w'" 9223372036854775808]
    by (simp_all add: bit_iff_odd)
  then show "sint w = (if uint w < 2147483648 then uint w else uint w - 4294967296)"
    "sint w' = (if uint w' < 9223372036854775808 then uint w' else uint w' - 18446744073709551616)"
    using uint_lt2p [of w] uint_lt2p [of w']
    by (simp_all add: sint_uint signed_take_bit_eq_take_bit_minus take_bit_int_eq_self)
qed

lemma sint_widen:
  "sint (scast (w :: u32) :: u64) = sint w" "sint (scast (x :: u8) :: i32) = sint x"
proof -
  show "sint (scast w :: u64) = sint w"
    using sint32_range [of w] by (simp add: signed_scast_eq) (rule signed_take_bit_int_eq_self, simp_all)
  show "sint (scast x :: i32) = sint x"
    using sint_ge [of x] sint_lt [of x] by (simp add: signed_scast_eq) (rule signed_take_bit_int_eq_self, simp_all)
qed

lemma natural_arg_getuint:
  assumes "natural_arg longs ap = Some (n, ap')" and "2 \<le>s lflag \<longleftrightarrow> 2 \<le> longs"
  shows "\<exists>w. getuint ap lflag = Some (w, ap') \<and> unat w = n"
proof (cases "2 \<le> longs")
  case False
  then obtain lo where "ap = Slot lo # ap'" "n = unat lo"
    using assms(1) by (auto simp: natural_arg_def split: list.splits vararg.splits)
  moreover have "unat (ucast lo :: u64) = unat lo"
    using unat_lt32 [of lo] by (simp add: unsigned_ucast_eq take_bit_nat_eq_self)
  ultimately show ?thesis using False assms(2) by (simp add: getuint_def)
next
  case True
  then obtain lo hi where "ap = Slot lo # Slot hi # ap'" "n = unat lo + 4294967296 * unat hi"
    using assms(1) by (auto simp: natural_arg_def split: list.splits vararg.splits if_splits)
  moreover have "unat (ucast lo OR push_bit 32 (ucast hi) :: u64) = unat lo + 4294967296 * unat hi"
    using arg_cong [OF quad_value [of lo hi], of nat] by (simp add: nat_add_distrib nat_mult_distrib)
  ultimately show ?thesis using True assms(2) by (simp add: getuint_def)
qed

lemma integer_arg_getint:
  assumes "integer_arg longs ap = Some (v, ap')" and "2 \<le>s lflag \<longleftrightarrow> 2 \<le> longs"
  shows "\<exists>w. getint ap lflag = Some (w, ap') \<and> sint w = v"
proof -
  obtain n where n: "natural_arg longs ap = Some (n, ap')"
    and v: "v = (let k = (if longs < 2 then 32 else 64) in if int n < 2 ^ (k - 1) then int n else int n - 2 ^ k)"
    using assms(1) by (auto simp: integer_arg_def)
  show ?thesis
  proof (cases "2 \<le> longs")
    case False
    then obtain lo where lo: "ap = Slot lo # ap'" "n = unat lo"
      using n by (auto simp: natural_arg_def split: list.splits vararg.splits)
    have "sint (scast lo :: u64) = v"
      using False v lo(2) sint_as_uint(1) [of lo] by (simp add: sint_widen)
    with False lo assms(2) show ?thesis by (simp add: getint_def)
  next
    case True
    then obtain w where w: "getuint ap lflag = Some (w, ap')" "unat w = n"
      using natural_arg_getuint [OF n assms(2)] by blast
    then have "sint w = v" using v True sint_as_uint(2) [of w] by (simp flip: w(2))
    with w True assms(2) show ?thesis by (simp add: getint_def getuint_def)
  qed
qed

lemma error_message_text: "error_message (sint w) = Some t \<Longrightarrow> error_text w = Some t"
proof -
  assume t: "error_message (sint w) = Some t"
  let ?n = "nat \<bar>sint w\<bar>"
  have gap: "nat (- 1 - int (length xs)) = 0" for xs :: "nat list" by simp
  consider "?n = 0 \<or> 7 \<le> ?n" | "?n \<in> {1, 2, 3, 4, 5, 6}" by (cases "?n < 7") (auto simp: less_Suc_eq numeral_eq_Suc)
  then show ?thesis
  proof cases
    case 1
    then show ?thesis using t
      by (auto simp: error_message_def error_names_def error_text_def number_text_def gap Let_def split: if_splits)
  next
    case 2
    then show ?thesis using t
      by (auto simp: error_message_def error_names_def error_text_def error_string_def Let_def split: if_splits)
  qed
qed

lemma string_field_text:
  assumes "settings sp width limit pad alt longs"
  shows "string_text sp xs = string_field width limit pad alt xs"
proof -
  have lim: "take (shown (fs_precision sp) xs) xs = (case limit of None \<Rightarrow> xs | Some v \<Rightarrow> take (nat v) xs)"
    "shown (fs_precision sp) xs = length (case limit of None \<Rightarrow> xs | Some v \<Rightarrow> take (nat v) xs)"
    using assms by (auto simp: settings_def shown_def word_sless_alt min_def split: option.splits)
  have ch: "char_text alt x = (if alt \<and> (sint x < 32 \<or> 126 < sint x) then 63 else scast x)" for x
    by (auto simp: char_text_def word_sless_alt sint_widen Let_def)
  show ?thesis
    using assms lim by (auto simp: settings_def string_text_def string_field_def ch [abs_def] word_sless_alt Let_def)
qed

lemma conv_meaning_text:
  assumes set: "settings sp width limit pad alt longs" and width: "- 1073741824 \<le> width" and c: "c \<noteq> Error_conv"
    and t: "conv_meaning c width limit pad alt longs ap = Some (t, ap')"
  shows "conv_text (conv_byte c) ap sp = Some (t, ap')"
proof -
  have sp: "sint (fs_width sp) = width" "scast (fs_padc sp) = pad" "2 \<le>s fs_lflag sp \<longleftrightarrow> 2 \<le> longs"
    using set by (simp_all add: settings_def)
  note str = string_field_text [OF set]
  have num: "\<exists>w. getuint ap (fs_lflag sp) = Some (w, ap1) \<and> unat w = n" if "natural_arg longs ap = Some (n, ap1)" for n ap1
    using natural_arg_getuint [OF that sp(3)] .
  show ?thesis
  proof (cases c)
    case Signed_conv
    then obtain v where v: "integer_arg longs ap = Some (v, ap')"
        "t = (if v < 0 then [45] else []) @ number_text 10 (nat \<bar>v\<bar>) width pad"
      using t by auto
    obtain w where w: "getint ap (fs_lflag sp) = Some (w, ap')" "sint w = v"
      using integer_arg_getint [OF v(1) sp(3)] by blast
    have "unat (- w) = nat \<bar>v\<bar>" if "v < 0"
    proof -
      have "uint w \<noteq> v" using that uint_nonnegative [of w] by linarith
      then have "uint w = v + 18446744073709551616" using w(2) sint_as_uint(2) [of w] by (simp split: if_splits)
      moreover from this have "- v < 18446744073709551616" using w(2) sint_ge [of w] by simp
      ultimately have "(- uint w) mod 18446744073709551616 = - v" using that
        by (subst mod_add_self2 [of "- uint w" 18446744073709551616, symmetric]) simp
      then have "uint (- w) = - v" by (simp add: uint_word_ariths)
      with that show ?thesis by (metis abs_of_neg nat_uint_eq)
    qed
    moreover have "unat w = nat \<bar>v\<bar>" if "\<not> v < 0"
    proof -
      have "uint w = v" using that w(2) sint_as_uint(2) [of w] uint_lt2p [of w] by (simp split: if_splits)
      with that show ?thesis by (metis abs_of_nonneg linorder_not_less nat_uint_eq)
    qed
    ultimately have "signed_text w sp = t"
      using v(2) w(2) by (simp add: signed_text_def sp word_sless_alt)
    with Signed_conv width w(1) show ?thesis by (simp add: conv_text_def sp Let_def)
  next
    case Pointer_conv
    then obtain n where n: "natural_arg 0 ap = Some (n, ap')" "t = [48, 120] @ number_text 16 n width pad" using t by auto
    then obtain lo where "ap = Slot lo # ap'" "n = unat lo" by (auto simp: natural_arg_def split: list.splits vararg.splits)
    with Pointer_conv width n(2) show ?thesis by (simp add: conv_text_def sp Let_def)
  next
    case String_conv
    then obtain a where a: "ap = a # ap'"
      using t by (cases "(c, width, limit, pad, alt, longs, ap)" rule: conv_meaning.cases) (auto split: if_splits)
    with String_conv t width show ?thesis by (cases a) (auto simp: conv_text_def sp str Let_def split: if_splits)
  next
    case Char_conv
    then obtain w where "ap = Slot w # ap'" "t = [w]"
      using t by (cases "(c, width, limit, pad, alt, longs, ap)" rule: conv_meaning.cases) auto
    with Char_conv width show ?thesis by (simp add: conv_text_def sp Let_def)
  next
    case Percent_conv
    with t width show ?thesis by (simp add: conv_text_def sp Let_def)
  next
    case Error_conv
    with c show ?thesis by simp
  qed (use t width num in \<open>fastforce simp: conv_text_def sp Let_def\<close>)+
qed

lemma items_render:
  "\<forall>it \<in> set its. item_ok it \<Longrightarrow> drop i fmt = concat (map item_bytes its) \<Longrightarrow> items_text its ap = Some out \<Longrightarrow>
    render fmt i ap = Some out"
proof (induction its arbitrary: i ap out)
  case Nil
  then show ?case using fch_end [of i fmt] by (subst render.simps) simp
next
  case (Cons it its)
  let ?rest = "concat (map item_bytes its)"
  show ?case
  proof (cases it)
    case (Plain c)
    then obtain t where t: "items_text its ap = Some t" "out = ucast c # t" using Cons.prems(3) by auto
    have "fch fmt i = c" "drop (Suc i) fmt = ?rest" using fch_drop [of i fmt c ?rest] Cons.prems(2) Plain by auto
    moreover from this have "render fmt (Suc i) ap = Some t" using Cons.IH t(1) Cons.prems(1) by auto
    ultimately show ?thesis using Cons.prems(1) Plain t(2) by (subst render.simps) simp
  next
    case (Directive d)
    obtain width limit ap1 t ap2 u where ext: "extent d ap = Some (width, limit, ap1)" and width: "- 1073741824 \<le> width"
      and t: "conv_meaning (dv_conv d) width limit (padding (dv_flags d)) (Sharp \<in> set (dv_flags d)) (dv_longs d) ap1 = Some (t, ap2)"
      and u: "items_text its ap2 = Some u" "out = t @ u"
      using Cons.prems(3) Directive by (auto split: Option.bind_splits if_splits)
    have at: "drop i fmt = item_bytes (Directive d) @ ?rest" and ok: "item_ok (Directive d)"
      using Cons.prems(1,2) Directive by auto
    have pc: "fch fmt i = asc (CHR ''%'')" using fch_drop [of i fmt] at by simp
    from scan_directive [OF ok at ext] obtain sp where
      scan: "scan_flags fmt (Suc i) ap spec0 = Some (conv_byte (dv_conv d), i + length (item_bytes (Directive d)), ap1, sp)"
        "settings sp width limit (padding (dv_flags d)) (Sharp \<in> set (dv_flags d)) (dv_longs d)" by blast
    have "drop (i + length (item_bytes (Directive d))) fmt = ?rest"
      using at by (metis add.commute append_eq_conv_conj drop_drop)
    then have rest: "render fmt (i + length (item_bytes (Directive d))) ap2 = Some u"
      using Cons.IH u(1) Cons.prems(1) by auto
    show ?thesis
    proof (cases "dv_conv d = Error_conv")
      case True
      then obtain w where "ap1 = Slot w # ap2" "error_message (sint w) = Some t"
        using t by (cases "(dv_conv d, width, limit, padding (dv_flags d), Sharp \<in> set (dv_flags d), dv_longs d, ap1)" rule: conv_meaning.cases) auto
      with True pc scan(1) rest u(2) show ?thesis
        by (subst render.simps) (simp add: error_message_text del: item_bytes.simps)
    next
      case False
      have "is_conv (conv_byte (dv_conv d)) \<and> conv_byte (dv_conv d) \<noteq> asc (CHR ''e'')"
        using False by (cases "dv_conv d") (simp_all add: is_conv_def)
      with pc scan(1) conv_meaning_text [OF scan(2) width False t] rest u(2) show ?thesis
        by (subst render.simps) (simp del: item_bytes.simps)
    qed
  qed
qed

text \<open>
  C2: on every sink, a format written from its items prints what the items mean, one \<open>putch\<close> per
  character in order: each directive its argument with its flags, width, precision and length modifiers.
  String arguments may be literals or lie in memory that the printing leaves alone.
\<close>

theorem vprintfmt_prints_items:
  assumes "sink putch Inv" and "\<forall>it \<in> set its. item_ok it" and "items_text its ap' = Some out"
    and "list_all2 (resolves rd Inv) ap ap'" and "Inv s"
  shows "printfmt putch rd (concat (map item_bytes its)) ap s = Some (fold putch out s)"
  unfolding printfmt_def using items_render [OF assms(2) _ assms(3)] assms(4,5)
  by (intro sink.vprintfmt_render [OF assms(1)]) simp_all

definition demo_items :: "item list" where
  "demo_items =
    [Directive \<lparr>dv_flags = [Zero], dv_width = Fixed 6, dv_prec = None, dv_longs = 0, dv_conv = Signed_conv\<rparr>, Plain 58,
     Directive \<lparr>dv_flags = [Sharp], dv_width = Fixed 12, dv_prec = Some (Fixed 3), dv_longs = 0, dv_conv = String_conv\<rparr>,
     Directive \<lparr>dv_flags = [Dash], dv_width = Star, dv_prec = None, dv_longs = 2, dv_conv = Hex_conv\<rparr>]"

lemma demo_digits: "digits 10 42 = [4, 2]" "digits 16 4295016175 = [1, 0, 0, 0, 0, 11, 14, 14, 15]"
  "digits 10 6 = [6]" "digits 10 12 = [1, 2]" "digits 10 3 = [3]"
  by (simp_all add: digits.simps)

lemma demo_numbers1: "number_text 10 42 6 48 = map ucast (ascii ''000042'')"
  by (simp add: number_text_def demo_digits digit_text_def replicate_num)

lemma demo_numbers2: "number_text 16 4295016175 11 45 = map ucast (ascii ''--10000beef'')"
  by (simp add: number_text_def demo_digits digit_text_def replicate_num)

lemma demo_string: "string_field 12 (Some 3) 32 True [97,7,98,99] = map ucast (ascii ''         a?b'')"
  by (simp add: string_field_def replicate_num)

lemma demo_arg1: "integer_arg 0 (Slot (- 42) # ap) = Some (- 42, ap)"
  by (simp add: integer_arg_def natural_arg_def)

lemma demo_arg2: "natural_arg 2 (Slot 0xbeef # Slot 1 # ap) = Some (4295016175, ap)"
  by (simp add: natural_arg_def)

theorem vprintfmt_prints_items_witness:
  "printfmt collect (\<lambda>_. image 64 [97, 7, 98, 99]) (ascii ''%06d:%#12.3s%-*llx'')
     [Slot (- 42), Slot 64, Slot 11, Slot 0xbeef, Slot 1] []
   = Some (map ucast (ascii ''-000042:         a?b--10000beef''))"
proof -
  let ?rd = "\<lambda>_ :: i32 list. image 64 [97, 7, 98, 99]"
  have sink: "sink collect (\<lambda>_. True)" by unfold_locales
  have bytes: "concat (map item_bytes demo_items) = ascii ''%06d:%#12.3s%-*llx''"
    by (simp add: demo_items_def decimal_def demo_digits digit_text_def prec_bytes_def replicate_num)
  have ok: "\<forall>it \<in> set demo_items. item_ok it" by (simp add: demo_items_def)
  have out: "items_text demo_items [Slot (- 42), Lit [97, 7, 98, 99], Slot 11, Slot 0xbeef, Slot 1]
      = Some (map ucast (ascii ''-000042:         a?b--10000beef''))"
    by (simp add: demo_items_def extent_def padding_def demo_numbers1 demo_numbers2 demo_string demo_arg1 demo_arg2)
  have "cstr (image 64 [97, 7, 98, 99]) 64 [97, 7, 98, 99]" by (simp add: image_def)
  then have args: "list_all2 (resolves ?rd (\<lambda>_. True)) [Slot (- 42), Slot 64, Slot 11, Slot 0xbeef, Slot 1]
      [Slot (- 42), Lit [97, 7, 98, 99], Slot 11, Slot 0xbeef, Slot 1]"
    by (simp add: resolves_def)
  show ?thesis using vprintfmt_prints_items [OF sink ok out args TrueI, of "[]"] unfolding bytes fold_collect append_Nil .
qed

end
