(* ===== verification/String_Props.thy ===== *)
theory String_Props
  imports String_Laws
begin

text \<open>
  What the callers of lib/string.c rely on: block moves and fills, comparisons as the order of
  the strings, bounded copies, and the loops of the parser \<open>strtol\<close>.
\<close>

section \<open>Blocks\<close>

text \<open>
  C14: \<open>memmove\<close> copies the source as it was, overlapping or not and whichever of its four
  string-instruction paths it takes, and changes nothing else.
\<close>

theorem memmove_correct:
  assumes "unat src + unat n \<le> 4294967296" and "unat dst + unat n \<le> 4294967296"
  shows "read_bytes (memmove dst src n m) dst (unat n) = read_bytes m src (unat n)
    \<and> (\<forall>a. memmove dst src n m a = (if in_rng a dst (unat n) then m (src + (a - dst)) else m a))"
proof
  have mv: "memmove dst src n m = moved (unat n) dst src m" by (rule memmove_moved [OF assms])
  have "unat n \<le> 4294967296" using assms by simp
  then show "read_bytes (memmove dst src n m) dst (unat n) = read_bytes m src (unat n)"
    by (intro nth_equalityI) (simp_all add: mv nth_read_bytes moved_def in_rng_offset)
  show "\<forall>a. memmove dst src n m a = (if in_rng a dst (unat n) then m (src + (a - dst)) else m a)"
    by (simp add: mv moved_def)
qed

theorem memmove_correct_witness:
  "read_bytes (memmove 17 16 4 (image 16 [1, 2, 3, 4, 5, 6])) 16 6 = [1, 1, 2, 3, 4, 6]"
proof -
  have b: "unat (16 :: u32) + unat (4 :: u32) \<le> 4294967296"
      "unat (17 :: u32) + unat (4 :: u32) \<le> 4294967296" by simp_all
  have six: "(6 :: nat) = Suc (Suc (Suc (Suc (Suc (Suc 0)))))" by simp
  have "\<forall>a. memmove 17 16 4 (image 16 [1, 2, 3, 4, 5, 6]) a =
      (if in_rng a 17 4 then image 16 [1, 2, 3, 4, 5, 6] (16 + (a - 17))
       else image 16 [1, 2, 3, 4, 5, 6] a)"
    using memmove_correct [OF b, of "image 16 [1, 2, 3, 4, 5, 6]"] by simp
  moreover have "unat (- 1 :: u32) = 4294967295"
    by (simp add: unsigned_minus_1_eq_mask mask_eq_exp_minus_1)
  ultimately show ?thesis unfolding six by (simp add: in_rng_def image_def)
qed

text \<open>\<open>memset\<close> fills exactly the \<open>n\<close> bytes, through bytes or, when aligned, words.\<close>

theorem memset_fills:
  "memset v c n m a = (if in_rng a v (unat n) then ucast c else m a)"
  by (rule memset_apply)

section \<open>Strings\<close>

text \<open>
  C30: on NUL-terminated strings \<open>strcmp\<close> returns, its result is a three-way comparison in the
  dictionary order by unsigned bytes, and \<open>strncmp\<close> is the same on the first \<open>n\<close> bytes.
\<close>

theorem strcmp_order:
  assumes "cstr mp p xs" and "cstr mq q ys"
  shows "(\<exists>r. strcmp mp p mq q = Some r \<and> (r = 0 \<longleftrightarrow> xs = ys)
      \<and> (r <s 0 \<longleftrightarrow> C_String xs < C_String ys) \<and> (0 <s r \<longleftrightarrow> C_String ys < C_String xs))
    \<and> (let r = strncmp mp p mq q n; xs' = take (unat n) xs; ys' = take (unat n) ys
       in (r = 0 \<longleftrightarrow> xs' = ys') \<and> (r <s 0 \<longleftrightarrow> C_String xs' < C_String ys') \<and> (0 <s r \<longleftrightarrow> C_String ys' < C_String xs'))"
proof
  from strcmp_cstr [OF assms] obtain r where "strcmp mp p mq q = Some r" "cmp_result r xs ys" by blast
  with cmp_result_order [of r xs ys] show "\<exists>r. strcmp mp p mq q = Some r \<and> (r = 0 \<longleftrightarrow> xs = ys)
      \<and> (r <s 0 \<longleftrightarrow> C_String xs < C_String ys) \<and> (0 <s r \<longleftrightarrow> C_String ys < C_String xs)" by blast
  show "let r = strncmp mp p mq q n; xs' = take (unat n) xs; ys' = take (unat n) ys
       in (r = 0 \<longleftrightarrow> xs' = ys') \<and> (r <s 0 \<longleftrightarrow> C_String xs' < C_String ys') \<and> (0 <s r \<longleftrightarrow> C_String ys' < C_String xs')"
    unfolding Let_def using cmp_result_order [OF strncmp_cstr [OF assms, of n]] by blast
qed

theorem strcmp_order_witness:
  "(\<exists>r. strcmp (image 16 [104, 101]) 16 (lit [104, 105]) 1 = Some r \<and> r <s 0)
   \<and> strncmp (image 16 [104, 101]) 16 (lit [104, 105]) 1 1 = 0"
proof -
  have c: "cstr (image 16 [104, 101]) 16 [104, 101]" "cstr (lit [104, 105]) 1 [104, 105]"
    by (simp_all add: image_def lit_def)
  show ?thesis using strcmp_order [OF c, of 1] by (auto simp: C_String_less Let_def)
qed

text \<open>So the results chain as in any linear order.\<close>

lemma strcmp_transitive:
  assumes c: "cstr mp p xs" "cstr mq q ys" "cstr mw w zs"
    and "strcmp mp p mq q = Some a" "a <s 0" and "strcmp mq q mw w = Some b" "b <s 0"
  shows "\<exists>r. strcmp mp p mw w = Some r \<and> r <s 0"
proof -
  have "C_String xs < C_String ys" "C_String ys < C_String zs"
    using strcmp_cstr [OF c(1,2)] strcmp_cstr [OF c(2,3)] cmp_result_order(2) assms by fastforce+
  then have "C_String xs < C_String zs" by (rule less_trans)
  with strcmp_cstr [OF c(1,3)] cmp_result_order(2) show ?thesis by blast
qed

text \<open>
  C31: \<open>strlcpy\<close> copies what fits before a NUL, writes only those bytes, and returns their number
  (and not the length of the source, as the BSD function does).
\<close>

theorem strlcpy_bounded:
  assumes "cstr m src xs" and "0 < sz"
    and "\<forall>a. in_rng a dst (unat sz) \<longrightarrow> \<not> in_rng a src (Suc (length xs))"
  shows "strlcpy dst src sz m =
    (of_nat (min (length xs) (unat sz - 1)), write_bytes (take (unat sz - 1) xs @ [0]) dst m)"
  by (rule strlcpy_write [OF assms(1,2)]) (use assms(3) in blast)

theorem strlcpy_bounded_witness:
  "strlcpy 64 16 3 (image 16 [97, 98, 99]) = (2, write_bytes [97, 98, 0] 64 (image 16 [97, 98, 99]))"
proof -
  have c: "cstr (image 16 [97, 98, 99]) 16 [97, 98, 99]" by (simp add: image_def)
  have pos: "0 < (3 :: u32)" by simp
  have "\<not> in_rng a 16 (Suc (length [97, 98, 99 :: u8]))" if "in_rng a 64 (unat (3 :: u32))" for a
  proof -
    have "in_rng a 64 (Suc (Suc (Suc 0)))" using that by (simp flip: numeral_3_eq_3)
    then have "a = 64 \<or> a = 65 \<or> a = 66" by (simp add: in_rng_Suc)
    then show ?thesis by (auto simp: in_rng_def)
  qed
  then show ?thesis using strlcpy_bounded [OF c pos, of 64] by simp
qed

section \<open>strtol\<close>

text \<open>The value of a digit character, as \<open>strtol\<close> reads it.\<close>

lemma skip_blanks_app:
  "cstr m p (bs @ xs) \<Longrightarrow> set bs \<subseteq> {32, 9} \<Longrightarrow> m (p + of_nat (length bs)) \<notin> {32, 9} \<Longrightarrow>
    skip_blanks m p = Some (p + of_nat (length bs))"
proof (induction bs arbitrary: p)
  case Nil
  then show ?case by (subst skip_blanks.simps) simp
next
  case (Cons b bs)
  then show ?case by (subst skip_blanks.simps) (auto simp: algebra_simps)
qed

lemma strtol_digits_run:
  "cstr m p (ds @ rest) \<Longrightarrow> list_all2 (\<lambda>x d. strtol_digit x = Some (of_nat d) \<and> d < b) ds vs \<Longrightarrow>
    b \<le> 36 \<Longrightarrow>
    (case strtol_digit (m (p + of_nat (length ds))) of None \<Rightarrow> True | Some d \<Rightarrow> of_nat b \<le>s d) \<Longrightarrow>
    strtol_digits m p (of_nat b) val =
      Some (foldl (\<lambda>a d. a * of_nat b + of_nat d) val vs, p + of_nat (length ds))"
proof (induction ds arbitrary: p val vs)
  case Nil
  then show ?case by (subst strtol_digits.simps) (auto split: option.splits)
next
  case (Cons x ds)
  then obtain d vs' where vs: "vs = d # vs'" "strtol_digit x = Some (of_nat d)" "d < b"
      "list_all2 (\<lambda>x d. strtol_digit x = Some (of_nat d) \<and> d < b) ds vs'"
    by (auto simp: list_all2_Cons1)
  have "sint (of_nat d :: i32) = int d" "sint (of_nat b :: i32) = int b"
    using vs(3) Cons.prems(3) by (simp_all add: signed_of_nat signed31)
  then have lt: "\<not> (of_nat b :: i32) \<le>s of_nat d" using vs(3) by (simp add: word_sle_eq)
  have "strtol_digits m (p + 1) (of_nat b) (val * of_nat b + of_nat d) =
      Some (foldl (\<lambda>a d. a * of_nat b + of_nat d) (val * of_nat b + of_nat d) vs',
        p + 1 + of_nat (length ds))"
    using Cons.prems vs(4) by (intro Cons.IH) (simp_all add: algebra_simps)
  moreover have "m p = x" using Cons.prems(1) by simp
  ultimately show ?case
    using vs lt by (subst strtol_digits.simps) (simp add: algebra_simps)
qed

end
