(* ===== verification/String_Fallback.thy ===== *)
theory String_Fallback
  imports String_Laws
begin

text \<open>
  The portable versions of \<open>memset\<close> and \<open>memmove\<close> in lib/string.c, which are compiled when \<open>ASM\<close>
  is not set, and their agreement with the assembly versions.  In the source both pairs have the
  same names; here the portable ones end in \<open>_c\<close>.
\<close>

section \<open>The portable loops\<close>

text \<open>The loop \<open>while (--m >= 0) *p++ = c\<close>: the counter is an int.\<close>

function memset_c_loop :: "i32 \<Rightarrow> u8 \<Rightarrow> u32 \<Rightarrow> memory \<Rightarrow> memory" where
  "memset_c_loop m c p mm =
     (let m1 = m - 1 in if 0 \<le>s m1 then memset_c_loop m1 c (p + 1) (mm(p := c)) else mm)"
  by pat_completeness auto

lemma unat_count_down: "0 \<le>s (m - 1 :: i32) \<Longrightarrow> unat m = Suc (unat (m - 1))"
  by (rule unat_Suc_pred) (auto simp: word_sle_eq)

termination memset_c_loop
  by (relation "measure (\<lambda>(m, _). unat m)") (use unat_count_down in auto)

declare memset_c_loop.simps [simp del]

definition memset_c :: "u32 \<Rightarrow> i32 \<Rightarrow> u32 \<Rightarrow> memory \<Rightarrow> memory" where
  "memset_c v c n mm = memset_c_loop n (ucast c) v mm"

text \<open>The loops \<open>while (n-- > 0)\<close> of \<open>memmove\<close>, downwards from the ends and upwards from the beginnings.\<close>

primrec copy_down :: "nat \<Rightarrow> u32 \<Rightarrow> u32 \<Rightarrow> memory \<Rightarrow> memory" where
  "copy_down 0 d s m = m"
| "copy_down (Suc n) d s m = copy_down n (d - 1) (s - 1) (m(d - 1 := m (s - 1)))"

primrec copy_up :: "nat \<Rightarrow> u32 \<Rightarrow> u32 \<Rightarrow> memory \<Rightarrow> memory" where
  "copy_up 0 d s m = m"
| "copy_up (Suc n) d s m = copy_up n (d + 1) (s + 1) (m(d := m s))"

definition memmove_c :: "u32 \<Rightarrow> u32 \<Rightarrow> u32 \<Rightarrow> memory \<Rightarrow> memory" where
  "memmove_c dst src n m =
     (if src < dst \<and> dst < src + n
      then let s = src + n; d = dst + n in copy_down (unat n) d s m
      else copy_up (unat n) dst src m)"

section \<open>The loops and the string instructions\<close>

lemma memset_c_loop_rep: "unat m < 2147483648 \<Longrightarrow> memset_c_loop m c p mm = rep_stosb (unat m) c p mm"
proof (induction m c p mm rule: memset_c_loop.induct)
  case (1 m c p mm)
  show ?case
  proof (cases "m = 0")
    case True
    then show ?thesis by (simp add: memset_c_loop.simps [of 0])
  next
    case False
    then have k: "unat m = Suc (unat (m - 1))" by (rule unat_Suc_pred)
    then have "0 \<le>s m - 1" using 1(2) by (simp add: zero_sle)
    moreover have "memset_c_loop (m - 1) c (p + 1) (mm(p := c)) = rep_stosb (unat (m - 1)) c (p + 1) (mm(p := c))"
      using 1(2) k by (intro 1(1) refl) (simp_all add: zero_sle)
    ultimately show ?thesis using k by (subst memset_c_loop.simps) simp
  qed
qed

lemma memset_c_loop_negative: "2147483648 < unat m \<Longrightarrow> memset_c_loop m c p mm = mm"
proof -
  assume big: "2147483648 < unat m"
  then have "m \<noteq> 0" by auto
  then have "unat m = Suc (unat (m - 1))" by (rule unat_Suc_pred)
  then have "\<not> 0 \<le>s m - 1" using big by (simp add: zero_sle)
  then show ?thesis by (subst memset_c_loop.simps) (simp add: Let_def)
qed

lemma copy_up_rep: "copy_up k d s m = rep_movsb False k d s m"
  by (induction k arbitrary: d s m) simp_all

lemma copy_down_rep: "copy_down k d s m = rep_movsb True k (d - 1) (s - 1) m"
  by (induction k arbitrary: d s m) simp_all

text \<open>
  C15: the portable and the assembly versions agree.  \<open>memmove\<close> does on all blocks that do not wrap
  around the end of memory, and \<open>memset\<close> on all counts that an int can hold.  Above 0x80000000 the count
  that the portable \<open>memset\<close> keeps in an int is negative after the first decrement and it writes nothing.
  At 0x80000000 itself this decrement overflows, which C leaves undefined, and nothing is claimed.
\<close>

theorem block_fallbacks_agree:
  assumes "unat src + unat n \<le> 4294967296" and "unat dst + unat n \<le> 4294967296"
  shows "memmove_c dst src n m = memmove dst src n m
    \<and> (n < 0x80000000 \<longrightarrow> memset_c dst c n m = memset dst c n m)
    \<and> (0x80000000 < n \<longrightarrow> memset_c dst c n m = m)"
proof (intro conjI impI)
  have "memmove_c dst src n m = moved (unat n) dst src m"
    using bytes_down_moved [of src dst n m] bytes_up_moved [OF assms] assms(2)
    by (simp add: memmove_c_def Let_def copy_up_rep copy_down_rep)
  then show "memmove_c dst src n m = memmove dst src n m"
    by (simp only: memmove_moved [OF assms])
  show "memset_c dst c n m = memset dst c n m" if "n < 0x80000000"
    using that by (intro ext) (simp add: memset_c_def memset_c_loop_rep rep_stosb_apply memset_apply word_less_nat_alt)
  show "memset_c dst c n m = m" if "0x80000000 < n"
    using that by (simp add: memset_c_def memset_c_loop_negative word_less_nat_alt)
qed

theorem block_fallbacks_agree_witness:
  "memmove_c 18 16 4 (image 16 [1, 2, 3, 4, 5, 6]) = memmove 18 16 4 (image 16 [1, 2, 3, 4, 5, 6])
    \<and> memset_c 18 7 4 (\<lambda>_. 0) = memset 18 7 4 (\<lambda>_. 0)
    \<and> memset_c 0 7 0xFFFFFFFC (\<lambda>_. 0) = (\<lambda>_. 0)"
proof -
  have b: "unat (16 :: u32) + unat (4 :: u32) \<le> 4294967296"
      "unat (18 :: u32) + unat (4 :: u32) \<le> 4294967296" by simp_all
  have z: "unat (0 :: u32) + unat (0xFFFFFFFC :: u32) \<le> 4294967296" by simp
  show ?thesis
    using block_fallbacks_agree [OF b, of "image 16 [1, 2, 3, 4, 5, 6]" 0]
      block_fallbacks_agree [OF b, of "\<lambda>_. 0" 7] block_fallbacks_agree [OF z z, of "\<lambda>_. 0" 7]
    by simp
qed

end
