(* ===== verification/Boot.thy ===== *)
theory Boot
  imports Machine Mmu
begin

text \<open>
  boot/main.c and inc/elf.h: the boot loader that reads the kernel image from the first IDE disk,
  sector by sector through the ports, and enters it.  Waiting for the disk may take for ever
  (\<open>None\<close>), and so does a segment that reaches the end of the address space, where the loop
  variable wraps.
\<close>

section \<open>ELF structures in memory (inc/elf.h)\<close>

definition ELF_MAGIC :: u32 where [simp]: "ELF_MAGIC = 0x464C457F"

record Elf =
  e_magic :: u32
  e_elf :: "u8 list"
  e_type :: u16
  e_machine :: u16
  e_version :: u32
  e_entry :: u32
  e_phoff :: u32
  e_shoff :: u32
  e_flags :: u32
  e_ehsize :: u16
  e_phentsize :: u16
  e_phnum :: u16
  e_shentsize :: u16
  e_shnum :: u16
  e_shstrndx :: u16

record Proghdr =
  p_type :: u32
  p_offset :: u32
  p_va :: u32
  p_pa :: u32
  p_filesz :: u32
  p_memsz :: u32
  p_flags :: u32
  p_align :: u32

definition elf_at :: "memory \<Rightarrow> u32 \<Rightarrow> Elf" where
  "elf_at m p =
     \<lparr>e_magic = load32 m p, e_elf = read_bytes m (p + 4) 12, e_type = load16 m (p + 16), e_machine = load16 m (p + 18),
      e_version = load32 m (p + 20), e_entry = load32 m (p + 24), e_phoff = load32 m (p + 28),
      e_shoff = load32 m (p + 32), e_flags = load32 m (p + 36), e_ehsize = load16 m (p + 40),
      e_phentsize = load16 m (p + 42), e_phnum = load16 m (p + 44), e_shentsize = load16 m (p + 46),
      e_shnum = load16 m (p + 48), e_shstrndx = load16 m (p + 50)\<rparr>"

definition proghdr_at :: "memory \<Rightarrow> u32 \<Rightarrow> Proghdr" where
  "proghdr_at m p =
     \<lparr>p_type = load32 m p, p_offset = load32 m (p + 4), p_va = load32 m (p + 8),
      p_pa = load32 m (p + 12), p_filesz = load32 m (p + 16), p_memsz = load32 m (p + 20),
      p_flags = load32 m (p + 24), p_align = load32 m (p + 28)\<rparr>"

section \<open>The disk\<close>

definition SECTSIZE :: u32 where [simp]: "SECTSIZE = 512"
definition ELFHDR :: u32 where [simp]: "ELFHDR = 0x10000"

partial_function (option) waitdisk :: "hw \<Rightarrow> 'a machine_scheme \<Rightarrow> 'a machine_scheme option" where
  "waitdisk h s =
     (let (v, s1) = inb h 0x1F7 s
      in if v AND 0xC0 \<noteq> 0x40 then waitdisk h s1 else Some s1)"

definition disk_command :: "u32 \<Rightarrow> 'a machine_scheme \<Rightarrow> 'a machine_scheme" where
  "disk_command offset s =
     (let s1 = outb 0x1F2 1 s;
          s2 = outb 0x1F3 (ucast offset) s1;
          s3 = outb 0x1F4 (ucast (drop_bit 8 offset)) s2;
          s4 = outb 0x1F5 (ucast (drop_bit 16 offset)) s3;
          s5 = outb 0x1F6 (ucast (drop_bit 24 offset OR 0xE0)) s4
      in outb 0x1F7 0x20 s5)"

definition readsect :: "hw \<Rightarrow> u32 \<Rightarrow> u32 \<Rightarrow> 'a machine_scheme \<Rightarrow> 'a machine_scheme option" where
  "readsect h dst offset s =
     do { s1 \<leftarrow> waitdisk h s;
          s2 \<leftarrow> waitdisk h (disk_command offset s1);
          Some (insl h 0x1F0 dst (SECTSIZE div 4) s2) }"

partial_function (option) readseg_loop ::
    "hw \<Rightarrow> u32 \<Rightarrow> u32 \<Rightarrow> u32 \<Rightarrow> 'a machine_scheme \<Rightarrow> 'a machine_scheme option" where
  "readseg_loop h pa end_pa offset s =
     (if pa < end_pa then do {
        s1 \<leftarrow> readsect h pa offset s;
        readseg_loop h (pa + SECTSIZE) end_pa (offset + 1) s1 }
      else Some s)"

definition readseg ::
    "hw \<Rightarrow> u32 \<Rightarrow> u32 \<Rightarrow> u32 \<Rightarrow> 'a machine_scheme \<Rightarrow> 'a machine_scheme option" where
  "readseg h pa count offset s =
     (let end_pa = pa + count
      in readseg_loop h (pa AND NOT (SECTSIZE - 1)) end_pa (offset div SECTSIZE + 1) s)"

section \<open>bootmain\<close>

text \<open>How \<open>bootmain\<close> ends: a jump to the kernel, or the idle loop after the label \<open>bad\<close>.\<close>

datatype 's boot_end = Enter u32 's | Idle 's

partial_function (option) load_segments ::
    "hw \<Rightarrow> u32 \<Rightarrow> u32 \<Rightarrow> 'a machine_scheme \<Rightarrow> 'a machine_scheme option" where
  "load_segments h ph eph s =
     (if ph < eph then do {
        s1 \<leftarrow> readseg h (p_pa (proghdr_at (mem s) ph)) (p_memsz (proghdr_at (mem s) ph))
               (p_offset (proghdr_at (mem s) ph)) s;
        load_segments h (ph + 32) eph s1 }
      else Some s)"

definition bootmain :: "hw \<Rightarrow> 'a machine_scheme \<Rightarrow> 'a machine_scheme boot_end option" where
  "bootmain h s =
     do { s1 \<leftarrow> readseg h ELFHDR (SECTSIZE * 8) 0 s;
          if e_magic (elf_at (mem s1) ELFHDR) \<noteq> ELF_MAGIC
          then Some (Idle (outw 0x8A00 0x8E00 (outw 0x8A00 0x8A00 s1)))
          else do {
            let ph = ELFHDR + e_phoff (elf_at (mem s1) ELFHDR);
            let eph = ph + 32 * ucast (e_phnum (elf_at (mem s1) ELFHDR));
            s2 \<leftarrow> load_segments h ph eph s1;
            Some (Enter (e_entry (elf_at (mem s2) ELFHDR)) s2) } }"

section \<open>What a disk promises\<close>

text \<open>
  An IDE disk with the contents \<open>img\<close>.  Its status register at 0x1F7 may answer busy or not ready any
  number of times, but not for ever.  Nothing is known of the data port but this: when the last
  status read before the command for a sector (28-bit address on the first drive) answered ready, and so
  did the last one after it, then the data port gives that sector word by word.
\<close>

primrec polls :: "hw \<Rightarrow> nat \<Rightarrow> io_event list \<Rightarrow> io_event list" where
  "polls h 0 l = l"
| "polls h (Suc k) l = polls h k (EIn8 0x1F7 (hw_in8 h l 0x1F7) # l)"

definition command_log :: "u32 \<Rightarrow> io_event list" where
  "command_log n =
     [EOut8 0x1F7 0x20, EOut8 0x1F6 (ucast (drop_bit 24 n OR 0xE0)),
      EOut8 0x1F5 (ucast (drop_bit 16 n)), EOut8 0x1F4 (ucast (drop_bit 8 n)),
      EOut8 0x1F3 (ucast n), EOut8 0x1F2 1]"

definition sector :: "(nat \<Rightarrow> u8) \<Rightarrow> nat \<Rightarrow> u8 list" where
  "sector img n = map (\<lambda>i. img (512 * n + i)) [0..<512]"

definition word_of_bytes :: "u8 \<Rightarrow> u8 \<Rightarrow> u8 \<Rightarrow> u8 \<Rightarrow> u32" where
  "word_of_bytes b0 b1 b2 b3 =
     ucast b0 OR push_bit 8 (ucast b1) OR push_bit 16 (ucast b2) OR push_bit 24 (ucast b3)"

definition sector_word :: "(nat \<Rightarrow> u8) \<Rightarrow> nat \<Rightarrow> nat \<Rightarrow> u32" where
  "sector_word img n k =
     (let i = 512 * n + 4 * k in word_of_bytes (img i) (img (i + 1)) (img (i + 2)) (img (i + 3)))"

text \<open>The last access was a status read that answered ready: BSY clear and DRDY set.\<close>

fun answered :: "io_event list \<Rightarrow> bool" where
  "answered (EIn8 p v # l) \<longleftrightarrow> p = 0x1F7 \<and> v AND 0xC0 = 0x40"
| "answered _ \<longleftrightarrow> False"

definition ide_disk :: "hw \<Rightarrow> (nat \<Rightarrow> u8) \<Rightarrow> bool" where
  "ide_disk h img \<longleftrightarrow>
     (\<forall>l. \<exists>k. hw_in8 h (polls h k l) 0x1F7 AND 0xC0 = 0x40)
     \<and> (\<forall>n k j l. unat n < 268435456 \<longrightarrow> k < 128 \<longrightarrow> answered l \<longrightarrow> answered (polls h j (command_log n @ l)) \<longrightarrow>
          hw_in32 h (in32_run 0x1F0 (sector_word img (unat n)) k (polls h j (command_log n @ l))) 0x1F0
            = sector_word img (unat n) k)"

end
