(* ===== verification/Boot_Laws.thy ===== *)
theory Boot_Laws
  imports Boot String_Mem
begin

text \<open>
  The boot loader against a disk: a sector read stores the sector, a segment read is the
  abstract \<open>load_seg\<close>, and \<open>bootmain\<close> loads what the program headers say before it jumps.
\<close>

section \<open>Sectors\<close>

lemma waitdisk_poll:
  "hw_in8 h (polls h k (io_log s)) 0x1F7 AND 0xC0 = 0x40 \<Longrightarrow>
    \<exists>j. waitdisk h s = Some (s\<lparr>io_log := polls h j (io_log s)\<rparr>) \<and> answered (polls h j (io_log s))"
proof (induction k arbitrary: s)
  case 0
  then have "waitdisk h s = Some (s\<lparr>io_log := polls h (Suc 0) (io_log s)\<rparr>)"
    by (subst waitdisk.simps) (simp add: inb_def log_event_def Let_def)
  moreover have "answered (polls h (Suc 0) (io_log s))" using 0 by simp
  ultimately show ?case by blast
next
  case (Suc k)
  let ?s = "s\<lparr>io_log := EIn8 0x1F7 (hw_in8 h (io_log s) 0x1F7) # io_log s\<rparr>"
  show ?case
  proof (cases "hw_in8 h (io_log s) 0x1F7 AND 0xC0 = 0x40")
    case True
    then have "waitdisk h s = Some (s\<lparr>io_log := polls h (Suc 0) (io_log s)\<rparr>)"
      by (subst waitdisk.simps) (simp add: inb_def log_event_def Let_def)
    moreover have "answered (polls h (Suc 0) (io_log s))" using True by simp
    ultimately show ?thesis by blast
  next
    case False
    have "\<exists>j. waitdisk h ?s = Some (?s\<lparr>io_log := polls h j (io_log ?s)\<rparr>) \<and> answered (polls h j (io_log ?s))"
      using Suc.prems by (intro Suc.IH) simp
    then obtain j where "waitdisk h ?s = Some (s\<lparr>io_log := polls h (Suc j) (io_log s)\<rparr>)"
      "answered (polls h (Suc j) (io_log s))" by auto
    moreover have "waitdisk h s = waitdisk h ?s"
      by (subst waitdisk.simps) (simp add: inb_def log_event_def Let_def False)
    ultimately show ?thesis by metis
  qed
qed

lemma waitdisk_ready:
  "ide_disk h img \<Longrightarrow>
    \<exists>j. waitdisk h s = Some (s\<lparr>io_log := polls h j (io_log s)\<rparr>) \<and> answered (polls h j (io_log s))"
  unfolding ide_disk_def using waitdisk_poll by blast

lemma disk_command_log:
  "disk_command n s = s\<lparr>io_log := command_log n @ io_log s\<rparr>"
  by (simp add: disk_command_def command_log_def outb_def log_event_def Let_def)

lemma word_bytes:
  "ucast (word_of_bytes b0 b1 b2 b3) = b0" "ucast (drop_bit 8 (word_of_bytes b0 b1 b2 b3)) = b1"
  "ucast (drop_bit 16 (word_of_bytes b0 b1 b2 b3)) = b2"
  "ucast (drop_bit 24 (word_of_bytes b0 b1 b2 b3)) = b3"
  by (rule bit_word_eqI; auto simp: word_of_bytes_def bit_simps dest: bit_imp_le_length)+

lemma store_words_bytes:
  "store_words (\<lambda>k. word_of_bytes (g (4 * k)) (g (4 * k + 1)) (g (4 * k + 2)) (g (4 * k + 3))) n p m =
    write_bytes (map g [0..<4 * n]) p m"
proof (induction n arbitrary: g p m)
  case 0
  then show ?case by simp
next
  case (Suc n)
  let ?g = "\<lambda>i. g (i + 4)"
  have ups: "[0..<4 * Suc n] = [0, 1, 2, 3] @ map (\<lambda>i. i + 4) [0..<4 * n]"
  proof -
    have "[0..<4 * Suc n] = [0..<4] @ [4..<4 * n + 4]"
      using upt_add_eq_append [of 0 4 "4 * n"] by (simp add: add.commute)
    moreover have "[0..<4] = [0, 1, 2, 3 :: nat]" by code_simp
    ultimately show ?thesis by (simp only: map_add_upt)
  qed
  have "store_words (\<lambda>k. word_of_bytes (g (4 * k)) (g (4 * k + 1)) (g (4 * k + 2)) (g (4 * k + 3))) (Suc n) p m
      = store_words (\<lambda>k. word_of_bytes (?g (4 * k)) (?g (4 * k + 1)) (?g (4 * k + 2)) (?g (4 * k + 3))) n (p + 4)
          (store32 m p (word_of_bytes (g 0) (g 1) (g 2) (g 3)))"
    by (simp add: algebra_simps numeral_2_eq_2)
  also have "\<dots> = write_bytes (map ?g [0..<4 * n]) (p + 4)
      (store32 m p (word_of_bytes (g 0) (g 1) (g 2) (g 3)))"
    by (rule Suc.IH)
  also have "\<dots> = write_bytes (map g [0..<4 * Suc n]) p m"
    unfolding ups by (simp add: store32_def word_bytes comp_def add.assoc)
  finally show ?case .
qed

lemma sector_words: "store_words (sector_word img n) 128 p m = write_bytes (sector img n) p m"
proof -
  have "sector_word img n = (\<lambda>k. word_of_bytes (img (512 * n + 4 * k)) (img (512 * n + (4 * k + 1)))
      (img (512 * n + (4 * k + 2))) (img (512 * n + (4 * k + 3))))"
    by (rule ext) (simp only: sector_word_def Let_def add.assoc)
  then show ?thesis
    using store_words_bytes [of "\<lambda>i. img (512 * n + i)" 128 p m] by (simp only: sector_def) simp
qed

lemma readsect_stores:
  assumes disk: "ide_disk h img" and n: "unat n < 268435456"
  shows "\<exists>l. readsect h dst n s =
    Some (s\<lparr>mem := write_bytes (sector img (unat n)) dst (mem s), io_log := l\<rparr>)"
proof -
  obtain j where j: "waitdisk h s = Some (s\<lparr>io_log := polls h j (io_log s)\<rparr>)" "answered (polls h j (io_log s))"
    using waitdisk_ready [OF disk] by blast
  let ?s1 = "s\<lparr>io_log := polls h j (io_log s)\<rparr>"
  obtain k where k: "waitdisk h (disk_command n ?s1) =
      Some (s\<lparr>io_log := polls h k (command_log n @ polls h j (io_log s))\<rparr>)"
      "answered (polls h k (command_log n @ polls h j (io_log s)))"
    using waitdisk_ready [OF disk, of "disk_command n ?s1"] by (auto simp: disk_command_log)
  let ?s2 = "s\<lparr>io_log := polls h k (command_log n @ polls h j (io_log s))\<rparr>"
  have words: "hw_in32 h (in32_run (ucast (0x1F0 :: u32)) (sector_word img (unat n)) i (io_log ?s2)) (ucast (0x1F0 :: u32))
      = sector_word img (unat n) i" if "i < 128" for i
    using disk n that j(2) k(2) by (simp add: ide_disk_def)
  have "insl h 0x1F0 dst (SECTSIZE div 4) ?s2 = insl_rep h 0x1F0 128 dst ?s2"
    by (simp add: insl_def)
  also have "\<dots> = ?s2\<lparr>mem := store_words (sector_word img (unat n)) 128 dst (mem ?s2),
      io_log := in32_run (ucast (0x1F0 :: u32)) (sector_word img (unat n)) 128 (io_log ?s2)\<rparr>"
    using words by (rule insl_rep_stores)
  finally have "readsect h dst n s = Some (s\<lparr>mem := write_bytes (sector img (unat n)) dst (mem s),
      io_log := in32_run (ucast (0x1F0 :: u32)) (sector_word img (unat n)) 128 (io_log ?s2)\<rparr>)"
    using j(1) k(1) by (simp add: readsect_def sector_words)
  then show ?thesis by blast
qed

section \<open>Segments\<close>

text \<open>
  The abstract effect of a segment read: whole sectors from the one that holds \<open>pa\<close> on, with the
  contents of the disk from the sector after the one that holds \<open>offset\<close> on.
\<close>

definition seg_sectors :: "u32 \<Rightarrow> u32 \<Rightarrow> nat" where
  "seg_sectors pa count = (unat pa mod 512 + unat count + 511) div 512"

definition load_seg :: "(nat \<Rightarrow> u8) \<Rightarrow> u32 \<Rightarrow> u32 \<Rightarrow> u32 \<Rightarrow> memory \<Rightarrow> memory" where
  "load_seg img pa count offset m a =
     (let p = pa - pa mod 512
      in if in_rng a p (512 * seg_sectors pa count)
         then img (512 * (unat offset div 512 + 1) + unat (a - p)) else m a)"

definition seg_fits :: "u32 \<Rightarrow> u32 \<Rightarrow> u32 \<Rightarrow> bool" where
  "seg_fits pa count offset \<longleftrightarrow>
     unat pa - unat pa mod 512 + 512 * seg_sectors pa count < 4294967296
     \<and> unat offset div 512 + 1 + seg_sectors pa count \<le> 268435456"

lemma length_sector [simp]: "length (sector img n) = 512"
  by (simp add: sector_def)

lemma sector_nth: "i < 512 \<Longrightarrow> sector img n ! i = img (512 * n + i)"
  by (simp add: sector_def)

text \<open>One sector less to read, and the block of \<open>k + 1\<close> sectors as its first sector and the others.\<close>

lemma sectors_left:
  assumes "((e :: nat) - p + 511) div 512 = Suc k"
  shows "p < e" "(e - (p + 512) + 511) div 512 = k"
proof -
  show lt: "p < e"
  proof (rule ccontr)
    assume "\<not> p < e"
    then have "(e - p + 511) div 512 = 0" by simp
    with assms show False by simp
  qed
  show "(e - (p + 512) + 511) div 512 = k"
  proof (cases "e - p \<le> 512")
    case True
    with lt have "(e - p + 511) div 512 = 1" by (simp add: div_nat_eqI)
    with assms True show ?thesis by simp
  next
    case False
    then have "e - p + 511 = (e - (p + 512) + 511) + 512" by simp
    then have "(e - p + 511) div 512 = (e - (p + 512) + 511) div 512 + 1" by (simp only: div_add_self2)
    with assms show ?thesis by simp
  qed
qed

lemma sectors_Suc:
  fixes p :: u32
  assumes "512 + 512 * k \<le> 4294967296"
  shows "(\<lambda>a. if in_rng a (p + 512) (512 * k) then img (512 * Suc n + unat (a - (p + 512)))
        else write_bytes (sector img n) p m a)
      = (\<lambda>a. if in_rng a p (512 * Suc k) then img (512 * n + unat (a - p)) else m a)"
proof
  fix a
  have rng: "in_rng a (p + 512) (512 * k) \<longleftrightarrow> 512 \<le> unat (a - p) \<and> unat (a - p) < 512 + 512 * k"
    using in_rng_shift [of 512 "512 * k" a p] assms by simp
  have off: "unat (a - (p + 512)) = unat (a - p) - 512" if "512 \<le> unat (a - p)"
  proof -
    have "a - (p + 512) = (a - p) - 512" by simp
    then show ?thesis using that by (simp only: unat_diff32) simp
  qed
  show "(if in_rng a (p + 512) (512 * k) then img (512 * Suc n + unat (a - (p + 512)))
        else write_bytes (sector img n) p m a)
      = (if in_rng a p (512 * Suc k) then img (512 * n + unat (a - p)) else m a)"
    using rng off by (auto simp: write_bytes_apply in_rng_def sector_nth algebra_simps)
qed

lemma readseg_loop_loads:
  assumes disk: "ide_disk h img"
  shows "(unat e - unat p + 511) div 512 = k \<Longrightarrow> unat p + 512 * k < 4294967296 \<Longrightarrow>
    unat n + k \<le> 268435456 \<Longrightarrow>
    \<exists>l. readseg_loop h p e n s = Some (s\<lparr>mem := (\<lambda>a. if in_rng a p (512 * k)
      then img (512 * unat n + unat (a - p)) else mem s a), io_log := l\<rparr>)"
proof (induction k arbitrary: p n s)
  case 0
  then have "unat e - unat p + 511 < 512" by (simp add: div_eq_0_iff)
  then have "\<not> p < e" by (simp add: word_less_nat_alt)
  then have "readseg_loop h p e n s = Some (s\<lparr>mem := mem s, io_log := io_log s\<rparr>)"
    by (subst readseg_loop.simps) simp
  then show ?case by (intro exI [of _ "io_log s"]) simp
next
  case (Suc k)
  note left = sectors_left [OF Suc.prems(1)]
  have p': "unat (p + 512) = unat p + 512" using Suc.prems(2) by (simp add: unat_plus32)
  have n': "unat (n + 1) = Suc (unat n)" using Suc.prems(3) by (simp add: unat_plus32)
  have "unat n < 268435456" using Suc.prems(3) by simp
  from readsect_stores [OF disk this, of p s] obtain l1 where
    sect: "readsect h p n s = Some (s\<lparr>mem := write_bytes (sector img (unat n)) p (mem s), io_log := l1\<rparr>)"
    by blast
  let ?s1 = "s\<lparr>mem := write_bytes (sector img (unat n)) p (mem s), io_log := l1\<rparr>"
  have "(unat e - unat (p + 512) + 511) div 512 = k" "unat (p + 512) + 512 * k < 4294967296"
    "unat (n + 1) + k \<le> 268435456"
    using left Suc.prems(2,3) by (simp_all only: p' n', simp_all)
  from Suc.IH [OF this, of ?s1] obtain l where "readseg_loop h (p + 512) e (n + 1) ?s1 = Some (?s1\<lparr>mem :=
      (\<lambda>a. if in_rng a (p + 512) (512 * k) then img (512 * unat (n + 1) + unat (a - (p + 512)))
           else mem ?s1 a), io_log := l\<rparr>)" by blast
  moreover have "512 + 512 * k \<le> 4294967296" using Suc.prems(2) by simp
  note sectors_Suc [OF this, of p img "unat n" "mem s"]
  moreover have "readseg_loop h p e n s = readseg_loop h (p + 512) e (n + 1) ?s1"
    by (subst readseg_loop.simps) (simp add: left(1) word_less_nat_alt sect)
  ultimately show ?case by (auto simp: n' simp del: mult_Suc_right cong: if_cong)
qed

lemma mask_not_511: "(pa :: u32) AND NOT 511 = pa - pa mod 512"
proof -
  have low: "pa AND 511 = pa mod 512"
    using take_bit_eq_mod [of 9 pa] take_bit_eq_mask [of 9 pa] by (simp add: mask_eq_exp_minus_1)
  have "pa = (pa AND NOT 511) OR (pa AND 511)"
    by (rule bit_word_eqI) (auto simp: bit_simps)
  moreover have "(pa AND NOT 511) OR (pa AND 511) = (pa AND NOT 511) + (pa AND 511)"
    by (rule disjunctive_add [symmetric]) (auto simp: bit_simps)
  ultimately show ?thesis unfolding low by (metis add_diff_cancel_right')
qed

lemma readseg_loads:
  assumes disk: "ide_disk h img" and fits: "seg_fits pa count offset"
  shows "\<exists>l. readseg h pa count offset s = Some (s\<lparr>mem := load_seg img pa count offset (mem s), io_log := l\<rparr>)"
proof -
  let ?p = "pa - pa mod 512" and ?n = "offset div 512 + 1" and ?k = "seg_sectors pa count"
  have p: "unat ?p = unat pa - unat pa mod 512"
    using unat_ROUNDDOWN [of pa 512] by (simp add: ROUNDDOWN_def)
  have le: "unat pa mod 512 + unat count \<le> 512 * ?k"
    by (simp add: seg_sectors_def) 
  have bounds: "unat ?p + 512 * ?k < 4294967296" "unat offset div 512 + 1 + ?k \<le> 268435456"
    using fits p by (simp_all add: seg_fits_def)
  have "unat pa mod 512 \<le> unat pa" by simp
  then have "unat pa + unat count < 4294967296" using le bounds(1) p by linarith
  then have e: "unat (pa + count) = unat pa + unat count" by (simp add: unat_plus32)
  have n: "unat ?n = unat offset div 512 + 1" using bounds(2) by (simp add: unat_plus32 unat_div)
  have "unat (pa + count) - unat ?p = unat pa mod 512 + unat count"
    using e p \<open>unat pa mod 512 \<le> unat pa\<close> by linarith
  then have k: "(unat (pa + count) - unat ?p + 511) div 512 = ?k" by (simp only: seg_sectors_def)
  from readseg_loop_loads [OF disk k bounds(1), of ?n s] bounds(2) n obtain l where
    "readseg_loop h ?p (pa + count) ?n s = Some (s\<lparr>mem := (\<lambda>a. if in_rng a ?p (512 * ?k)
      then img (512 * unat ?n + unat (a - ?p)) else mem s a), io_log := l\<rparr>)" by auto
  then have "readseg h pa count offset s = Some (s\<lparr>mem := load_seg img pa count offset (mem s), io_log := l\<rparr>)"
    unfolding readseg_def Let_def load_seg_def [abs_def] n
    by (simp only: SECTSIZE_def mask_not_511 diff_numeral_simps) (simp flip: mask_not_511)
  then show ?thesis by blast
qed

end
