(* ===== verification/Boot_Props.thy ===== *)
theory Boot_Props
  imports Boot_Laws
begin

text \<open>
  What the boot loader does with a disk: a segment lands where its program header says,
  \<open>bootmain\<close> enters the kernel with all segments loaded, and a disk without the ELF magic stops it.
\<close>

section \<open>A disk, for the worked instances\<close>

text \<open>
  A disk that is busy at the first status read after a command.  It finds the sector number in the last
  command of the log, and the word in the number of data words read since; data words that are read
  before it was seen ready are zero.
\<close>

fun data_reads :: "io_event list \<Rightarrow> nat" where
  "data_reads (EIn32 p v # l) = Suc (data_reads l)"
| "data_reads l = 0"

fun last_command :: "io_event list \<Rightarrow> u32" where
  "last_command (EIn32 p v # l) = last_command l"
| "last_command (EIn8 p v # l) = last_command l"
| "last_command (EOut8 _ _ # EOut8 _ b3 # EOut8 _ b2 # EOut8 _ b1 # EOut8 _ b0 # l) =
     word_of_bytes b0 b1 b2 (b3 AND 0x0F)"
| "last_command l = 0"

fun seen_ready :: "io_event list \<Rightarrow> bool" where
  "seen_ready (EIn32 p v # l) \<longleftrightarrow> seen_ready l"
| "seen_ready l \<longleftrightarrow> answered l"

definition disk_hw :: "(nat \<Rightarrow> u8) \<Rightarrow> hw" where
  "disk_hw img = \<lparr>hw_in8 = (\<lambda>l _. case l of EOut8 _ _ # _ \<Rightarrow> 0x80 | _ \<Rightarrow> 0x40), hw_in16 = (\<lambda>_ _. 0),
     hw_in32 = (\<lambda>l _. if seen_ready l then sector_word img (unat (last_command l)) (data_reads l) else 0),
     hw_cga_ram = True\<rparr>"

lemma seen_ready_run: "answered l \<Longrightarrow> seen_ready (in32_run p f k l)"
proof (induction k)
  case 0
  then show ?case by (cases l rule: seen_ready.cases) auto
qed simp

lemma data_reads_run: "data_reads (in32_run p f k l) = k + data_reads l"
  by (induction k) auto

lemma last_command_run: "last_command (in32_run p f k l) = last_command l"
  by (induction k) auto

lemma polls_skip:
  "last_command (polls h j l) = last_command l" "data_reads l = 0 \<Longrightarrow> data_reads (polls h j l) = 0"
  by (induction j arbitrary: l) auto

lemma bits28:
  assumes "unat (n :: u32) < 268435456"
  shows "\<not> bit n 28" "\<not> bit n 29" "\<not> bit n 30" "\<not> bit n 31"
  using assms bits_below [of n 28] by simp_all

lemma bit_0F: "bit (0x0F :: 'a :: len word) i \<longleftrightarrow> i < LENGTH('a) \<and> i < 4"
proof -
  have "(0x0F :: 'a word) = mask 4" by (simp add: mask_eq_exp_minus_1)
  then show ?thesis by (simp only: bit_mask_iff) auto
qed

lemma bit_E0: "bit (0xE0 :: 'a :: len word) i \<longleftrightarrow> i < LENGTH('a) \<and> (i = 5 \<or> i = 6 \<or> i = 7)"
proof -
  have "(0xE0 :: 'a word) = push_bit 5 (mask 3)" by (simp add: mask_eq_exp_minus_1)
  then show ?thesis by (simp only: bit_simps) auto
qed

lemma drive_bits:
  fixes n :: u32
  assumes "unat n < 268435456"
  shows "ucast (drop_bit 24 n OR 0xE0) AND 0x0F = (ucast (drop_bit 24 n) :: u8)"
proof (rule bit_word_eqI)
  fix i
  assume "i < LENGTH(8)"
  then have "i < 4 \<or> i = 4 \<or> i = 5 \<or> i = 6 \<or> i = 7" by auto
  then show "bit (ucast (drop_bit 24 n OR 0xE0) AND 0x0F :: u8) i = bit (ucast (drop_bit 24 n) :: u8) i"
    using bits28 [OF assms]
    by (auto simp only: bit_and_iff bit_or_iff bit_ucast_iff bit_drop_bit_eq bit_0F bit_E0) simp_all
qed

lemma last_command_log:
  assumes "unat n < 268435456"
  shows "last_command (command_log n @ l) = n"
proof -
  have "word_of_bytes (ucast n) (ucast (drop_bit 8 n)) (ucast (drop_bit 16 n)) (ucast (drop_bit 24 n)) = n"
  proof (rule bit_word_eqI)
    fix i
    assume "i < LENGTH(32)"
    then consider "i < 8" | "8 \<le> i" "i < 16" | "16 \<le> i" "i < 24" | "24 \<le> i" "i < 32" by fastforce
    then show "bit (word_of_bytes (ucast n) (ucast (drop_bit 8 n)) (ucast (drop_bit 16 n))
      (ucast (drop_bit 24 n))) i = bit n i"
      by cases (simp_all add: word_of_bytes_def bit_simps, linarith+)
  qed
  then show ?thesis by (simp add: command_log_def drive_bits [OF assms])
qed

lemma disk_hw_ide: "ide_disk (disk_hw img) img"
proof -
  have "hw_in8 (disk_hw img) (polls (disk_hw img) 1 l) 0x1F7 AND 0xC0 = 0x40" for l
    by (simp add: disk_hw_def)
  moreover have "data_reads (command_log n @ l) = 0" for n l by (simp add: command_log_def)
  then have "hw_in32 (disk_hw img) (in32_run 0x1F0 (sector_word img (unat n)) k (polls (disk_hw img) j (command_log n @ l))) 0x1F0
      = sector_word img (unat n) k"
    if "unat n < 268435456" "answered (polls (disk_hw img) j (command_log n @ l))" for n k j l
    using that seen_ready_run [OF that(2)]
    by (simp add: disk_hw_def [of img, THEN arg_cong [of _ _ hw_in32]] data_reads_run last_command_run polls_skip last_command_log)
  ultimately show ?thesis unfolding ide_disk_def by blast
qed

text \<open>
  C25: when \<open>pa\<close> and \<open>offset\<close> have the same place in their sectors, reading \<open>count\<close> bytes at \<open>offset\<close> of
  the kernel image to \<open>pa\<close> returns, with byte \<open>i\<close> of the request at \<open>pa + i\<close>, and nothing changes below
  the sector that holds \<open>pa\<close> or from the end of the last one on.  The disk may be busy before the command
  and after it, and may give anything on its data port until it is ready.
\<close>

theorem readseg_reads:
  assumes disk: "ide_disk h img" and fits: "seg_fits pa count offset"
    and align: "unat pa mod 512 = unat offset mod 512"
  shows "\<exists>s'. readseg h pa count offset s = Some s'
    \<and> (\<forall>i \<in> {0..<unat count}. mem s' (pa + of_nat i) = img (512 + unat offset + i))
    \<and> (\<forall>a. \<not> in_rng a (pa - pa mod 512) (512 * seg_sectors pa count) \<longrightarrow> mem s' a = mem s a)"
proof -
  obtain l where run: "readseg h pa count offset s =
      Some (s\<lparr>mem := load_seg img pa count offset (mem s), io_log := l\<rparr>)"
    using readseg_loads [OF disk fits] by blast
  have le: "unat pa mod 512 + unat count \<le> 512 * seg_sectors pa count" by (simp add: seg_sectors_def)
  have "load_seg img pa count offset (mem s) (pa + of_nat i) = img (512 + unat offset + i)"
    if i: "i < unat count" for i
  proof -
    have "pa + of_nat i - (pa - pa mod 512) = pa mod 512 + of_nat i" by simp
    moreover have "unat (pa mod 512) + i < 4294967296"
    proof -
      have "unat (pa mod 512) = unat pa mod 512" by (simp add: unat_mod)
      moreover have "unat pa - unat pa mod 512 + 512 * seg_sectors pa count < 4294967296"
        using fits by (simp only: seg_fits_def)
      ultimately show ?thesis using i le by linarith
    qed
    ultimately have d: "unat (pa + of_nat i - (pa - pa mod 512)) = unat pa mod 512 + i"
      by (simp add: unat_plus32 unat_of_nat32 unat_mod)
    have idx: "512 * (unat offset div 512 + 1) + (unat pa mod 512 + i) = 512 + unat offset + i"
      using align by simp
    then show ?thesis unfolding load_seg_def Let_def in_rng_def d idx using i le by simp
  qed
  then show ?thesis using run by (auto simp: load_seg_def Let_def)
qed

section \<open>bootmain\<close>

text \<open>The first page of the kernel image, where \<open>bootmain\<close> puts it, and what it says.\<close>

definition disk_page :: "(nat \<Rightarrow> u8) \<Rightarrow> memory" where
  "disk_page img a = img (512 + unat (a - 0x10000))"

definition kernel_elf :: "(nat \<Rightarrow> u8) \<Rightarrow> Elf" where
  "kernel_elf img = elf_at (disk_page img) 0x10000"

definition phdr_at :: "(nat \<Rightarrow> u8) \<Rightarrow> nat \<Rightarrow> Proghdr" where
  "phdr_at img off = proghdr_at (disk_page img) (0x10000 + of_nat off)"

definition kernel_phdrs :: "(nat \<Rightarrow> u8) \<Rightarrow> Proghdr list" where
  "kernel_phdrs img = map (\<lambda>i. phdr_at img (unat (e_phoff (kernel_elf img)) + 32 * i))
     [0..<unat (e_phnum (kernel_elf img))]"

definition load_ph :: "(nat \<Rightarrow> u8) \<Rightarrow> Proghdr \<Rightarrow> memory \<Rightarrow> memory" where
  "load_ph img ph = load_seg img (p_pa ph) (p_memsz ph) (p_offset ph)"

text \<open>A segment that can be loaded and leaves the header page alone.\<close>

definition ph_ok :: "Proghdr \<Rightarrow> bool" where
  "ph_ok ph \<longleftrightarrow> seg_fits (p_pa ph) (p_memsz ph) (p_offset ph)
     \<and> disjoint_rng 0x10000 4096 (p_pa ph - p_pa ph mod 512) (512 * seg_sectors (p_pa ph) (p_memsz ph))"

definition header_loaded :: "(nat \<Rightarrow> u8) \<Rightarrow> memory \<Rightarrow> bool" where
  "header_loaded img m \<longleftrightarrow> (\<forall>a. in_rng a 0x10000 4096 \<longrightarrow> m a = disk_page img a)"

lemma header_byte:
  assumes "header_loaded img m" and "off + n \<le> 4096" and "in_rng b (0x10000 + of_nat off) n"
  shows "m b = disk_page img b"
proof -
  have "in_rng b 0x10000 4096"
    using assms(2,3) in_rng_shift [of off n b "0x10000"] by (simp add: in_rng_def)
  with assms(1) show ?thesis by (simp only: header_loaded_def)
qed

lemma header_load16:
  "header_loaded img m \<Longrightarrow> off + 2 \<le> 4096 \<Longrightarrow>
    load16 m (0x10000 + of_nat off) = load16 (disk_page img) (0x10000 + of_nat off)"
  by (rule cell16.load_local) (rule header_byte)

lemma header_load32:
  "header_loaded img m \<Longrightarrow> off + 4 \<le> 4096 \<Longrightarrow>
    load32 m (0x10000 + of_nat off) = load32 (disk_page img) (0x10000 + of_nat off)"
  by (rule cell32.load_local) (rule header_byte)

lemma header_bytes:
  "header_loaded img m \<Longrightarrow> off + n \<le> 4096 \<Longrightarrow>
    read_bytes m (0x10000 + of_nat off) n = read_bytes (disk_page img) (0x10000 + of_nat off) n"
  by (rule read_bytes_cong) (rule header_byte)

lemma header_elf: "header_loaded img m \<Longrightarrow> elf_at m ELFHDR = kernel_elf img"
proof -
  assume h: "header_loaded img m"
  note rd = header_load32 [OF h, of 0] header_load32 [OF h, of 20] header_load32 [OF h, of 24]
    header_load32 [OF h, of 28] header_load32 [OF h, of 32] header_load32 [OF h, of 36]
    header_load16 [OF h, of 16] header_load16 [OF h, of 18] header_load16 [OF h, of 40]
    header_load16 [OF h, of 42] header_load16 [OF h, of 44] header_load16 [OF h, of 46]
    header_load16 [OF h, of 48] header_load16 [OF h, of 50] header_bytes [OF h, of 4 12]
  show ?thesis using rd by (simp add: elf_at_def kernel_elf_def)
qed

lemma header_phdr:
  assumes h: "header_loaded img m" and off: "off + 32 \<le> 4096"
  shows "proghdr_at m (0x10000 + of_nat off) = phdr_at img off"
proof -
  have rd: "load32 m (0x10000 + of_nat off + of_nat k) = load32 (disk_page img) (0x10000 + of_nat off + of_nat k)"
    if "k + 4 \<le> 32" for k
    using header_load32 [OF h, of "off + k"] off that by (simp add: add.assoc)
  show ?thesis
    using rd [of 0] rd [of 4] rd [of 8] rd [of 12] rd [of 16] rd [of 20] rd [of 24] rd [of 28]
    by (simp add: proghdr_at_def phdr_at_def)
qed

lemma load_ph_header: "ph_ok ph \<Longrightarrow> header_loaded img m \<Longrightarrow> header_loaded img (load_ph img ph m)"
  unfolding header_loaded_def load_ph_def load_seg_def Let_def ph_ok_def
  using disjoint_rng_not_in by auto

lemma load_phs_header:
  "\<forall>ph \<in> set phs. ph_ok ph \<Longrightarrow> header_loaded img m \<Longrightarrow> header_loaded img (fold (load_ph img) phs m)"
  by (induction phs arbitrary: m) (auto intro: load_ph_header)

lemma unat_header: "n \<le> 4096 \<Longrightarrow> unat (0x10000 + of_nat n :: u32) = 0x10000 + n"
proof -
  assume n: "n \<le> 4096"
  then have "unat (of_nat n :: u32) = n" by (simp add: unat_of_nat32)
  with n show ?thesis by (subst unat_plus32) simp
qed

lemma load_segments_run:
  assumes disk: "ide_disk h img"
  shows "header_loaded img (mem s) \<Longrightarrow> off + 32 * k \<le> 4096 \<Longrightarrow>
    \<forall>i<k. ph_ok (phdr_at img (off + 32 * i)) \<Longrightarrow>
    \<exists>l. load_segments h (0x10000 + of_nat off) (0x10000 + of_nat (off + 32 * k)) s =
      Some (s\<lparr>mem := fold (load_ph img) (map (\<lambda>i. phdr_at img (off + 32 * i)) [0..<k]) (mem s), io_log := l\<rparr>)"
proof (induction k arbitrary: off s)
  case 0
  then show ?case by (subst load_segments.simps) (simp, rule exI [of _ "io_log s"], simp)
next
  case (Suc k)
  let ?ph = "phdr_at img off" and ?s = "load_ph img (phdr_at img off) (mem s)"
  have ok: "ph_ok ?ph" using Suc.prems(3) by (metis add_0_right mult_0_right zero_less_Suc)
  have here: "proghdr_at (mem s) (0x10000 + of_nat off) = ?ph"
    using Suc.prems by (intro header_phdr) simp_all
  obtain l1 where l1: "readseg h (p_pa ?ph) (p_memsz ?ph) (p_offset ?ph) s = Some (s\<lparr>mem := ?s, io_log := l1\<rparr>)"
    using readseg_loads [OF disk, of "p_pa ?ph" "p_memsz ?ph" "p_offset ?ph" s] ok
    by (auto simp: ph_ok_def load_ph_def)
  let ?s1 = "s\<lparr>mem := ?s, io_log := l1\<rparr>"
  have "unat (0x10000 + of_nat off :: u32) = 0x10000 + off"
    "unat (0x10000 + of_nat (off + 32 * Suc k) :: u32) = 0x10000 + (off + 32 * Suc k)"
    using Suc.prems(2) by (intro unat_header; simp)+
  then have lt: "(0x10000 + of_nat off :: u32) < 0x10000 + of_nat (off + 32 * Suc k)"
    unfolding word_less_nat_alt by simp
  have later: "\<forall>i<k. ph_ok (phdr_at img (off + 32 + 32 * i))"
  proof (intro allI impI)
    fix i
    assume "i < k"
    then have "ph_ok (phdr_at img (off + 32 * Suc i))" using Suc.prems(3) by blast
    then show "ph_ok (phdr_at img (off + 32 + 32 * i))" by (simp add: add.assoc)
  qed
  have hdr: "header_loaded img (mem ?s1)" using load_ph_header [OF ok Suc.prems(1)] by simp
  have fits: "(off + 32) + 32 * k \<le> 4096" using Suc.prems(2) by simp
  obtain l where l: "load_segments h (0x10000 + of_nat (off + 32)) (0x10000 + of_nat (off + 32 + 32 * k)) ?s1 =
      Some (?s1\<lparr>mem := fold (load_ph img) (map (\<lambda>i. phdr_at img (off + 32 + 32 * i)) [0..<k]) (mem ?s1), io_log := l\<rparr>)"
    using Suc.IH [OF hdr fits later] by blast
  have "map (\<lambda>i. phdr_at img (off + 32 * i)) [0..<Suc k] =
      ?ph # map (\<lambda>i. phdr_at img (off + 32 + 32 * i)) [0..<k]"
    by (simp add: upt_conv_Cons map_Suc_upt [symmetric] comp_def add.assoc del: upt_Suc)
  moreover have "0x10000 + of_nat off + 32 = (0x10000 + of_nat (off + 32) :: u32)"
    "(0x10000 + of_nat (off + 32 + 32 * k) :: u32) = 0x10000 + of_nat (off + 32 * Suc k)"
    by simp_all
  ultimately show ?case
    using l by (subst load_segments.simps) (simp only: lt here l1 if_True bind.bind_lunit fold_simps, auto)
qed

lemma first_page:
  assumes disk: "ide_disk h img"
  shows "\<exists>l. readseg h ELFHDR (SECTSIZE * 8) 0 s =
      Some (s\<lparr>mem := load_seg img 0x10000 4096 0 (mem s), io_log := l\<rparr>)
    \<and> header_loaded img (load_seg img 0x10000 4096 0 (mem s))"
proof -
  have "seg_fits 0x10000 4096 0" "seg_sectors 0x10000 4096 = 8"
    by (simp_all add: seg_fits_def seg_sectors_def)
  then show ?thesis
    using readseg_loads [OF disk, of "0x10000" 4096 0 s]
    by (simp add: header_loaded_def load_seg_def disk_page_def)
qed

text \<open>
  C12: from a disk, busy for a while or not, that holds an ELF image whose program headers lie in its first page and whose
  segments can be loaded without touching that page, \<open>bootmain\<close> always gets to enter the kernel
  at the entry point of the image, with every segment loaded in the order of the headers.
\<close>

theorem bootmain_enters_kernel:
  assumes disk: "ide_disk h img" and magic: "e_magic (kernel_elf img) = ELF_MAGIC"
    and table: "unat (e_phoff (kernel_elf img)) + 32 * unat (e_phnum (kernel_elf img)) \<le> 4096"
    and segs: "\<forall>ph \<in> set (kernel_phdrs img). ph_ok ph"
  shows "\<exists>s'. bootmain h s = Some (Enter (e_entry (kernel_elf img)) s')
    \<and> mem s' = fold (load_ph img) (kernel_phdrs img) (load_seg img 0x10000 4096 0 (mem s))"
proof -
  let ?m1 = "load_seg img 0x10000 4096 0 (mem s)" and ?off = "unat (e_phoff (kernel_elf img))"
    and ?k = "unat (e_phnum (kernel_elf img))"
  obtain l1 where l1: "readseg h ELFHDR (SECTSIZE * 8) 0 s = Some (s\<lparr>mem := ?m1, io_log := l1\<rparr>)"
      and hdr: "header_loaded img ?m1"
    using first_page [OF disk, of s] by blast
  let ?s1 = "s\<lparr>mem := ?m1, io_log := l1\<rparr>"
  have "header_loaded img (mem ?s1)" using hdr by simp
  moreover have "\<forall>i<?k. ph_ok (phdr_at img (?off + 32 * i))" using segs by (simp add: kernel_phdrs_def)
  ultimately obtain l2 where l2: "load_segments h (0x10000 + of_nat ?off) (0x10000 + of_nat (?off + 32 * ?k)) ?s1 =
      Some (?s1\<lparr>mem := fold (load_ph img) (kernel_phdrs img) (mem ?s1), io_log := l2\<rparr>)"
    using load_segments_run [OF disk, of ?s1 ?off ?k] table by (auto simp: kernel_phdrs_def)
  have eph: "ELFHDR + e_phoff (kernel_elf img) + 32 * ucast (e_phnum (kernel_elf img)) =
      (0x10000 + of_nat (?off + 32 * ?k) :: u32)"
    by simp
  have "header_loaded img (fold (load_ph img) (kernel_phdrs img) ?m1)"
    using load_phs_header [OF segs hdr] .
  then have "elf_at (fold (load_ph img) (kernel_phdrs img) ?m1) ELFHDR = kernel_elf img"
    by (rule header_elf)
  then show ?thesis
    using l1 l2 header_elf [OF hdr] magic eph by (simp add: bootmain_def Let_def add.assoc)
qed

text \<open>
  Without the ELF magic \<open>bootmain\<close> always stops, after the two writes to port 0x8A00, with
  nothing but the first page loaded.
\<close>

theorem bootmain_bad_magic:
  assumes disk: "ide_disk h img" and magic: "e_magic (kernel_elf img) \<noteq> ELF_MAGIC"
  shows "\<exists>s' l. bootmain h s = Some (Idle s') \<and> mem s' = load_seg img 0x10000 4096 0 (mem s)
    \<and> io_log s' = EOut16 0x8A00 0x8E00 # EOut16 0x8A00 0x8A00 # l"
proof -
  let ?m1 = "load_seg img 0x10000 4096 0 (mem s)"
  obtain l1 where l1: "readseg h ELFHDR (SECTSIZE * 8) 0 s = Some (s\<lparr>mem := ?m1, io_log := l1\<rparr>)"
      and hdr: "header_loaded img ?m1"
    using first_page [OF disk, of s] by blast
  with header_elf [OF hdr] magic show ?thesis
    by (auto simp: bootmain_def outw_def log_event_def)
qed

section \<open>An image with one segment\<close>

text \<open>Four bytes of code at 4096 in the image, to be loaded to 1 MiB; the entry point is 0x10000C.\<close>

definition demo_header :: "u8 list" where
  "demo_header =
    [127, 69, 76, 70, 1, 1, 1, 0, 0, 0, 0, 0, 0, 0, 0, 0,
     2, 0, 3, 0, 1, 0, 0, 0, 12, 0, 16, 0, 52, 0, 0, 0,
     0, 0, 0, 0, 0, 0, 0, 0, 52, 0, 32, 0, 1, 0, 0, 0,
     0, 0, 0, 0, 1, 0, 0, 0, 0, 16, 0, 0, 0, 0, 16, 240,
     0, 0, 16, 0, 4, 0, 0, 0, 4, 0, 0, 0, 5, 0, 0, 0,
     0, 16, 0, 0]"

definition demo_img :: "nat \<Rightarrow> u8" where
  "demo_img i =
     (if 512 \<le> i \<and> i < 596 then demo_header ! (i - 512)
      else if 4608 \<le> i \<and> i < 4612 then [0x66, 0xC7, 0x05, 0x72] ! (i - 4608) else 0)"

definition fresh_machine :: machine where
  "fresh_machine = \<lparr>mem = \<lambda>_. 0, io_log = [], cr0 = 0, cr2 = 0, cr3 = 0, cr4 = 0, eflags = 0\<rparr>"

lemma demo_elf:
  "e_magic (kernel_elf demo_img) = ELF_MAGIC" "e_entry (kernel_elf demo_img) = 0x10000C"
  "e_phoff (kernel_elf demo_img) = 52" "e_phnum (kernel_elf demo_img) = 1"
  by (simp_all add: kernel_elf_def elf_at_def load32_def load16_def disk_page_def demo_img_def demo_header_def)

lemma demo_phdrs:
  "kernel_phdrs demo_img = [\<lparr>p_type = 1, p_offset = 4096, p_va = 0xF0100000, p_pa = 0x100000,
     p_filesz = 4, p_memsz = 4, p_flags = 5, p_align = 4096\<rparr>]"
  by (simp add: kernel_phdrs_def demo_elf phdr_at_def proghdr_at_def load32_def disk_page_def
      demo_img_def demo_header_def)

theorem readseg_reads_witness:
  "\<exists>s'. readseg (disk_hw demo_img) 0x100000 4 4096 fresh_machine = Some s' \<and> mem s' 0x100001 = 0xC7"
proof -
  have "seg_fits 0x100000 4 4096" "unat (0x100000 :: u32) mod 512 = unat (4096 :: u32) mod 512"
    by (simp_all add: seg_fits_def seg_sectors_def)
  from readseg_reads [OF disk_hw_ide this, of demo_img fresh_machine] obtain s' where
    "readseg (disk_hw demo_img) 0x100000 4 4096 fresh_machine = Some s'"
    "\<forall>i \<in> {0..<unat (4 :: u32)}. mem s' (0x100000 + of_nat i) = demo_img (512 + unat (4096 :: u32) + i)"
    by blast
  moreover have "(1 :: nat) \<in> {0..<unat (4 :: u32)}" by simp
  ultimately show ?thesis by (fastforce simp: demo_img_def)
qed

theorem bootmain_enters_kernel_witness:
  "\<exists>s'. bootmain (disk_hw demo_img) fresh_machine = Some (Enter 0x10000C s') \<and> mem s' 0x100003 = 0x72"
proof -
  have "unat (e_phoff (kernel_elf demo_img)) + 32 * unat (e_phnum (kernel_elf demo_img)) \<le> 4096"
    "\<forall>ph \<in> set (kernel_phdrs demo_img). ph_ok ph"
    by (simp_all add: demo_elf demo_phdrs ph_ok_def seg_fits_def seg_sectors_def disjoint_rng_def)
  from bootmain_enters_kernel [OF disk_hw_ide demo_elf(1) this, of fresh_machine] show ?thesis
    by (auto simp: demo_elf demo_phdrs load_ph_def load_seg_def seg_sectors_def in_rng_def demo_img_def)
qed

theorem bootmain_bad_magic_witness:
  "\<exists>s'. bootmain (disk_hw (\<lambda>_. 0)) fresh_machine = Some (Idle s') \<and> mem s' 0x10000 = 0"
proof -
  have "e_magic (kernel_elf (\<lambda>_. 0)) \<noteq> ELF_MAGIC"
    by (simp add: kernel_elf_def elf_at_def load32_def disk_page_def)
  from bootmain_bad_magic [OF disk_hw_ide this, of fresh_machine] show ?thesis
    by (auto simp: load_seg_def seg_sectors_def in_rng_def)
qed

end
