(* ===== verification/Console.thy ===== *)
theory Console
  imports Machine Mmu String_Laws
begin

text \<open>
  kern/console.c, output half: the serial port, the parallel port and the CGA/VGA text display,
  which \<open>cons_putc\<close> drives for every character the kernel prints.  The static variables of the
  file are fields of \<open>con\<close>; the display is memory.
\<close>

section \<open>State and constants\<close>

record con = machine +
  serial_exists :: bool
  addr_6845 :: u32
  crt_buf :: u32
  crt_pos :: u16
  kbd_shift :: u32
  cons_buf :: "u8 list"
  cons_rpos :: u32
  cons_wpos :: u32

definition COM1 :: u32 where [simp]: "COM1 = 0x3F8"
definition COM_RX :: u32 where [simp]: "COM_RX = 0"
definition COM_TX :: u32 where [simp]: "COM_TX = 0"
definition COM_DLL :: u32 where [simp]: "COM_DLL = 0"
definition COM_DLM :: u32 where [simp]: "COM_DLM = 1"
definition COM_IER :: u32 where [simp]: "COM_IER = 1"
definition COM_IER_RDI :: u8 where [simp]: "COM_IER_RDI = 0x01"
definition COM_IIR :: u32 where [simp]: "COM_IIR = 2"
definition COM_FCR :: u32 where [simp]: "COM_FCR = 2"
definition COM_LCR :: u32 where [simp]: "COM_LCR = 3"
definition COM_LCR_DLAB :: u8 where [simp]: "COM_LCR_DLAB = 0x80"
definition COM_LCR_WLEN8 :: u8 where [simp]: "COM_LCR_WLEN8 = 0x03"
definition COM_MCR :: u32 where [simp]: "COM_MCR = 4"
definition COM_LSR :: u32 where [simp]: "COM_LSR = 5"
definition COM_LSR_DATA :: u8 where [simp]: "COM_LSR_DATA = 0x01"
definition COM_LSR_TXRDY :: u8 where [simp]: "COM_LSR_TXRDY = 0x20"

definition MONO_BASE :: u32 where [simp]: "MONO_BASE = 0x3B4"
definition MONO_BUF :: u32 where [simp]: "MONO_BUF = 0xB0000"
definition CGA_BASE :: u32 where [simp]: "CGA_BASE = 0x3D4"
definition CGA_BUF :: u32 where [simp]: "CGA_BUF = 0xB8000"
definition CRT_ROWS :: u16 where [simp]: "CRT_ROWS = 25"
definition CRT_COLS :: u16 where [simp]: "CRT_COLS = 80"
definition CRT_SIZE :: u16 where [simp]: "CRT_SIZE = CRT_ROWS * CRT_COLS"

section \<open>Serial and parallel output\<close>

definition delay :: "hw \<Rightarrow> 'a machine_scheme \<Rightarrow> 'a machine_scheme" where
  "delay h s =
     (let (_, s1) = inb h 0x84 s; (_, s2) = inb h 0x84 s1;
          (_, s3) = inb h 0x84 s2; (_, s4) = inb h 0x84 s3 in s4)"

text \<open>The loop \<open>for (i = 0; !(inb(port) & bit) && i < 12800; i++) delay();\<close>.\<close>

function wait_ready :: "hw \<Rightarrow> u32 \<Rightarrow> u8 \<Rightarrow> nat \<Rightarrow> 'a machine_scheme \<Rightarrow> 'a machine_scheme" where
  "wait_ready h port ready i s =
     (let (v, s1) = inb h port s
      in if v AND ready = 0 \<and> i < 12800 then wait_ready h port ready (Suc i) (delay h s1) else s1)"
  by pat_completeness auto
termination
  by (relation "measure (\<lambda>(h, port, ready, i, s). 12800 - i)") auto

declare wait_ready.simps [simp del]

definition serial_putc :: "hw \<Rightarrow> i32 \<Rightarrow> 'a machine_scheme \<Rightarrow> 'a machine_scheme" where
  "serial_putc h c s =
     outb (COM1 + COM_TX) (ucast c) (wait_ready h (COM1 + COM_LSR) COM_LSR_TXRDY 0 s)"

definition lpt_putc :: "hw \<Rightarrow> i32 \<Rightarrow> 'a machine_scheme \<Rightarrow> 'a machine_scheme" where
  "lpt_putc h c s =
     (let s1 = wait_ready h (0x378 + 1) 0x80 0 s;
          s2 = outb (0x378 + 0) (ucast c) s1;
          s3 = outb (0x378 + 2) (0x08 OR 0x04 OR 0x01) s2
      in outb (0x378 + 2) 0x08 s3)"

definition serial_init :: "hw \<Rightarrow> 'a con_scheme \<Rightarrow> 'a con_scheme" where
  "serial_init h s =
     (let s1 = outb (COM1 + COM_FCR) 0 s;
          s2 = outb (COM1 + COM_LCR) COM_LCR_DLAB s1;
          s3 = outb (COM1 + COM_DLL) (115200 div 9600) s2;
          s4 = outb (COM1 + COM_DLM) 0 s3;
          s5 = outb (COM1 + COM_LCR) (COM_LCR_WLEN8 AND NOT COM_LCR_DLAB) s4;
          s6 = outb (COM1 + COM_MCR) 0 s5;
          s7 = outb (COM1 + COM_IER) COM_IER_RDI s6;
          (lsr, s8) = inb h (COM1 + COM_LSR) s7;
          s9 = s8\<lparr>serial_exists := lsr \<noteq> 0xFF\<rparr>;
          (_, s10) = inb h (COM1 + COM_IIR) s9;
          (_, s11) = inb h (COM1 + COM_RX) s10
      in s11)"

section \<open>The text display\<close>

text \<open>
  The probe writes a pattern through a volatile pointer and reads it back; without memory behind
  the window the write has no effect.
\<close>

definition cga_init :: "hw \<Rightarrow> 'a con_scheme \<Rightarrow> 'a con_scheme" where
  "cga_init h s =
     (let cp = KERNBASE + CGA_BUF;
          write = (\<lambda>v m. if hw_cga_ram h then store16 m cp v else m);
          was = load16 (mem s) cp;
          m1 = write 0xA55A (mem s);
          s1 = (if load16 m1 cp \<noteq> 0xA55A
                then s\<lparr>mem := m1, addr_6845 := MONO_BASE, crt_buf := KERNBASE + MONO_BUF\<rparr>
                else s\<lparr>mem := write was m1, addr_6845 := CGA_BASE, crt_buf := cp\<rparr>);
          s2 = outb (addr_6845 s1) 14 s1;
          (hi, s3) = inb h (addr_6845 s1 + 1) s2;
          s4 = outb (addr_6845 s1) 15 s3;
          (lo, s5) = inb h (addr_6845 s1 + 1) s4;
          pos = push_bit 8 (ucast hi) OR ucast lo :: u32
      in s5\<lparr>crt_pos := ucast pos\<rparr>)"

text \<open>\<open>crt_buf[i] = v\<close>.\<close>

definition set_cell :: "u16 \<Rightarrow> u16 \<Rightarrow> 'a con_scheme \<Rightarrow> 'a con_scheme" where
  "set_cell i v s = s\<lparr>mem := store16 (mem s) (crt_buf s + 2 * ucast i) v\<rparr>"

definition cga_scroll :: "'a con_scheme \<Rightarrow> 'a con_scheme" where
  "cga_scroll s =
     (if CRT_SIZE \<le> crt_pos s then
        let s1 = s\<lparr>mem := memmove (crt_buf s) (crt_buf s + 2 * ucast CRT_COLS)
                        (ucast (CRT_SIZE - CRT_COLS) * 2) (mem s)\<rparr>;
            s2 = fold (\<lambda>i. set_cell (of_nat i) (0x0700 OR 32)) [1920..<2000] s1
        in s2\<lparr>crt_pos := crt_pos s2 - CRT_COLS\<rparr>
      else s)"

definition cga_cursor :: "'a con_scheme \<Rightarrow> 'a con_scheme" where
  "cga_cursor s =
     (let s1 = outb (addr_6845 s) 14 s;
          s2 = outb (addr_6845 s + 1) (ucast (drop_bit 8 (crt_pos s))) s1;
          s3 = outb (addr_6845 s) 15 s2
      in outb (addr_6845 s + 1) (ucast (crt_pos s)) s3)"

text \<open>The arms of the switch but the one for tab, on the character with its attribute.\<close>

definition cga_plain :: "i32 \<Rightarrow> 'a con_scheme \<Rightarrow> 'a con_scheme" where
  "cga_plain c s =
     (if c AND 0xFF = 8 then
        if 0 < crt_pos s then
          let s1 = s\<lparr>crt_pos := crt_pos s - 1\<rparr>
          in set_cell (crt_pos s1) (ucast ((c AND NOT 0xFF) OR 32)) s1
        else s
      else if c AND 0xFF = 10 then
        let s1 = s\<lparr>crt_pos := crt_pos s + CRT_COLS\<rparr>
        in s1\<lparr>crt_pos := crt_pos s1 - crt_pos s1 mod CRT_COLS\<rparr>
      else if c AND 0xFF = 13 then s\<lparr>crt_pos := crt_pos s - crt_pos s mod CRT_COLS\<rparr>
      else (set_cell (crt_pos s) (ucast c) s)\<lparr>crt_pos := crt_pos s + 1\<rparr>)"

definition with_attr :: "i32 \<Rightarrow> i32" where
  "with_attr c = (if c AND NOT 0xFF = 0 then c OR 0x0700 else c)"

lemma with_attr_char: "with_attr c AND 0xFF = c AND 0xFF"
proof (rule bit_word_eqI)
  fix i
  have b: "bit (0x0700 :: i32) i \<longleftrightarrow> i = 8 \<or> i = 9 \<or> i = 10" if "i < 32"
  proof -
    have "i \<in> set [0..<32]" using that by simp
    then show ?thesis by (auto simp: upt_rec)
  qed
  assume "i < LENGTH(32)"
  then show "bit (with_attr c AND 0xFF) i = bit (c AND 0xFF) i"
    using b by (auto simp: with_attr_def bit_and_iff bit_or_iff mask_eq_exp_minus_1
        [of 8, where 'a = "32 word", simplified, symmetric] bit_mask_iff)
qed

text \<open>
  \<open>cga_putc\<close> and \<open>cons_putc\<close> call each other: a tab on the display is five spaces on the whole
  console.
\<close>

function cga_putc :: "hw \<Rightarrow> i32 \<Rightarrow> 'a con_scheme \<Rightarrow> 'a con_scheme"
  and cons_putc :: "hw \<Rightarrow> i32 \<Rightarrow> 'a con_scheme \<Rightarrow> 'a con_scheme" where
  "cga_putc h c s =
     (let c1 = with_attr c;
          s1 = (if c1 AND 0xFF = 9
                then cons_putc h 32 (cons_putc h 32 (cons_putc h 32 (cons_putc h 32 (cons_putc h 32 s))))
                else cga_plain c1 s)
      in cga_cursor (cga_scroll s1))"
| "cons_putc h c s = cga_putc h c (lpt_putc h c (serial_putc h c s))"
  by pat_completeness auto
termination
  by (relation "measure (\<lambda>x. case x of
        Inl (h, c, s) \<Rightarrow> if c AND 0xFF = 9 then 2 else 0
      | Inr (h, c, s) \<Rightarrow> if c AND 0xFF = 9 then 3 else 1)")
    (auto simp: with_attr_char)

declare cga_putc.simps [simp del] cons_putc.simps [simp del]

definition cputchar :: "hw \<Rightarrow> i32 \<Rightarrow> 'a con_scheme \<Rightarrow> 'a con_scheme" where
  "cputchar h c s = cons_putc h c s"

end
