(* ===== verification/Console_Laws.thy ===== *)
theory Console_Laws
  imports Console
begin

text \<open>
  The console output of kern/console.c against an abstract terminal: 2000 cells and a cursor.
  The display half of \<open>cons_putc\<close> refines it, writes no memory outside the 4000-byte window, and
  every character reaches the serial port even when the port never becomes ready.
\<close>

section \<open>Waiting for a port\<close>

definition only_reads :: "io_event list \<Rightarrow> bool" where
  "only_reads l \<longleftrightarrow> (\<forall>e \<in> set l. \<exists>p v. e = EIn8 p v)"

lemma only_reads_simps [simp]:
  "only_reads []" "only_reads (EIn8 p v # l) \<longleftrightarrow> only_reads l"
  "only_reads (l @ l') \<longleftrightarrow> only_reads l \<and> only_reads l'"
  by (auto simp: only_reads_def)

lemma delay_log: "\<exists>l. delay h s = s\<lparr>io_log := l @ io_log s\<rparr> \<and> only_reads l \<and> length l = 4"
  by (rule exI [of _ "take 4 (io_log (delay h s))"])
    (simp add: delay_def inb_def log_event_def Let_def numeral_eq_Suc)

lemma wait_ready_log:
  "\<exists>l. wait_ready h port r i s = s\<lparr>io_log := l @ io_log s\<rparr> \<and> only_reads l
    \<and> length l \<le> 5 * (12800 - i) + 1"
proof (induction h port r i s rule: wait_ready.induct)
  case (1 h port r i s)
  obtain v where v: "inb h port s = (v, log_event (EIn8 (ucast port) v) s)"
    by (simp add: inb_def Let_def)
  let ?s1 = "log_event (EIn8 (ucast port) v) s"
  show ?case
  proof (cases "v AND r = 0 \<and> i < 12800")
    case True
    obtain l1 where l1: "delay h ?s1 = ?s1\<lparr>io_log := l1 @ io_log ?s1\<rparr>" "only_reads l1" "length l1 = 4"
      using delay_log by blast
    obtain l2 where l2: "wait_ready h port r (Suc i) (delay h ?s1) =
        (delay h ?s1)\<lparr>io_log := l2 @ io_log (delay h ?s1)\<rparr>" "only_reads l2"
        "length l2 \<le> 5 * (12800 - Suc i) + 1"
      using "1.IH" [OF v [symmetric] refl True] by blast
    have "wait_ready h port r i s = s\<lparr>io_log := (l2 @ l1 @ [EIn8 (ucast port) v]) @ io_log s\<rparr>"
      by (subst wait_ready.simps) (use v True l1(1) l2(1) in \<open>simp add: log_event_def\<close>)
    moreover have "length (l2 @ l1 @ [EIn8 (ucast port) v]) \<le> 5 * (12800 - i) + 1"
      using l1(3) l2(3) True by (simp only: length_append list.size) linarith
    ultimately show ?thesis using l1(2) l2(2) by (intro exI conjI) (assumption, simp_all)
  next
    case False
    then have "wait_ready h port r i s = s\<lparr>io_log := [EIn8 (ucast port) v] @ io_log s\<rparr>"
      by (subst wait_ready.simps) (use v in \<open>auto simp: log_event_def\<close>)
    then show ?thesis by (intro exI conjI) (assumption, simp_all)
  qed
qed

section \<open>What a port has been sent\<close>

definition sent :: "u16 \<Rightarrow> io_event list \<Rightarrow> u8 list" where
  "sent p log = concat (map (\<lambda>e. case e of EOut8 q v \<Rightarrow> if q = p then [v] else [] | _ \<Rightarrow> []) (rev log))"

lemma sent_simps [simp]:
  "sent p [] = []"
  "sent p (EOut8 q v # l) = sent p l @ (if q = p then [v] else [])"
  "sent p (EIn8 q v # l) = sent p l"
  "sent p (l' @ l) = sent p l @ sent p l'"
  by (simp_all add: sent_def)

text \<open>How many bytes have been read from the data register of the serial port, 0x3F8.\<close>

definition rx_reads :: "io_event list \<Rightarrow> nat" where
  "rx_reads l = length (filter (\<lambda>e. case e of EIn8 p v \<Rightarrow> p = 0x3F8 | _ \<Rightarrow> False) l)"

lemma rx_reads_simps [simp]:
  "rx_reads [] = 0" "rx_reads (EOut8 p v # l) = rx_reads l"
  "rx_reads (EIn8 p v # l) = (if p = 0x3F8 then Suc (rx_reads l) else rx_reads l)"
  "rx_reads (l' @ l) = rx_reads l' + rx_reads l"
  by (simp_all add: rx_reads_def)

lemma wait_ready_rx:
  "(ucast port :: u16) \<noteq> 0x3F8 \<Longrightarrow> rx_reads (io_log (wait_ready h port r i s)) = rx_reads (io_log s)"
proof (induction h port r i s rule: wait_ready.induct)
  case (1 h port r i s)
  have "rx_reads (io_log (delay h s)) = rx_reads (io_log s)" for s :: "'a machine_scheme"
    by (simp add: delay_def inb_def log_event_def Let_def)
  with 1 show ?case
    by (subst wait_ready.simps) (auto simp: inb_def log_event_def Let_def split: prod.splits)
qed

lemma sent_only_reads: "only_reads l \<Longrightarrow> sent p l = []"
  by (induction l) (auto simp: only_reads_def sent_def)

lemma serial_putc_log:
  "\<exists>l. serial_putc h c s = s\<lparr>io_log := EOut8 0x3F8 (ucast c) # l @ io_log s\<rparr> \<and> only_reads l
    \<and> length l \<le> 64001"
proof -
  obtain l where "wait_ready h (COM1 + COM_LSR) COM_LSR_TXRDY 0 s = s\<lparr>io_log := l @ io_log s\<rparr>"
      "only_reads l" "length l \<le> 5 * (12800 - 0) + 1"
    using wait_ready_log by blast
  then show ?thesis by (auto simp: serial_putc_def outb_def log_event_def)
qed

lemma lpt_putc_log:
  "\<exists>l. lpt_putc h c s = s\<lparr>io_log := EOut8 0x37A 8 # EOut8 0x37A 13 # EOut8 0x378 (ucast c) # l @ io_log s\<rparr>
    \<and> only_reads l"
proof -
  obtain l where "wait_ready h (0x378 + 1) 0x80 0 s = s\<lparr>io_log := l @ io_log s\<rparr>" "only_reads l"
    using wait_ready_log by blast
  then show ?thesis by (auto simp: lpt_putc_def outb_def log_event_def Let_def)
qed

section \<open>The display as cells\<close>

definition con_ok :: "'a con_scheme \<Rightarrow> bool" where
  "con_ok s \<longleftrightarrow> crt_pos s < CRT_SIZE
     \<and> (crt_buf s = KERNBASE + CGA_BUF \<and> addr_6845 s = CGA_BASE
        \<or> crt_buf s = KERNBASE + MONO_BUF \<and> addr_6845 s = MONO_BASE)"

definition cell_at :: "'a con_scheme \<Rightarrow> nat \<Rightarrow> u32" where
  "cell_at s i = crt_buf s + 2 * of_nat i"

definition screen :: "'a con_scheme \<Rightarrow> u16 list" where
  "screen s = map (\<lambda>i. load16 (mem s) (cell_at s i)) [0..<2000]"

definition buf_ok :: "'a con_scheme \<Rightarrow> bool" where
  "buf_ok s \<longleftrightarrow> unat (crt_buf s) + 4000 \<le> 4294967296"

lemma con_ok_buf: "con_ok s \<Longrightarrow> buf_ok s"
  by (auto simp: con_ok_def buf_ok_def)

lemma length_screen [simp]: "length (screen s) = 2000"
  by (simp add: screen_def)

lemma screen_nth: "i < 2000 \<Longrightarrow> screen s ! i = load16 (mem s) (cell_at s i)"
  by (simp add: screen_def)

lemma screen_cong: "mem s' = mem s \<Longrightarrow> crt_buf s' = crt_buf s \<Longrightarrow> screen s' = screen s"
  by (simp add: screen_def cell_at_def)

lemma unat_cell: "buf_ok s \<Longrightarrow> i < 2000 \<Longrightarrow> unat (cell_at s i) = unat (crt_buf s) + 2 * i"
proof -
  assume ok: "buf_ok s" and i: "i < 2000"
  have "(2 * of_nat i :: u32) = of_nat (2 * i)" by simp
  then have "unat (2 * of_nat i :: u32) = 2 * i" using i by (simp only: unat_of_nat32)
  then show ?thesis using ok i by (simp add: cell_at_def unat_plus32 buf_ok_def)
qed

lemma cells_apart:
  "buf_ok s \<Longrightarrow> i < 2000 \<Longrightarrow> j < 2000 \<Longrightarrow> i \<noteq> j \<Longrightarrow> disjoint_rng (cell_at s i) 2 (cell_at s j) 2"
  using unat_cell [of s i] unat_cell [of s j]
  by (auto simp: disjoint_rng_def unat_diff32 buf_ok_def)

lemma cell_of_u16: "cell_at s (unat (i :: u16)) = crt_buf s + 2 * ucast i"
  by (simp add: cell_at_def)

lemma set_cell_fields [simp]:
  "crt_buf (set_cell i v s) = crt_buf s" "crt_pos (set_cell i v s) = crt_pos s"
  "addr_6845 (set_cell i v s) = addr_6845 s" "io_log (set_cell i v s) = io_log s"
  by (simp_all add: set_cell_def)

lemma screen_set_cell:
  assumes ok: "buf_ok s" and i: "unat i < 2000"
  shows "screen (set_cell i v s) = (screen s)[unat i := v]"
proof (rule nth_equalityI)
  fix k
  assume "k < length (screen (set_cell i v s))"
  then have k: "k < 2000" by simp
  have "screen (set_cell i v s) ! k = load16 (store16 (mem s) (cell_at s (unat i)) v) (cell_at s k)"
    using k by (simp add: screen_nth set_cell_def cell_of_u16 cell_at_def)
  also have "\<dots> = (screen s)[unat i := v] ! k"
    using k i cells_apart [OF ok k i]
    by (cases "k = unat i") (simp_all add: cell16.load_store cell16.load_store_other screen_nth)
  finally show "screen (set_cell i v s) ! k = (screen s)[unat i := v] ! k" .
qed simp

definition same_outside :: "'a con_scheme \<Rightarrow> 'a con_scheme \<Rightarrow> bool" where
  "same_outside s s' \<longleftrightarrow> crt_buf s' = crt_buf s \<and> addr_6845 s' = addr_6845 s
     \<and> (\<forall>a. \<not> in_rng a (crt_buf s) 4000 \<longrightarrow> mem s' a = mem s a)"

lemma same_outside_refl: "crt_buf s' = crt_buf s \<Longrightarrow> addr_6845 s' = addr_6845 s \<Longrightarrow> mem s' = mem s
    \<Longrightarrow> same_outside s s'"
  by (simp add: same_outside_def)

lemma same_outside_trans: "same_outside s s' \<Longrightarrow> same_outside s' s'' \<Longrightarrow> same_outside s s''"
  by (simp add: same_outside_def)

lemma cell_in_window:
  assumes ok: "buf_ok s" and i: "i < 2000" and a: "in_rng a (cell_at s i) 2"
  shows "in_rng a (crt_buf s) 4000"
proof -
  have un: "unat (cell_at s i) = unat (crt_buf s) + 2 * i" using unat_cell [OF ok i] .
  have "a = cell_at s i \<or> a = cell_at s i + 1" using a by (simp add: in_rng_2)
  moreover have "unat (cell_at s i + 1) = unat (crt_buf s) + 2 * i + 1"
    using un ok i by (simp add: unat_plus32 buf_ok_def)
  ultimately show ?thesis using un i by (auto simp: in_rng_def unat_diff32)
qed

lemma set_cell_outside:
  assumes "buf_ok s" and "unat i < 2000"
  shows "same_outside s (set_cell i v s)"
  unfolding same_outside_def
proof (intro conjI allI impI)
  fix a
  assume "\<not> in_rng a (crt_buf s) 4000"
  then have "\<not> in_rng a (cell_at s (unat i)) 2" using cell_in_window [OF assms] by blast
  then show "mem (set_cell i v s) a = mem s a"
    by (simp add: set_cell_def cell_of_u16 cell16.store_frame)
qed simp_all

section \<open>Scrolling\<close>

lemma fold_set_cell:
  "buf_ok s \<Longrightarrow> b \<le> 2000 \<Longrightarrow>
    (let s' = fold (\<lambda>i. set_cell (of_nat i) v) [a..<b] s
     in same_outside s s' \<and> crt_pos s' = crt_pos s \<and> io_log s' = io_log s
        \<and> (\<forall>k < 2000. screen s' ! k = (if a \<le> k \<and> k < b then v else screen s ! k)))"
proof (induction b)
  case 0
  then show ?case by (simp add: same_outside_refl)
next
  case (Suc b)
  show ?case
  proof (cases "a \<le> b")
    case False
    then have "[a..<Suc b] = []" by simp
    moreover have "\<not> (a \<le> k \<and> k < Suc b)" for k using False by linarith
    ultimately show ?thesis by (simp only: Let_def fold_simps) (simp add: same_outside_refl)
  next
    case True
    let ?s1 = "fold (\<lambda>i. set_cell (of_nat i) v) [a..<b] s"
    have IH: "same_outside s ?s1" "crt_pos ?s1 = crt_pos s" "io_log ?s1 = io_log s"
        "\<And>k. k < 2000 \<Longrightarrow> screen ?s1 ! k = (if a \<le> k \<and> k < b then v else screen s ! k)"
      using Suc by (simp_all add: Let_def)
    then have ok: "buf_ok ?s1" using Suc.prems by (simp add: same_outside_def buf_ok_def)
    have b: "unat (of_nat b :: u16) = b" using Suc.prems by (simp add: unat_of_nat)
    have b2: "b < 2000" using Suc.prems by simp
    have "same_outside s (set_cell (of_nat b) v ?s1)"
      using same_outside_trans [OF IH(1) set_cell_outside [OF ok]] b b2 by simp
    moreover have "screen (set_cell (of_nat b) v ?s1) = (screen ?s1)[b := v]"
      using screen_set_cell [OF ok, of "of_nat b"] b b2 by simp
    ultimately show ?thesis
      using True IH b2 by (auto simp: Let_def nth_list_update less_Suc_eq)
  qed
qed

definition blank :: u16 where [simp]: "blank = 0x0720"

text \<open>The text without its first line moves up by one line.\<close>

lemma lines_moved_up:
  assumes ok: "buf_ok s"
  defines "t \<equiv> s\<lparr>mem := memmove (crt_buf s) (crt_buf s + 160) 3840 (mem s)\<rparr>"
  shows "same_outside s t" "buf_ok t" "k < 1920 \<Longrightarrow> screen t ! k = screen s ! (k + 80)"
proof -
  let ?b = "crt_buf s"
  have b: "unat ?b + 4000 \<le> 4294967296" using ok by (simp add: buf_ok_def)
  then have "unat (?b + 160) = unat ?b + 160" by (simp add: unat_plus32)
  then have mv: "memmove ?b (?b + 160) 3840 (mem s) = moved 3840 ?b (?b + 160) (mem s)"
    using b by (subst memmove_moved) simp_all
  show "same_outside s t"
    by (auto simp: t_def same_outside_def mv moved_def dest: in_rng_mono [where k = 4000])
  show "buf_ok t" using ok by (simp add: t_def buf_ok_def)
  assume k: "k < 1920"
  have un: "unat (cell_at s k) = unat ?b + 2 * k" using k by (intro unat_cell [OF ok]) simp
  then have "unat (cell_at s k + 1) = unat ?b + 2 * k + 1" using k b by (simp add: unat_plus32)
  with un k have rng: "in_rng (cell_at s k) ?b 3840" "in_rng (cell_at s k + 1) ?b 3840"
    by (simp_all add: in_rng_def unat_diff32)
  have at: "?b + 160 + (cell_at s k - ?b) = cell_at s (k + 80)"
      "?b + 160 + (cell_at s k + 1 - ?b) = cell_at s (k + 80) + 1"
    by (simp_all add: cell_at_def algebra_simps)
  have "screen t ! k = load16 (moved 3840 ?b (?b + 160) (mem s)) (cell_at s k)"
    using k by (simp add: t_def screen_nth mv cell_at_def)
  also have "\<dots> = load16 (mem s) (cell_at s (k + 80))"
    by (simp only: load16_def moved_def rng if_True at)
  finally show "screen t ! k = screen s ! (k + 80)" using k by (simp add: screen_nth)
qed

lemma cga_scroll_down:
  assumes ok: "buf_ok s" and pos: "CRT_SIZE \<le> crt_pos s"
  shows "same_outside s (cga_scroll s) \<and> crt_pos (cga_scroll s) = crt_pos s - 80
    \<and> io_log (cga_scroll s) = io_log s
    \<and> screen (cga_scroll s) = drop 80 (screen s) @ replicate 80 blank"
proof -
  define s1 where "s1 = s\<lparr>mem := memmove (crt_buf s) (crt_buf s + 160) 3840 (mem s)\<rparr>"
  define s2 where "s2 = fold (\<lambda>i. set_cell (of_nat i) 0x0720) [1920..<2000] s1"
  have eq: "cga_scroll s = s2\<lparr>crt_pos := crt_pos s2 - 80\<rparr>"
  proof -
    have "0x0700 OR 32 = (0x0720 :: u16)" by simp
    moreover have "CRT_SIZE = 2000" "(2 * ucast CRT_COLS :: u32) = 160"
        "(ucast (CRT_SIZE - CRT_COLS) * 2 :: u32) = 3840" "CRT_COLS = 80" by simp_all
    ultimately show ?thesis unfolding cga_scroll_def s2_def s1_def if_P [OF pos] Let_def by (simp only:)
  qed
  note up = lines_moved_up [OF ok, folded s1_def]
  note f = fold_set_cell [OF up(2) order.refl, of "0x0720" 1920, unfolded Let_def, folded s2_def]
  have "screen (cga_scroll s) = screen s2" unfolding eq by (rule screen_cong) simp_all
  also have "\<dots> = drop 80 (screen s) @ replicate 80 blank"
  proof (rule nth_equalityI)
    fix k
    assume "k < length (screen s2)"
    then have k: "k < 2000" by simp
    then have "screen s2 ! k = (if 1920 \<le> k then 0x0720 else screen s1 ! k)" using f by simp
    with up(3) k show "screen s2 ! k = (drop 80 (screen s) @ replicate 80 blank) ! k"
      by (simp add: nth_append add.commute)
  qed simp
  finally have sc: "screen (cga_scroll s) = drop 80 (screen s) @ replicate 80 blank" .
  have "same_outside s s2" using same_outside_trans [OF up(1)] f by blast
  moreover have "crt_pos s2 = crt_pos s" "io_log s2 = io_log s" using f by (simp_all add: s1_def)
  ultimately show ?thesis using sc unfolding eq by (simp add: same_outside_def)
qed

section \<open>The abstract terminal\<close>

type_synonym terminal = "u16 list \<times> nat"

definition terminal :: "'a con_scheme \<Rightarrow> terminal" where
  "terminal s = (screen s, unat (crt_pos s))"

fun term_scroll :: "terminal \<Rightarrow> terminal" where
  "term_scroll (cells, pos) =
     (if 2000 \<le> pos then (drop 80 cells @ replicate 80 blank, pos - 80) else (cells, pos))"

fun term_plain :: "i32 \<Rightarrow> terminal \<Rightarrow> terminal" where
  "term_plain c (cells, pos) =
     (if c AND 0xFF = 8 then
        if 0 < pos then (cells[pos - 1 := ucast ((c AND NOT 0xFF) OR 32)], pos - 1) else (cells, pos)
      else if c AND 0xFF = 10 then (cells, 80 * (pos div 80 + 1))
      else if c AND 0xFF = 13 then (cells, 80 * (pos div 80))
      else (cells[pos := ucast c], pos + 1))"

definition term_put :: "i32 \<Rightarrow> terminal \<Rightarrow> terminal" where
  "term_put c t =
     (if c AND 0xFF = 9 then ((\<lambda>t. term_scroll (term_plain (with_attr 32) t)) ^^ 5) t
      else term_scroll (term_plain (with_attr c) t))"

text \<open>The three control characters and the others, one by one.\<close>

definition plain_refines :: "i32 \<Rightarrow> 'a con_scheme \<Rightarrow> bool" where
  "plain_refines c s \<longleftrightarrow> same_outside s (cga_plain c s) \<and> io_log (cga_plain c s) = io_log s
    \<and> terminal (cga_plain c s) = term_plain c (terminal s) \<and> unat (crt_pos (cga_plain c s)) < 2080"

lemma unat_crt_pos: "con_ok s \<Longrightarrow> unat (crt_pos s) < 2000"
  by (simp add: con_ok_def word_less_nat_alt)

lemma unat_line_start: "unat (x - x mod 80) = 80 * (unat x div 80)" for x :: u16
proof -
  have "x mod 80 \<le> x" by (simp add: word_le_nat_alt unat_mod)
  then have "unat (x - x mod 80) = unat x - unat x mod 80" by (simp add: unat_sub unat_mod)
  then show ?thesis by (simp add: minus_mod_eq_mult_div)
qed

lemma cga_plain_backspace:
  assumes ok: "con_ok s" and c: "c AND 0xFF = 8"
  shows "plain_refines c s"
proof (cases "0 < crt_pos s")
  case True
  note pos = unat_crt_pos [OF ok]
  have p: "0 < unat (crt_pos s)" using True by (simp add: word_less_nat_alt)
  have p1: "unat (crt_pos s - 1) = unat (crt_pos s) - 1"
    using unat_Suc_pred [of "crt_pos s"] True by (simp add: word_pos_iff)
  let ?s = "s\<lparr>crt_pos := crt_pos s - 1\<rparr>"
  have "buf_ok ?s" using con_ok_buf [OF ok] by (simp add: buf_ok_def)
  moreover have "unat (crt_pos s - 1) < 2000" using p1 pos by simp
  moreover have "screen ?s = screen s" by (rule screen_cong) simp_all
  ultimately have "screen (cga_plain c s) = (screen s)[unat (crt_pos s) - 1 := ucast ((c AND NOT 0xFF) OR 32)]"
      "same_outside ?s (cga_plain c s)"
    using c True p1 screen_set_cell [of ?s "crt_pos s - 1"] set_cell_outside [of ?s "crt_pos s - 1"]
    by (simp_all add: cga_plain_def Let_def)
  then show ?thesis
    using c True p p1 pos by (simp add: plain_refines_def terminal_def cga_plain_def Let_def same_outside_def)
next
  case False
  then have "crt_pos s = 0" by (simp add: word_pos_iff)
  with c show ?thesis by (simp add: plain_refines_def terminal_def cga_plain_def same_outside_def)
qed

lemma cga_plain_newline:
  assumes ok: "con_ok s" and c: "c AND 0xFF = 10"
  shows "plain_refines c s"
proof -
  note pos = unat_crt_pos [OF ok]
  have "unat (crt_pos s + 80) = unat (crt_pos s) + 80" using pos by (simp add: unat_plus_if')
  moreover have "(unat (crt_pos s) + 80) div 80 = unat (crt_pos s) div 80 + 1" by simp
  ultimately have "unat (crt_pos (cga_plain c s)) = 80 * (unat (crt_pos s) div 80 + 1)"
    using c by (simp only: cga_plain_def Let_def) (simp add: unat_line_start)
  moreover have "80 * (unat (crt_pos s) div 80 + 1) < 2080" using pos by simp
  moreover have "screen (cga_plain c s) = screen s"
    by (rule screen_cong) (use c in \<open>simp_all add: cga_plain_def Let_def\<close>)
  ultimately show ?thesis
    using c by (simp add: plain_refines_def terminal_def) (simp add: cga_plain_def Let_def same_outside_def)
qed

lemma cga_plain_return:
  assumes ok: "con_ok s" and c: "c AND 0xFF = 13"
  shows "plain_refines c s"
proof -
  have "unat (crt_pos (cga_plain c s)) = 80 * (unat (crt_pos s) div 80)"
    using c by (simp add: cga_plain_def Let_def unat_line_start)
  moreover have "80 * (unat (crt_pos s) div 80) < 2080" using unat_crt_pos [OF ok] by simp
  moreover have "screen (cga_plain c s) = screen s"
    by (rule screen_cong) (use c in \<open>simp_all add: cga_plain_def Let_def\<close>)
  ultimately show ?thesis
    using c by (simp add: plain_refines_def terminal_def) (simp add: cga_plain_def Let_def same_outside_def)
qed

lemma cga_plain_printed:
  assumes ok: "con_ok s" and c: "c AND 0xFF \<notin> {8, 9, 10, 13}"
  shows "plain_refines c s"
proof -
  let ?s = "set_cell (crt_pos s) (ucast c) s"
  note pos = unat_crt_pos [OF ok] and bok = con_ok_buf [OF ok]
  have eq: "cga_plain c s = ?s\<lparr>crt_pos := crt_pos s + 1\<rparr>" using c by (simp add: cga_plain_def)
  have "unat (crt_pos s + 1) = unat (crt_pos s) + 1" using pos by (simp add: unat_plus_if')
  moreover have "screen (cga_plain c s) = screen ?s" unfolding eq by (rule screen_cong) simp_all
  moreover have "same_outside s (cga_plain c s)"
    using set_cell_outside [OF bok pos] unfolding eq by (simp add: same_outside_def)
  ultimately show ?thesis
    using c pos screen_set_cell [OF bok pos, of "ucast c"]
    by (simp add: plain_refines_def terminal_def) (simp add: eq)
qed

lemma cga_plain_term:
  assumes "con_ok s" and "c AND 0xFF \<noteq> 9"
  shows "same_outside s (cga_plain c s) \<and> io_log (cga_plain c s) = io_log s
    \<and> terminal (cga_plain c s) = term_plain c (terminal s) \<and> unat (crt_pos (cga_plain c s)) < 2080"
  using cga_plain_backspace cga_plain_newline cga_plain_return cga_plain_printed assms
  unfolding plain_refines_def [symmetric] by blast

section \<open>A character on the whole console\<close>

text \<open>
  \<open>printed s s' f bs\<close>: going from \<open>s\<close> to \<open>s'\<close> did \<open>f\<close> to the terminal and sent \<open>bs\<close> to the
  serial port.
\<close>

definition printed ::
    "'a con_scheme \<Rightarrow> 'a con_scheme \<Rightarrow> (terminal \<Rightarrow> terminal) \<Rightarrow> u8 list \<Rightarrow> bool" where
  "printed s s' f bs \<longleftrightarrow> con_ok s' \<and> same_outside s s' \<and> terminal s' = f (terminal s)
     \<and> sent 0x3F8 (io_log s') = sent 0x3F8 (io_log s) @ bs"

lemma printed_trans:
  "printed s s' f bs \<Longrightarrow> printed s' s'' g cs \<Longrightarrow> printed s s'' (\<lambda>t. g (f t)) (bs @ cs)"
  by (auto simp: printed_def intro: same_outside_trans)

lemma io_log_update [simp]:
  "terminal (s\<lparr>io_log := l\<rparr>) = terminal s" "con_ok (s\<lparr>io_log := l\<rparr>) = con_ok s"
  "same_outside s (s\<lparr>io_log := l\<rparr>)"
  by (simp_all add: terminal_def screen_def cell_at_def con_ok_def same_outside_def)

lemma printed_log:
  "con_ok s \<Longrightarrow> s' = s\<lparr>io_log := l @ io_log s\<rparr> \<Longrightarrow> sent 0x3F8 l = bs \<Longrightarrow> printed s s' (\<lambda>t. t) bs"
  by (simp add: printed_def)

lemma serial_putc_printed: "con_ok s \<Longrightarrow> printed s (serial_putc h c s) (\<lambda>t. t) [ucast c]"
proof -
  assume ok: "con_ok s"
  obtain l where l: "serial_putc h c s = s\<lparr>io_log := EOut8 0x3F8 (ucast c) # l @ io_log s\<rparr>" "only_reads l"
    using serial_putc_log by blast
  show ?thesis
    by (rule printed_log [OF ok, where l = "EOut8 0x3F8 (ucast c) # l"])
      (use l in \<open>simp_all add: sent_only_reads\<close>)
qed

lemma lpt_putc_printed: "con_ok s \<Longrightarrow> printed s (lpt_putc h c s) (\<lambda>t. t) []"
proof -
  assume ok: "con_ok s"
  obtain l where l: "lpt_putc h c s =
      s\<lparr>io_log := EOut8 0x37A 8 # EOut8 0x37A 13 # EOut8 0x378 (ucast c) # l @ io_log s\<rparr>" "only_reads l"
    using lpt_putc_log by blast
  show ?thesis
    by (rule printed_log [OF ok, where l = "EOut8 0x37A 8 # EOut8 0x37A 13 # EOut8 0x378 (ucast c) # l"])
      (use l in \<open>simp_all add: sent_only_reads\<close>)
qed

lemma cga_cursor_printed: "con_ok s \<Longrightarrow> printed s (cga_cursor s) (\<lambda>t. t) []"
  by (rule printed_log [where l = "[EOut8 (ucast (addr_6845 s + 1)) (ucast (crt_pos s)),
        EOut8 (ucast (addr_6845 s)) 15,
        EOut8 (ucast (addr_6845 s + 1)) (ucast (drop_bit 8 (crt_pos s))),
        EOut8 (ucast (addr_6845 s)) 14]"])
    (auto simp: cga_cursor_def outb_def log_event_def con_ok_def)

lemma cga_scroll_idle: "crt_pos s < CRT_SIZE \<Longrightarrow> cga_scroll s = s"
  by (simp add: cga_scroll_def not_le)

lemma cga_scroll_printed:
  assumes same: "same_outside s s1" and ok: "con_ok s" and pos: "unat (crt_pos s1) < 2080"
    and log: "io_log s1 = io_log s" and tm: "terminal s1 = f (terminal s)"
  shows "printed s (cga_scroll s1) (\<lambda>t. term_scroll (f t)) []"
proof (cases "CRT_SIZE \<le> crt_pos s1")
  case True
  have b1: "buf_ok s1" using con_ok_buf [OF ok] same by (simp add: buf_ok_def same_outside_def)
  note sc = cga_scroll_down [OF b1 True]
  have "2000 \<le> unat (crt_pos s1)" using True by (simp add: word_le_nat_alt)
  moreover from this have "unat (crt_pos s1 - 80) = unat (crt_pos s1) - 80" by (simp add: unat_sub_if')
  ultimately show ?thesis
    using sc same ok pos tm [symmetric] log same_outside_trans [OF same, of "cga_scroll s1"]
    by (auto simp: printed_def con_ok_def terminal_def same_outside_def word_less_nat_alt)
next
  case False
  then have "cga_scroll s1 = s1" by (simp add: cga_scroll_idle)
  moreover have "con_ok s1" using False ok same by (auto simp: con_ok_def same_outside_def)
  moreover have "\<not> 2000 \<le> snd (terminal s1)" using False by (simp add: terminal_def word_le_nat_alt)
  then have "term_scroll (terminal s1) = terminal s1" by (cases "terminal s1") simp
  ultimately show ?thesis using same log tm by (simp add: printed_def)
qed

lemma cga_putc_plain:
  assumes ok: "con_ok s" and c: "c AND 0xFF \<noteq> 9"
  shows "printed s (cga_putc h c s) (\<lambda>t. term_scroll (term_plain (with_attr c) t)) []"
proof -
  have c1: "with_attr c AND 0xFF \<noteq> 9" using c by (simp add: with_attr_char)
  have p: "printed s (cga_scroll (cga_plain (with_attr c) s))
      (\<lambda>t. term_scroll (term_plain (with_attr c) t)) []"
    using cga_plain_term [OF ok c1] by (intro cga_scroll_printed [OF _ ok]) simp_all
  then have "con_ok (cga_scroll (cga_plain (with_attr c) s))" by (simp add: printed_def)
  from printed_trans [OF p cga_cursor_printed [OF this]] show ?thesis
    using c1 by (subst cga_putc.simps) (simp add: Let_def)
qed

lemma cons_putc_plain:
  assumes ok: "con_ok s" and c: "c AND 0xFF \<noteq> 9"
  shows "printed s (cons_putc h c s) (\<lambda>t. term_scroll (term_plain (with_attr c) t)) [ucast c]"
proof -
  have ok1: "con_ok (serial_putc h c s)" using serial_putc_printed [OF ok] by (simp add: printed_def)
  have ok2: "con_ok (lpt_putc h c (serial_putc h c s))"
    using lpt_putc_printed [OF ok1] by (simp add: printed_def)
  from printed_trans [OF printed_trans [OF serial_putc_printed [OF ok] lpt_putc_printed [OF ok1]]
      cga_putc_plain [OF ok2 c, of h]]
  show ?thesis by (subst cons_putc.simps) simp
qed

lemma cga_putc_tab:
  assumes ok: "con_ok s" and c: "c AND 0xFF = 9"
  shows "printed s (cga_putc h c s)
    (\<lambda>t. ((\<lambda>t. term_scroll (term_plain (with_attr 32) t)) ^^ 5) t) (replicate 5 32)"
proof -
  let ?f = "\<lambda>t. term_scroll (term_plain (with_attr 32) t)"
  let ?p = "cons_putc h 32"
  have step: "printed s' (?p s') ?f [32]" if "con_ok s'" for s' :: "'a con_scheme"
    using cons_putc_plain [OF that, of 32 h] by simp
  have many: "printed s ((?p ^^ Suc n) s) (?f ^^ Suc n) (replicate (Suc n) 32)" for n
  proof (induction n)
    case 0
    then show ?case using step [OF ok] by simp
  next
    case (Suc n)
    then have "con_ok ((?p ^^ Suc n) s)" by (simp only: printed_def)
    from printed_trans [OF Suc step [OF this]] show ?case
      by (simp add: replicate_append_same comp_def)
  qed
  let ?s5 = "(?p ^^ Suc 4) s"
  have ok5: "con_ok ?s5" using many [of 4] by (simp only: printed_def)
  then have idle: "cga_scroll ?s5 = ?s5" by (intro cga_scroll_idle) (simp only: con_ok_def)
  from printed_trans [OF many [of 4] cga_cursor_printed [OF ok5]]
  have "printed s (cga_cursor (cga_scroll ?s5)) (?f ^^ Suc 4) (replicate (Suc 4) 32)"
    unfolding idle by simp
  moreover have "cga_putc h c s = cga_cursor (cga_scroll ?s5)"
    using c by (subst cga_putc.simps) (simp add: with_attr_char eval_nat_numeral)
  moreover have "Suc 4 = (5 :: nat)" by simp
  ultimately show ?thesis by (simp only:)
qed

lemma cons_putc_run:
  assumes "con_ok s"
  shows "terminal (cons_putc h c s) = term_put c (terminal s)
    \<and> con_ok (cons_putc h c s) \<and> same_outside s (cons_putc h c s)
    \<and> sent 0x3F8 (io_log (cons_putc h c s)) = sent 0x3F8 (io_log s)
        @ ucast c # (if c AND 0xFF = 9 then replicate 5 32 else [])"
proof -
  have ok1: "con_ok (serial_putc h c s)" using serial_putc_printed [OF assms] by (simp add: printed_def)
  have ok2: "con_ok (lpt_putc h c (serial_putc h c s))"
    using lpt_putc_printed [OF ok1] by (simp add: printed_def)
  note pre = printed_trans [OF serial_putc_printed [OF assms] lpt_putc_printed [OF ok1]]
  have "printed s (cons_putc h c s) (term_put c)
      (ucast c # (if c AND 0xFF = 9 then replicate 5 32 else []))"
  proof (cases "c AND 0xFF = 9")
    case True
    from printed_trans [OF pre cga_putc_tab [OF ok2 True, of h]] True show ?thesis
      by (subst cons_putc.simps) (simp add: term_put_def [abs_def])
  next
    case False
    with cons_putc_plain [OF assms False, of h] show ?thesis by (simp add: term_put_def [abs_def])
  qed
  then show ?thesis by (simp add: printed_def)
qed

text \<open>
  C7: \<open>cons_putc\<close> refines the abstract terminal, writes nothing outside the display window, keeps
  the cursor on the screen, and sends the character to the serial port (for a tab, the tab and
  five spaces).
\<close>

theorem cons_putc_refines:
  assumes "con_ok s"
  shows "terminal (cons_putc h c s) = term_put c (terminal s)
    \<and> con_ok (cons_putc h c s) \<and> same_outside s (cons_putc h c s)
    \<and> sent 0x3F8 (io_log (cons_putc h c s)) = sent 0x3F8 (io_log s)
        @ ucast c # (if c AND 0xFF = 9 then replicate 5 32 else [])"
  by (rule cons_putc_run [OF assms])

end
