(* ===== verification/Printf.thy ===== *)
theory Printf
  imports Format_Laws Console_Laws
begin

text \<open>
  kern/printf.c: \<open>cprintf\<close> is the formatting engine on the console, with a counter as \<open>putdat\<close>.
\<close>

definition putch :: "hw \<Rightarrow> i32 \<Rightarrow> i32 \<times> 'a con_scheme \<Rightarrow> i32 \<times> 'a con_scheme" where
  "putch h ch st = (case st of (cnt, s) \<Rightarrow> let s1 = cputchar h ch s in (cnt + 1, s1))"

definition vcprintf ::
    "hw \<Rightarrow> u8 list \<Rightarrow> vararg list \<Rightarrow> 'a con_scheme \<Rightarrow> (i32 \<times> 'a con_scheme) option" where
  "vcprintf h fmt ap s = vprintfmt (putch h) (\<lambda>st. mem (snd st)) fmt 0 ap (0, s)"

definition cprintf ::
    "hw \<Rightarrow> u8 list \<Rightarrow> vararg list \<Rightarrow> 'a con_scheme \<Rightarrow> (i32 \<times> 'a con_scheme) option" where
  "cprintf h fmt ap s = vcprintf h fmt ap s"

section \<open>What output changes\<close>

text \<open>Output changes memory, the log and the cursor position, and no other variable of the kernel.\<close>

definition out_only :: "'a con_scheme \<Rightarrow> 'a con_scheme \<Rightarrow> bool" where
  "out_only s t \<longleftrightarrow> t = s\<lparr>mem := mem t, io_log := io_log t, crt_pos := crt_pos t\<rparr>
     \<and> rx_reads (io_log t) = rx_reads (io_log s)"

lemma out_only_refl [simp]: "out_only s s"
  by (simp add: out_only_def)

lemma out_only_eq: "out_only s t \<Longrightarrow> t = s\<lparr>mem := mem t, io_log := io_log t, crt_pos := crt_pos t\<rparr>"
  by (simp add: out_only_def)

lemma out_only_trans: "out_only s t \<Longrightarrow> out_only t u \<Longrightarrow> out_only s u"
proof -
  assume st: "out_only s t" and tu: "out_only t u"
  have "u = t\<lparr>mem := mem u, io_log := io_log u, crt_pos := crt_pos u\<rparr>" by (rule out_only_eq [OF tu])
  also have "\<dots> = s\<lparr>mem := mem t, io_log := io_log t, crt_pos := crt_pos t\<rparr>
      \<lparr>mem := mem u, io_log := io_log u, crt_pos := crt_pos u\<rparr>"
    by (rule arg_cong [OF out_only_eq [OF st]])
  also have "\<dots> = s\<lparr>mem := mem u, io_log := io_log u, crt_pos := crt_pos u\<rparr>" by simp
  finally have "u = s\<lparr>mem := mem u, io_log := io_log u, crt_pos := crt_pos u\<rparr>" .
  moreover have "rx_reads (io_log u) = rx_reads (io_log s)" using st tu unfolding out_only_def by (metis)
  ultimately show ?thesis unfolding out_only_def by blast
qed

lemma out_only_update [simp]:
  "rx_reads l = rx_reads (io_log s) \<Longrightarrow> out_only s (s\<lparr>io_log := l\<rparr>)"
  "out_only s (s\<lparr>mem := m\<rparr>)" "out_only s (s\<lparr>crt_pos := p\<rparr>)"
  by (simp_all add: out_only_def)

lemma out_only_then:
  "out_only s t \<Longrightarrow> out_only s (t\<lparr>mem := m\<rparr>)" "out_only s t \<Longrightarrow> out_only s (t\<lparr>crt_pos := p\<rparr>)"
  by (rule out_only_trans, assumption, simp)+

text \<open>What input routines see of the console: their variables, and the bytes read from the serial port.\<close>

definition input_state :: "'a con_scheme \<Rightarrow> bool \<times> u32 \<times> u8 list \<times> u32 \<times> u32 \<times> nat" where
  "input_state s = (serial_exists s, kbd_shift s, cons_buf s, cons_rpos s, cons_wpos s, rx_reads (io_log s))"

lemma out_only_input: "out_only s t \<Longrightarrow> input_state t = input_state s"
proof -
  assume st: "out_only s t"
  then have "input_state t = input_state (s\<lparr>mem := mem t, io_log := io_log t, crt_pos := crt_pos t\<rparr>)"
    by (intro arg_cong [OF out_only_eq])
  then show ?thesis using st by (simp add: input_state_def out_only_def)
qed

lemma out_only_io:
  "(ucast port :: u16) \<noteq> 0x3F8 \<Longrightarrow> out_only s (wait_ready h port r i s)" "out_only s (outb port b s)"
  using wait_ready_log [of h port r i s] wait_ready_rx [of port h r i s] by (auto simp: outb_def log_event_def)

lemma out_only_display:
  "out_only s (set_cell i v s)" "out_only s (fold (\<lambda>i. set_cell (f i) v) is s)"
  "out_only s (cga_scroll s)" "out_only s (cga_cursor s)" "out_only s (cga_plain c s)"
proof -
  show one: "out_only s (set_cell i v s)" for i v and s :: "'a con_scheme"
    by (simp add: set_cell_def)
  show many: "out_only s (fold (\<lambda>i. set_cell (f i) v) is s)" for f v "is" and s :: "'a con_scheme"
    by (induction "is" arbitrary: s) (auto intro: out_only_trans [OF one])
  show "out_only s (cga_scroll s)"
  proof (cases "CRT_SIZE \<le> crt_pos s")
    case True
    let ?s1 = "s\<lparr>mem := memmove (crt_buf s) (crt_buf s + 2 * ucast CRT_COLS)
                        (ucast (CRT_SIZE - CRT_COLS) * 2) (mem s)\<rparr>"
    have "out_only s (fold (\<lambda>i. set_cell (of_nat i) (0x0700 OR 32)) [1920..<2000] ?s1)"
      by (rule out_only_trans [OF out_only_update(2) many])
    with True show ?thesis by (simp only: cga_scroll_def Let_def if_True out_only_then)
  qed (simp add: cga_scroll_def)
  show "out_only s (cga_cursor s)"
    by (simp add: cga_cursor_def Let_def outb_def log_event_def)
  show "out_only s (cga_plain c s)"
    by (auto simp: cga_plain_def Let_def intro: out_only_trans [OF out_only_update(3) one]
        out_only_then one)
qed

lemma out_only_outb: "out_only s t \<Longrightarrow> out_only s (outb port b t)"
  by (rule out_only_trans [OF _ out_only_io(2)])

lemma out_only_ports: "out_only s (serial_putc h c s)" "out_only s (lpt_putc h c s)"
  unfolding serial_putc_def lpt_putc_def Let_def by (intro out_only_outb out_only_io; simp)+

lemma cons_putc_out_only: "out_only s (cons_putc h c s)"
proof -
  have finish: "out_only s t \<Longrightarrow> out_only s (cga_cursor (cga_scroll t))" for s t :: "'a con_scheme"
    by (metis out_only_display(3,4) out_only_trans)
  have plain: "out_only s (cons_putc h c s)" if "c AND 0xFF \<noteq> 9"
    for c and s :: "'a con_scheme"
  proof -
    let ?s = "lpt_putc h c (serial_putc h c s)"
    have "out_only s ?s" by (metis out_only_ports out_only_trans)
    then have "out_only s (cga_plain (with_attr c) ?s)" by (metis out_only_display(5) out_only_trans)
    then show ?thesis
      using that finish by (simp add: cons_putc.simps cga_putc.simps with_attr_char Let_def)
  qed
  show ?thesis
  proof (cases "c AND 0xFF = 9")
    case True
    let ?s = "lpt_putc h c (serial_putc h c s)" and ?p = "cons_putc h 32 :: 'a con_scheme \<Rightarrow> _"
    have p: "out_only s t \<Longrightarrow> out_only s (?p t)" for t using plain [of 32 t] by (auto intro: out_only_trans)
    have "out_only s ?s" by (metis out_only_ports out_only_trans)
    then have "out_only s (?p (?p (?p (?p (?p ?s)))))" by (intro p)
    then show ?thesis
      using True finish by (subst cons_putc.simps, subst cga_putc.simps) (simp add: with_attr_char Let_def)
  qed (rule plain)
qed

section \<open>cprintf on the terminal\<close>

text \<open>The bytes a character puts on the serial line.\<close>

definition serial_bytes :: "i32 \<Rightarrow> u8 list" where
  "serial_bytes c = ucast c # (if c AND 0xFF = 9 then replicate 5 32 else [])"

definition printing :: "'a con_scheme \<Rightarrow> i32 \<times> 'a con_scheme \<Rightarrow> bool" where
  "printing s0 st \<longleftrightarrow> con_ok (snd st) \<and> same_outside s0 (snd st) \<and> out_only s0 (snd st)"

interpretation console: sink "putch h" "\<lambda>st. mem (snd st)" "printing s0" for h s0
proof
  fix st c
  assume "printing s0 st"
  then show "printing s0 (putch h c st)"
    using cons_putc_run [of "snd st" h c] same_outside_trans [of s0 "snd st"]
      out_only_trans [OF _ cons_putc_out_only, of s0 "snd st"]
    by (auto simp: printing_def putch_def cputchar_def Let_def split: prod.split)
qed

lemma fold_putch:
  "con_ok s \<Longrightarrow> (let (n', s') = fold (putch h) out (n, s) in
    n' = n + of_nat (length out) \<and> terminal s' = fold term_put out (terminal s)
    \<and> sent 0x3F8 (io_log s') = sent 0x3F8 (io_log s) @ concat (map serial_bytes out))"
proof (induction out arbitrary: n s)
  case Nil
  then show ?case by simp
next
  case (Cons c out)
  note r = cons_putc_run [OF Cons.prems, of h c]
  then have "con_ok (cons_putc h c s)" by simp
  from Cons.IH [OF this, of "n + 1"] r show ?case
    by (simp add: putch_def cputchar_def Let_def serial_bytes_def algebra_simps split: prod.splits)
qed

lemma printing_args:
  assumes "string_args (crt_buf s) 4000 (mem s) ap ap'"
  shows "list_all2 (resolves (\<lambda>st. mem (snd st)) (printing s)) ap ap'"
  using assms unfolding string_args_def
proof (rule list_all2_mono, goal_cases)
  case (1 a b)
  have "cstr (mem (snd st)) p xs"
    if "cstr (mem s) p xs" "\<forall>c. in_rng c p (Suc (length xs)) \<longrightarrow> \<not> in_rng c (crt_buf s) 4000"
      "printing s st" for p xs st
    using that by (intro cstr_frame [OF that(1)]) (simp add: printing_def same_outside_def)
  with 1 show ?case unfolding resolves_def by blast
qed

text \<open>
  \<open>prints s out t\<close>: from \<open>s\<close> to \<open>t\<close> the characters \<open>out\<close> went to the terminal and to the serial
  line, and nothing else happened.
\<close>

definition prints :: "'a con_scheme \<Rightarrow> i32 list \<Rightarrow> 'a con_scheme \<Rightarrow> bool" where
  "prints s out t \<longleftrightarrow> terminal t = fold term_put out (terminal s)
     \<and> sent 0x3F8 (io_log t) = sent 0x3F8 (io_log s) @ concat (map serial_bytes out)
     \<and> con_ok t \<and> same_outside s t \<and> out_only s t"

lemma prints_trans: "prints s xs t \<Longrightarrow> prints t ys u \<Longrightarrow> prints s (xs @ ys) u"
  by (auto simp: prints_def intro: same_outside_trans out_only_trans)

lemma prints_Nil: "con_ok s \<Longrightarrow> prints s [] s"
  by (simp add: prints_def same_outside_refl)

text \<open>
  \<open>says s out t\<close>: the characters went out, whatever else happened to the kernel's variables and
  to memory that is not on display.
\<close>

definition says :: "'a con_scheme \<Rightarrow> i32 list \<Rightarrow> 'a con_scheme \<Rightarrow> bool" where
  "says s out t \<longleftrightarrow> terminal t = fold term_put out (terminal s)
     \<and> sent 0x3F8 (io_log t) = sent 0x3F8 (io_log s) @ concat (map serial_bytes out)
     \<and> con_ok t \<and> crt_buf t = crt_buf s"

lemma prints_says: "prints s out t \<Longrightarrow> says s out t"
  by (simp add: prints_def says_def same_outside_def)

lemma says_trans: "says s xs t \<Longrightarrow> says t ys u \<Longrightarrow> says s (xs @ ys) u"
  by (simp add: says_def)

lemma says_silent:
  assumes "con_ok s" and "con_ok t" and "crt_buf t = crt_buf s" and "crt_pos t = crt_pos s"
    and "\<And>a. in_rng a (crt_buf s) 4000 \<Longrightarrow> mem t a = mem s a"
    and "sent 0x3F8 (io_log t) = sent 0x3F8 (io_log s)"
  shows "says s [] t"
proof -
  have "load16 (mem t) (cell_at s i) = load16 (mem s) (cell_at s i)" if "i < 2000" for i
    using cell16.load_local [of "cell_at s i" "mem t" "mem s"] assms(5) cell_in_window [OF con_ok_buf [OF assms(1)] that] by auto
  then have "screen t = screen s"
    using assms(3) by (intro nth_equalityI) (simp_all add: screen_nth cell_at_def)
  with assms show ?thesis by (simp add: says_def terminal_def)
qed

text \<open>\<open>utters s out t\<close>: the characters went out and no input was taken.\<close>

definition utters :: "'a con_scheme \<Rightarrow> i32 list \<Rightarrow> 'a con_scheme \<Rightarrow> bool" where
  "utters s out t \<longleftrightarrow> says s out t \<and> input_state t = input_state s"

lemma utters_trans: "utters s xs t \<Longrightarrow> utters t ys u \<Longrightarrow> utters s (xs @ ys) u"
  using says_trans by (auto simp: utters_def)

lemma prints_utters: "prints s out t \<Longrightarrow> utters s out t"
  using prints_says [of s out t] out_only_input [of s t] by (simp add: utters_def prints_def)

lemma cputchar_prints: "con_ok s \<Longrightarrow> prints s [c] (cputchar h c s)"
  using cons_putc_run [of s h c] cons_putc_out_only [of s h c]
  by (simp add: prints_def cputchar_def serial_bytes_def)

lemma cprintf_prints:
  assumes ok: "con_ok s" and args: "string_args (crt_buf s) 4000 (mem s) ap ap'"
    and out: "render fmt 0 ap' = Some out"
  shows "\<exists>t. cprintf h fmt ap s = Some (of_nat (length out), t) \<and> prints s out t"
proof -
  have p0: "printing s (0, s)" using ok by (simp add: printing_def same_outside_refl)
  obtain n' s' where f: "fold (putch h) out (0, s) = (n', s')" by fastforce
  have "cprintf h fmt ap s = Some (n', s')"
    using console.vprintfmt_render [OF out printing_args [OF args] p0, of h] f
    by (simp add: cprintf_def vcprintf_def)
  moreover have "printing s (n', s')" using console.Inv_fold [OF p0, of h out] f by simp
  ultimately show ?thesis
    using fold_putch [OF ok, of h out 0] f by (auto simp: printing_def prints_def Let_def)
qed

lemma cprintf_run:
  assumes "con_ok s" and "string_args (crt_buf s) 4000 (mem s) ap ap'"
    and "render fmt 0 ap' = Some out"
  shows "\<exists>s'. cprintf h fmt ap s = Some (of_nat (length out), s')
    \<and> terminal s' = fold term_put out (terminal s)
    \<and> con_ok s' \<and> same_outside s s' \<and> input_state s' = input_state s
    \<and> sent 0x3F8 (io_log s') = sent 0x3F8 (io_log s) @ concat (map serial_bytes out)"
  using cprintf_prints [OF assms, of h] out_only_input by (auto simp: prints_def)

section \<open>Renderings of the kernel's messages\<close>

text \<open>
  Formats with symbolic arguments: \<open>%u\<close> and \<open>%d\<close> give \<open>dec\<close>, \<open>%08x\<close> gives \<open>hex8\<close>, \<open>%s\<close> the
  characters of the string.
\<close>

definition dec :: "nat \<Rightarrow> i32 list" where
  "dec n = map digit_text (digits 10 n)"

definition hex8 :: "u32 \<Rightarrow> i32 list" where
  "hex8 w = (let ds = digits 16 (unat w) in replicate (8 - length ds) 48 @ map digit_text ds)"

lemma number_text_dec: "number_text 10 n (- 1) c = dec n"
proof -
  have "nat (- 1 - int (length xs)) = 0" for xs :: "nat list" by simp
  then show ?thesis by (simp add: number_text_def dec_def Let_def)
qed

lemma number_text_hex8: "number_text 16 (unat w) 8 48 = hex8 w"
proof -
  have "nat (8 - int k) = 8 - k" for k by (cases "k \<le> 8") (simp_all add: nat_diff_distrib)
  then show ?thesis by (simp add: number_text_def hex8_def Let_def)
qed

lemmas render_sym = render.simps scan_flags.simps scan_digits.simps fch_def conv_text_def
  process_precision_def is_conv_def getint_def getuint_def signed_text_def word_sle_eq
  word_sless_alt Let_def spec0_fields unat_base64 number_text_dec number_text_hex8 string_text_plain

end
