(* ===== verification/Pmap.thy ===== *)
theory Pmap
  imports Printf Entry_Table
begin

text \<open>
  kern/kclock.c, kern/pmap.h and the first half of kern/pmap.c: reading the size of memory from
  the CMOS, the address conversions, the array of \<open>PageInfo\<close> structures and the page functions.
  Most of the latter are stubs in the source and are stubs here.  Memory is the linear address
  space, and a \<open>struct PageInfo\<close> is 8 bytes of it: \<open>pp_link\<close> at offset 0, \<open>pp_ref\<close> at offset 4.
\<close>

section \<open>The real-time clock's memory (kern/kclock.c)\<close>

definition IO_RTC :: u32 where [simp]: "IO_RTC = 0x70"
definition MC_NVRAM_START :: u32 where [simp]: "MC_NVRAM_START = 0xE"
definition NVRAM_BASELO :: u32 where [simp]: "NVRAM_BASELO = MC_NVRAM_START + 7"
definition NVRAM_EXTLO :: u32 where [simp]: "NVRAM_EXTLO = MC_NVRAM_START + 9"
definition NVRAM_EXT16LO :: u32 where [simp]: "NVRAM_EXT16LO = MC_NVRAM_START + 38"

definition mc146818_read :: "hw \<Rightarrow> u32 \<Rightarrow> 'a machine_scheme \<Rightarrow> u32 \<times> 'a machine_scheme" where
  "mc146818_read h reg s =
     (let s1 = outb IO_RTC (ucast reg) s; (v, s2) = inb h (IO_RTC + 1) s1 in (ucast v, s2))"

definition mc146818_write :: "u32 \<Rightarrow> u32 \<Rightarrow> 'a machine_scheme \<Rightarrow> 'a machine_scheme" where
  "mc146818_write reg datum s =
     (let s1 = outb IO_RTC (ucast reg) s in outb (IO_RTC + 1) (ucast datum) s1)"

section \<open>The kernel's variables\<close>

record kst = con +
  npages :: u32
  npages_basemem :: u32
  kern_pgdir :: u32
  pages :: u32
  page_free_list :: u32
  nextfree :: u32
  panicstr :: "u8 list option"

definition pp_link :: "u32 \<Rightarrow> 'a machine_scheme \<Rightarrow> u32" where
  "pp_link pp s = load32 (mem s) pp"

definition pp_ref :: "u32 \<Rightarrow> 'a machine_scheme \<Rightarrow> u16" where
  "pp_ref pp s = load16 (mem s) (pp + 4)"

definition set_link :: "u32 \<Rightarrow> u32 \<Rightarrow> 'a machine_scheme \<Rightarrow> 'a machine_scheme" where
  "set_link pp v s = s\<lparr>mem := store32 (mem s) pp v\<rparr>"

definition set_ref :: "u32 \<Rightarrow> u16 \<Rightarrow> 'a machine_scheme \<Rightarrow> 'a machine_scheme" where
  "set_ref pp v s = s\<lparr>mem := store16 (mem s) (pp + 4) v\<rparr>"

section \<open>Physical and virtual addresses (kern/pmap.h)\<close>

definition PADDR :: "string \<Rightarrow> i32 \<Rightarrow> u32 \<Rightarrow> (u32, 's) kernel" where
  "PADDR file line kva s =
     (if kva < KERNBASE
      then kpanic file line (ascii ''PADDR called with invalid kva %08lx'') [Slot kva] s
      else kreturn (kva - KERNBASE) s)"

definition KADDR :: "string \<Rightarrow> i32 \<Rightarrow> u32 \<Rightarrow> (u32, 'a kst_scheme) kernel" where
  "KADDR file line pa s =
     (if npages s \<le> PGNUM pa
      then kpanic file line (ascii ''KADDR called with invalid pa %08lx'') [Slot pa] s
      else kreturn (pa + KERNBASE) s)"

definition ALLOC_ZERO :: i32 where [simp]: "ALLOC_ZERO = 1"

text \<open>The difference of two pointers to 8-byte structures is an arithmetic shift.\<close>

definition page2pa :: "u32 \<Rightarrow> 'a kst_scheme \<Rightarrow> u32" where
  "page2pa pp s = push_bit 12 (signed_drop_bit 3 (pp - pages s))"

definition pa2page :: "u32 \<Rightarrow> (u32, 'a kst_scheme) kernel" where
  "pa2page pa s =
     (if npages s \<le> PGNUM pa
      then kpanic ''./kern/pmap.h'' 75 (ascii ''pa2page called with invalid pa'') [] s
      else kreturn (pages s + 8 * PGNUM pa) s)"

definition page2kva :: "u32 \<Rightarrow> (u32, 'a kst_scheme) kernel" where
  "page2kva pp s = KADDR ''./kern/pmap.h'' 82 (page2pa pp s) s"

section \<open>Detecting memory\<close>

definition nvram_read :: "hw \<Rightarrow> u32 \<Rightarrow> 'a machine_scheme \<Rightarrow> i32 \<times> 'a machine_scheme" where
  "nvram_read h r s =
     (let (lo, s1) = mc146818_read h r s; (hi, s2) = mc146818_read h (r + 1) s1
      in (lo OR push_bit 8 hi, s2))"

definition i386_detect_memory :: "hw \<Rightarrow> 'a kst_scheme \<Rightarrow> (i32 \<times> 'a kst_scheme) option" where
  "i386_detect_memory h s =
     (let (basemem, s1) = nvram_read h NVRAM_BASELO s;
          (extmem, s2) = nvram_read h NVRAM_EXTLO s1;
          (ext16, s3) = nvram_read h NVRAM_EXT16LO s2;
          ext16mem = ext16 * 64;
          totalmem = (if ext16mem \<noteq> 0 then 16 * 1024 + ext16mem
                      else if extmem \<noteq> 0 then 1 * 1024 + extmem
                      else basemem);
          s4 = s3\<lparr>npages := totalmem div (PGSIZE div 1024), npages_basemem := basemem div (PGSIZE div 1024)\<rparr>
      in cprintf h (ascii ''Physical memory: %uK available, base = %uK, extended = %uK'' @ [10])
           [Slot totalmem, Slot basemem, Slot (totalmem - basemem)] s4)"

section \<open>Allocation\<close>

definition boot_alloc :: "linkmap \<Rightarrow> u32 \<Rightarrow> 'a kst_scheme \<Rightarrow> u32 \<times> 'a kst_scheme" where
  "boot_alloc lk n s =
     (let s1 = (if nextfree s = 0 then s\<lparr>nextfree := ROUNDUP (sym_end lk) PGSIZE\<rparr> else s) in (0, s1))"

definition page_init_entry :: "nat \<Rightarrow> 'a kst_scheme \<Rightarrow> 'a kst_scheme" where
  "page_init_entry i s =
     (let pp = pages s + 8 * of_nat i;
          s1 = set_ref pp 0 s;
          s2 = set_link pp (page_free_list s1) s1
      in s2\<lparr>page_free_list := pp\<rparr>)"

definition page_init :: "'a kst_scheme \<Rightarrow> 'a kst_scheme" where
  "page_init s = fold page_init_entry [0..<unat (npages s)] s"

definition page_alloc :: "i32 \<Rightarrow> (u32, 's) kernel" where
  "page_alloc alloc_flags s = kreturn 0 s"

definition page_free :: "u32 \<Rightarrow> 's \<Rightarrow> 's" where
  "page_free pp s = s"

definition page_decref :: "u32 \<Rightarrow> 'a machine_scheme \<Rightarrow> 'a machine_scheme" where
  "page_decref pp s =
     (let s1 = set_ref pp (pp_ref pp s - 1) s in if pp_ref pp s1 = 0 then page_free pp s1 else s1)"

definition pgdir_walk :: "u32 \<Rightarrow> u32 \<Rightarrow> i32 \<Rightarrow> (u32, 's) kernel" where
  "pgdir_walk pgdir va create s = kreturn 0 s"

definition boot_map_region :: "u32 \<Rightarrow> u32 \<Rightarrow> u32 \<Rightarrow> u32 \<Rightarrow> i32 \<Rightarrow> 's \<Rightarrow> 's" where
  "boot_map_region pgdir va sz pa perm s = s"

definition page_insert :: "u32 \<Rightarrow> u32 \<Rightarrow> u32 \<Rightarrow> i32 \<Rightarrow> (i32, 's) kernel" where
  "page_insert pgdir pp va perm s = kreturn 0 s"

text \<open>The place for the entry is the address of a local variable of the caller.\<close>

definition page_lookup :: "u32 \<Rightarrow> u32 \<Rightarrow> 'p \<Rightarrow> (u32, 's) kernel" where
  "page_lookup pgdir va pte_store s = kreturn 0 s"

definition page_remove :: "u32 \<Rightarrow> u32 \<Rightarrow> 's \<Rightarrow> 's" where
  "page_remove pgdir va s = s"

definition tlb_invalidate :: "u32 \<Rightarrow> u32 \<Rightarrow> 'a machine_scheme \<Rightarrow> 'a machine_scheme" where
  "tlb_invalidate pgdir va s = invlpg va s"

section \<open>Walking a page directory\<close>

definition check_va2pa :: "u32 \<Rightarrow> u32 \<Rightarrow> (u32, 'a kst_scheme) kernel" where
  "check_va2pa pgdir va s =
     (let pde = load32 (mem s) (pgdir + 4 * PDX va) in
      if pde AND PTE_P = 0 then kreturn (NOT 0) s
      else if pde AND PTE_PS \<noteq> 0 then kreturn (PGADDR (PDX pde) (PTX va) (PGOFF va)) s
      else kbind (KADDR ''kern/pmap.c'' 657 (PTE_ADDR pde) s) (\<lambda>p s.
        let pte = load32 (mem s) (p + 4 * PTX va) in
        if pte AND PTE_P = 0 then kreturn (NOT 0) s else kreturn (PTE_ADDR pte) s))"

section \<open>The page directory the kernel boots with (kern/entrypgdir.c)\<close>

definition entry_pgdir :: "linkmap \<Rightarrow> u32 list" where
  "entry_pgdir lk =
     (replicate 1024 0)
       [0 := (sym_entry_pgtable lk - KERNBASE) + PTE_P,
        unat (drop_bit 22 KERNBASE) := (sym_entry_pgtable lk - KERNBASE) + PTE_P + PTE_W]"

end
