(* ===== verification/Pmap_Checks.thy ===== *)
theory Pmap_Checks
  imports Pmap
begin

text \<open>
  The checking functions of kern/pmap.c and \<open>mem_init\<close>.  Each statement of the C code is one
  line here: \<open>passert\<close> is an assertion on a value, \<open>called\<close> one on the result of a call, with
  the line number and the text that \<open>assert\<close> passes to \<open>_panic\<close>.  Walking the free list, which
  may be cyclic, is partial.
\<close>

section \<open>Assertions and loops\<close>

definition passert :: "i32 \<Rightarrow> bool \<Rightarrow> string \<Rightarrow> (unit, 's) kernel" where
  "passert line x expr s = kassert ''kern/pmap.c'' line x expr s"

definition called ::
    "i32 \<Rightarrow> ('v, 's) kres option \<Rightarrow> ('v \<Rightarrow> bool) \<Rightarrow> string \<Rightarrow> ('v, 's) kres option" where
  "called line call P expr =
     kbind call (\<lambda>v s. kbind (passert line (P v) expr s) (\<lambda>_ s. kreturn v s))"

primrec kfor :: "nat \<Rightarrow> nat \<Rightarrow> (nat \<Rightarrow> (unit, 's) kernel) \<Rightarrow> (unit, 's) kernel" where
  "kfor i 0 body s = kreturn () s"
| "kfor i (Suc k) body s = kbind (body i s) (\<lambda>_ s. kfor (Suc i) k body s)"

text \<open>\<open>for (; i < n; i += PGSIZE)\<close>, on unsigned integers.\<close>

partial_function (option) page_loop ::
    "u32 \<Rightarrow> (u32 \<Rightarrow> 's \<Rightarrow> (unit, 's) kres option) \<Rightarrow> u32 \<Rightarrow> 's \<Rightarrow> (unit, 's) kres option" where
  "page_loop n body i s =
     (if i < n then kbind (body i s) (\<lambda>_ s. page_loop n body (i + PGSIZE) s) else kreturn () s)"

definition pgd :: "u32 \<Rightarrow> 'a kst_scheme \<Rightarrow> u32" where
  "pgd i s = load32 (mem s) (kern_pgdir s + 4 * i)"

definition set_pgd :: "u32 \<Rightarrow> u32 \<Rightarrow> 'a kst_scheme \<Rightarrow> 'a kst_scheme" where
  "set_pgd i v s = s\<lparr>mem := store32 (mem s) (kern_pgdir s + 4 * i) v\<rparr>"

section \<open>check\_page\_free\_list\<close>

text \<open>
  Where a \<open>struct PageInfo **\<close> of the function points: to one of the local variables \<open>pp1\<close> and
  \<open>pp2\<close>, or to the link of a page, the first field of its structure.
\<close>

datatype slot = Pp1 | Pp2 | Link u32

fun put_slot :: "slot \<Rightarrow> u32 \<Rightarrow> u32 \<times> u32 \<times> 'a kst_scheme \<Rightarrow> u32 \<times> u32 \<times> 'a kst_scheme" where
  "put_slot Pp1 v (pp1, pp2, s) = (v, pp2, s)"
| "put_slot Pp2 v (pp1, pp2, s) = (pp1, v, s)"
| "put_slot (Link a) v (pp1, pp2, s) = (pp1, pp2, set_link a v s)"

partial_function (option) reorder_loop ::
    "u32 \<Rightarrow> u32 \<Rightarrow> slot \<Rightarrow> slot \<Rightarrow> u32 \<times> u32 \<times> 'a kst_scheme \<Rightarrow>
     (slot \<times> slot \<times> u32 \<times> u32 \<times> 'a kst_scheme) option" where
  "reorder_loop limit pp tp0 tp1 vars =
     (if pp \<noteq> 0 then
        if limit \<le> PDX (page2pa pp (snd (snd vars))) then
          let vars1 = put_slot tp1 pp vars
          in reorder_loop limit (pp_link pp (snd (snd vars1))) tp0 (Link pp) vars1
        else
          let vars1 = put_slot tp0 pp vars
          in reorder_loop limit (pp_link pp (snd (snd vars1))) (Link pp) tp1 vars1
      else Some (tp0, tp1, vars))"

text \<open>\<open>pp1\<close> and \<open>pp2\<close> are not initialised; both are written before they are read.\<close>

definition reorder_free_list :: "u32 \<Rightarrow> 'a kst_scheme \<Rightarrow> 'a kst_scheme option" where
  "reorder_free_list limit s =
     do { (tp0, tp1, vars) \<leftarrow> reorder_loop limit (page_free_list s) Pp1 Pp2 (0, 0, s);
          let vars1 = put_slot tp1 0 vars;
          let (pp1, pp2, s1) = put_slot tp0 (fst (snd vars1)) vars1;
          Some (s1\<lparr>page_free_list := pp1\<rparr>) }"

partial_function (option) poison_loop ::
    "u32 \<Rightarrow> u32 \<Rightarrow> 'a kst_scheme \<Rightarrow> (unit, 'a kst_scheme) kres option" where
  "poison_loop limit pp s =
     (if pp \<noteq> 0 then
        kbind (if PDX (page2pa pp s) < limit
               then kbind (page2kva pp s) (\<lambda>kva s. kreturn () (s\<lparr>mem := memset kva 0x97 128 (mem s)\<rparr>))
               else kreturn () s)
          (\<lambda>_ s. poison_loop limit (pp_link pp s) s)
      else kreturn () s)"

definition check_free_page :: "u32 \<Rightarrow> u32 \<Rightarrow> (unit, 'a kst_scheme) kernel" where
  "check_free_page first_free_page pp s =
     kbind (passert 481 (pages s \<le> pp) ''pp >= pages'' s) (\<lambda>_ s.
     kbind (passert 482 (pp < pages s + 8 * npages s) ''pp < pages + npages'' s) (\<lambda>_ s.
     kbind (passert 483 ((pp - pages s) mod 8 = 0)
       ''((char *) pp - (char *) pages) % sizeof(*pp) == 0'' s) (\<lambda>_ s.
     kbind (passert 486 (page2pa pp s \<noteq> 0) ''page2pa(pp) != 0'' s) (\<lambda>_ s.
     kbind (passert 487 (page2pa pp s \<noteq> IOPHYSMEM) ''page2pa(pp) != IOPHYSMEM'' s) (\<lambda>_ s.
     kbind (passert 488 (page2pa pp s \<noteq> EXTPHYSMEM - PGSIZE)
       ''page2pa(pp) != EXTPHYSMEM - PGSIZE'' s) (\<lambda>_ s.
     kbind (passert 489 (page2pa pp s \<noteq> EXTPHYSMEM) ''page2pa(pp) != EXTPHYSMEM'' s) (\<lambda>_ s.
     kbind (if page2pa pp s < EXTPHYSMEM then kreturn True s
            else kbind (page2kva pp s) (\<lambda>kva s. kreturn (first_free_page \<le> kva) s)) (\<lambda>x s.
     passert 490 x ''page2pa(pp) < EXTPHYSMEM || (char *) page2kva(pp) >= first_free_page'' s))))))))"

partial_function (option) check_free_loop ::
    "u32 \<Rightarrow> u32 \<Rightarrow> i32 \<Rightarrow> i32 \<Rightarrow> 'a kst_scheme \<Rightarrow> (i32 \<times> i32, 'a kst_scheme) kres option" where
  "check_free_loop first_free_page pp nfree_basemem nfree_extmem s =
     (if pp \<noteq> 0 then
        kbind (check_free_page first_free_page pp s) (\<lambda>_ s.
          if page2pa pp s < EXTPHYSMEM
          then check_free_loop first_free_page (pp_link pp s) (nfree_basemem + 1) nfree_extmem s
          else check_free_loop first_free_page (pp_link pp s) nfree_basemem (nfree_extmem + 1) s)
      else kreturn (nfree_basemem, nfree_extmem) s)"

definition check_page_free_list :: "linkmap \<Rightarrow> bool \<Rightarrow> (unit, 'a kst_scheme) kernel" where
  "check_page_free_list lk only_low_memory s =
     (let pdx_limit = (if only_low_memory then 1 else NPDENTRIES) in
      if page_free_list s = 0
      then kpanic ''kern/pmap.c'' 455 ([39] @ ascii ''page_free_list'' @ [39] @ ascii '' is a null pointer!'') [] s
      else
        kbind (if only_low_memory then map_option (Ret ()) (reorder_free_list pdx_limit s)
               else kreturn () s) (\<lambda>_ s.
        kbind (poison_loop pdx_limit (page_free_list s) s) (\<lambda>_ s.
        let (first_free_page, s) = boot_alloc lk 0 s in
        kbind (check_free_loop first_free_page (page_free_list s) 0 0 s) (\<lambda>(nfree_basemem, nfree_extmem) s.
        kbind (passert 499 (0 <s nfree_basemem) ''nfree_basemem > 0'' s) (\<lambda>_ s.
        passert 500 (0 <s nfree_extmem) ''nfree_extmem > 0'' s)))))"

section \<open>check\_page\_alloc\<close>

partial_function (option) free_count ::
    "u32 \<Rightarrow> i32 \<Rightarrow> 'a kst_scheme \<Rightarrow> (i32, 'a kst_scheme) kres option" where
  "free_count pp nfree s =
     (if pp \<noteq> 0 then free_count (pp_link pp s) (nfree + 1) s else kreturn nfree s)"

definition check_page_alloc :: "hw \<Rightarrow> (i32, 'a kst_scheme) kernel" where
  "check_page_alloc h s =
     (if pages s = 0
      then kpanic ''kern/pmap.c'' 517 ([39] @ ascii ''pages'' @ [39] @ ascii '' is a null pointer!'') [] s
      else
        kbind (free_count (page_free_list s) 0 s) (\<lambda>nfree s.
        kbind (called 525 (page_alloc 0 s) (\<lambda>v. v \<noteq> 0)
            ''(pp0 = page_alloc(0))'') (\<lambda>pp0 s.
        kbind (called 526 (page_alloc 0 s) (\<lambda>v. v \<noteq> 0)
            ''(pp1 = page_alloc(0))'') (\<lambda>pp1 s.
        kbind (called 527 (page_alloc 0 s) (\<lambda>v. v \<noteq> 0)
            ''(pp2 = page_alloc(0))'') (\<lambda>pp2 s.
        kbind (passert 529 (pp0 \<noteq> 0) ''pp0'' s) (\<lambda>_ s.
        kbind (passert 530 (pp1 \<noteq> 0 \<and> pp1 \<noteq> pp0) ''pp1 && pp1 != pp0'' s) (\<lambda>_ s.
        kbind (passert 531 (pp2 \<noteq> 0 \<and> pp2 \<noteq> pp1 \<and> pp2 \<noteq> pp0)
            ''pp2 && pp2 != pp1 && pp2 != pp0'' s) (\<lambda>_ s.
        kbind (passert 532 (page2pa pp0 s < npages s * PGSIZE)
            ''page2pa(pp0) < npages * PGSIZE'' s) (\<lambda>_ s.
        kbind (passert 533 (page2pa pp1 s < npages s * PGSIZE)
            ''page2pa(pp1) < npages * PGSIZE'' s) (\<lambda>_ s.
        kbind (passert 534 (page2pa pp2 s < npages s * PGSIZE)
            ''page2pa(pp2) < npages * PGSIZE'' s) (\<lambda>_ s.
        let fl = page_free_list s in
        let s = s\<lparr>page_free_list := 0\<rparr> in
        kbind (called 541 (page_alloc 0 s) (\<lambda>v. v = 0) ''!page_alloc(0)'') (\<lambda>_ s.
        let s = page_free pp2 (page_free pp1 (page_free pp0 s)) in
        kbind (called 548 (page_alloc 0 s) (\<lambda>v. v \<noteq> 0)
            ''(pp0 = page_alloc(0))'') (\<lambda>pp0 s.
        kbind (called 549 (page_alloc 0 s) (\<lambda>v. v \<noteq> 0)
            ''(pp1 = page_alloc(0))'') (\<lambda>pp1 s.
        kbind (called 550 (page_alloc 0 s) (\<lambda>v. v \<noteq> 0)
            ''(pp2 = page_alloc(0))'') (\<lambda>pp2 s.
        kbind (passert 551 (pp0 \<noteq> 0) ''pp0'' s) (\<lambda>_ s.
        kbind (passert 552 (pp1 \<noteq> 0 \<and> pp1 \<noteq> pp0) ''pp1 && pp1 != pp0'' s) (\<lambda>_ s.
        kbind (passert 553 (pp2 \<noteq> 0 \<and> pp2 \<noteq> pp1 \<and> pp2 \<noteq> pp0)
            ''pp2 && pp2 != pp1 && pp2 != pp0'' s) (\<lambda>_ s.
        kbind (called 554 (page_alloc 0 s) (\<lambda>v. v = 0) ''!page_alloc(0)'') (\<lambda>_ s.
        kbind (page2kva pp0 s) (\<lambda>kva s.
        let s = s\<lparr>mem := memset kva 1 PGSIZE (mem s)\<rparr> in
        let s = page_free pp0 s in
        kbind (called 559 (page_alloc ALLOC_ZERO s) (\<lambda>v. v \<noteq> 0)
            ''(pp = page_alloc(ALLOC_ZERO))'') (\<lambda>pp s.
        kbind (passert 560 (pp \<noteq> 0 \<and> pp0 = pp) ''pp && pp0 == pp'' s) (\<lambda>_ s.
        kbind (page2kva pp s) (\<lambda>c s.
        kbind (kfor 0 4096 (\<lambda>i s. passert 563 (mem s (c + of_nat i) = 0)
            ''c[i] == 0'' s) s) (\<lambda>_ s.
        let s = s\<lparr>page_free_list := fl\<rparr> in
        let s = page_free pp2 (page_free pp1 (page_free pp0 s)) in
        kbind (free_count (page_free_list s) 0 s) (\<lambda>again s.
        kbind (passert 576 (nfree - again = 0) ''nfree == 0'' s) (\<lambda>_ s.
        kcall (cprintf h (ascii ''check_page_alloc() succeeded!'' @ [10]) [] s)))))))))))))))))))))))))))"

section \<open>check\_kern\_pgdir\<close>

definition check_pde :: "nat \<Rightarrow> (unit, 'a kst_scheme) kernel" where
  "check_pde n s =
     (let i = of_nat n; pde = pgd i s in
      if i = PDX UVPT \<or> i = PDX (KSTACKTOP - 1) \<or> i = PDX UPAGES
      then passert 619 (pde AND PTE_P \<noteq> 0) ''pgdir[i] & PTE_P'' s
      else if PDX KERNBASE \<le> i
      then kbind (passert 623 (pde AND PTE_P \<noteq> 0) ''pgdir[i] & PTE_P'' s) (\<lambda>_ s.
           passert 624 (pde AND PTE_W \<noteq> 0) ''pgdir[i] & PTE_W'' s)
      else passert 626 (pde = 0) ''pgdir[i] == 0'' s)"

definition check_kern_pgdir :: "hw \<Rightarrow> linkmap \<Rightarrow> (i32, 'a kst_scheme) kernel" where
  "check_kern_pgdir h lk s =
     (let pgdir = kern_pgdir s; n = ROUNDUP (npages s * 8) PGSIZE in
      kbind (page_loop n (\<lambda>i s.
          kbind (check_va2pa pgdir (UPAGES + i) s) (\<lambda>v s.
          kbind (PADDR ''kern/pmap.c'' 600 (pages s) s) (\<lambda>pa s.
          passert 600 (v = pa + i) ''check_va2pa(pgdir, UPAGES + i) == PADDR(pages) + i'' s))) 0 s) (\<lambda>_ s.
      kbind (page_loop (npages s * PGSIZE) (\<lambda>i s.
          kbind (check_va2pa pgdir (KERNBASE + i) s) (\<lambda>v s.
          passert 605 (v = i) ''check_va2pa(pgdir, KERNBASE + i) == i'' s)) 0 s) (\<lambda>_ s.
      kbind (page_loop KSTKSIZE (\<lambda>i s.
          kbind (check_va2pa pgdir (KSTACKTOP - KSTKSIZE + i) s) (\<lambda>v s.
          kbind (PADDR ''kern/pmap.c'' 609 (sym_bootstack lk) s) (\<lambda>pa s.
          passert 609 (v = pa + i) ''check_va2pa(pgdir, KSTACKTOP - KSTKSIZE + i) == PADDR(bootstack) + i'' s))) 0 s) (\<lambda>_ s.
      kbind (called 611 (check_va2pa pgdir (KSTACKTOP - PTSIZE) s) (\<lambda>v. v = NOT 0)
          ''check_va2pa(pgdir, KSTACKTOP - PTSIZE) == ~0'') (\<lambda>_ s.
      kbind (kfor 0 1024 check_pde s) (\<lambda>_ s.
      kcall (cprintf h (ascii ''check_kern_pgdir() succeeded!'' @ [10]) [] s)))))))"

text \<open>
  What a kernel built with \<open>-DTP1_PSE\<close> checks at the end of \<open>check_kern_pgdir\<close>, and the whole function
  of such a kernel.
\<close>

definition check_pse_pde :: "nat \<Rightarrow> (unit, 'a kst_scheme) kernel" where
  "check_pse_pde n s =
     (let i = of_nat n; kern_pdx = PDX KERNBASE; pde = pgd i s in
      kbind (passert 635 (pde AND PTE_PS \<noteq> 0) ''pgdir[i] & PTE_PS'' s) (\<lambda>_ s.
      passert 636 (PTE_ADDR pde = push_bit 22 (i - kern_pdx))
        ''PTE_ADDR(pgdir[i]) == (i - kern_pdx) << PDXSHIFT'' s))"

definition check_kern_pgdir_pse :: "hw \<Rightarrow> (i32, 'a kst_scheme) kernel" where
  "check_kern_pgdir_pse h s =
     kbind (kfor (unat (PDX KERNBASE)) (1024 - unat (PDX KERNBASE)) check_pse_pde s) (\<lambda>_ s.
     kcall (cprintf h (ascii ''check_kern_pgdir_pse() succeeded!'' @ [10]) [] s))"

definition check_kern_pgdir_tp1 :: "hw \<Rightarrow> linkmap \<Rightarrow> (i32, 'a kst_scheme) kernel" where
  "check_kern_pgdir_tp1 h lk s = kbind (check_kern_pgdir h lk s) (\<lambda>_ s. check_kern_pgdir_pse h s)"

section \<open>check\_page\<close>

definition check_page :: "hw \<Rightarrow> (i32, 'a kst_scheme) kernel" where
  "check_page h s = (
     kbind (called 677 (page_alloc 0 s) (\<lambda>v. v \<noteq> 0)
         ''(pp0 = page_alloc(0))'') (\<lambda>pp0 s.
     kbind (called 678 (page_alloc 0 s) (\<lambda>v. v \<noteq> 0)
         ''(pp1 = page_alloc(0))'') (\<lambda>pp1 s.
     kbind (called 679 (page_alloc 0 s) (\<lambda>v. v \<noteq> 0)
         ''(pp2 = page_alloc(0))'') (\<lambda>pp2 s.
     kbind (passert 681 (pp0 \<noteq> 0) ''pp0'' s) (\<lambda>_ s.
     kbind (passert 682 (pp1 \<noteq> 0 \<and> pp1 \<noteq> pp0) ''pp1 && pp1 != pp0'' s) (\<lambda>_ s.
     kbind (passert 683 (pp2 \<noteq> 0 \<and> pp2 \<noteq> pp1 \<and> pp2 \<noteq> pp0)
         ''pp2 && pp2 != pp1 && pp2 != pp0'' s) (\<lambda>_ s.
     let fl = page_free_list s in
     let s = s\<lparr>page_free_list := 0\<rparr> in
     kbind (called 690 (page_alloc 0 s) (\<lambda>v. v = 0) ''!page_alloc(0)'') (\<lambda>_ s.
     kbind (called 693 (page_lookup (kern_pgdir s) 0 () s) (\<lambda>v. v = 0)
         ''page_lookup(kern_pgdir, (void *) 0x0, &ptep) == NULL'') (\<lambda>_ s.
     kbind (called 696 (page_insert (kern_pgdir s) pp1 0 (PTE_W) s) (\<lambda>v. v <s 0)
         ''page_insert(kern_pgdir, pp1, 0x0, PTE_W) < 0'') (\<lambda>_ s.
     let s = page_free pp0 s in
     kbind (called 700 (page_insert (kern_pgdir s) pp1 0 (PTE_W) s) (\<lambda>v. v = 0)
         ''page_insert(kern_pgdir, pp1, 0x0, PTE_W) == 0'') (\<lambda>_ s.
     kbind (passert 701 (PTE_ADDR (pgd 0 s) = page2pa pp0 s)
         ''PTE_ADDR(kern_pgdir[0]) == page2pa(pp0)'' s) (\<lambda>_ s.
     kbind (called 702 (check_va2pa (kern_pgdir s) 0 s) (\<lambda>v. v = page2pa pp1 s)
         ''check_va2pa(kern_pgdir, 0x0) == page2pa(pp1)'') (\<lambda>_ s.
     kbind (passert 703 (pp_ref pp1 s = 1) ''pp1->pp_ref == 1'' s) (\<lambda>_ s.
     kbind (passert 704 (pp_ref pp0 s = 1) ''pp0->pp_ref == 1'' s) (\<lambda>_ s.
     kbind (called 708 (page_insert (kern_pgdir s) pp2 PGSIZE (PTE_W) s) (\<lambda>v. v = 0)
         ''page_insert(kern_pgdir, pp2, (void *) PGSIZE, PTE_W) == 0'') (\<lambda>_ s.
     kbind (called 709 (check_va2pa (kern_pgdir s) PGSIZE s) (\<lambda>v. v = page2pa pp2 s)
         ''check_va2pa(kern_pgdir, PGSIZE) == page2pa(pp2)'') (\<lambda>_ s.
     kbind (passert 710 (pp_ref pp2 s = 1) ''pp2->pp_ref == 1'' s) (\<lambda>_ s.
     kbind (called 713 (page_alloc 0 s) (\<lambda>v. v = 0) ''!page_alloc(0)'') (\<lambda>_ s.
     kbind (called 716 (page_insert (kern_pgdir s) pp2 PGSIZE (PTE_W) s) (\<lambda>v. v = 0)
         ''page_insert(kern_pgdir, pp2, (void *) PGSIZE, PTE_W) == 0'') (\<lambda>_ s.
     kbind (called 717 (check_va2pa (kern_pgdir s) PGSIZE s) (\<lambda>v. v = page2pa pp2 s)
         ''check_va2pa(kern_pgdir, PGSIZE) == page2pa(pp2)'') (\<lambda>_ s.
     kbind (passert 718 (pp_ref pp2 s = 1) ''pp2->pp_ref == 1'' s) (\<lambda>_ s.
     kbind (called 722 (page_alloc 0 s) (\<lambda>v. v = 0) ''!page_alloc(0)'') (\<lambda>_ s.
     kbind (KADDR ''kern/pmap.c'' 725 (PTE_ADDR (pgd (PDX PGSIZE) s)) s) (\<lambda>ptep s.
     kbind (called 726 (pgdir_walk (kern_pgdir s) PGSIZE 0 s) (\<lambda>v. v = ptep + 4 * PTX PGSIZE)
         ''pgdir_walk(kern_pgdir, (void *) PGSIZE, 0) == ptep + PTX(PGSIZE)'') (\<lambda>_ s.
     kbind (called 729 (page_insert (kern_pgdir s) pp2 PGSIZE (PTE_W OR PTE_U) s) (\<lambda>v. v = 0)
         ''page_insert(kern_pgdir, pp2, (void *) PGSIZE, PTE_W | PTE_U) == 0'') (\<lambda>_ s.
     kbind (called 730 (check_va2pa (kern_pgdir s) PGSIZE s) (\<lambda>v. v = page2pa pp2 s)
         ''check_va2pa(kern_pgdir, PGSIZE) == page2pa(pp2)'') (\<lambda>_ s.
     kbind (passert 731 (pp_ref pp2 s = 1) ''pp2->pp_ref == 1'' s) (\<lambda>_ s.
     kbind (called 732 (pgdir_walk (kern_pgdir s) PGSIZE 0 s) (\<lambda>v. load32 (mem s) v AND PTE_U \<noteq> 0)
         ''*pgdir_walk(kern_pgdir, (void *) PGSIZE, 0) & PTE_U'') (\<lambda>_ s.
     kbind (passert 733 (pgd 0 s AND PTE_U \<noteq> 0) ''kern_pgdir[0] & PTE_U'' s) (\<lambda>_ s.
     kbind (called 736 (page_insert (kern_pgdir s) pp2 PGSIZE (PTE_W) s) (\<lambda>v. v = 0)
         ''page_insert(kern_pgdir, pp2, (void *) PGSIZE, PTE_W) == 0'') (\<lambda>_ s.
     kbind (called 737 (pgdir_walk (kern_pgdir s) PGSIZE 0 s) (\<lambda>v. load32 (mem s) v AND PTE_W \<noteq> 0)
         ''*pgdir_walk(kern_pgdir, (void *) PGSIZE, 0) & PTE_W'') (\<lambda>_ s.
     kbind (called 738 (pgdir_walk (kern_pgdir s) PGSIZE 0 s) (\<lambda>v. load32 (mem s) v AND PTE_U = 0)
         ''!(*pgdir_walk(kern_pgdir, (void *) PGSIZE, 0) & PTE_U)'') (\<lambda>_ s.
     kbind (called 742 (page_insert (kern_pgdir s) pp0 PTSIZE (PTE_W) s) (\<lambda>v. v <s 0)
         ''page_insert(kern_pgdir, pp0, (void *) PTSIZE, PTE_W) < 0'') (\<lambda>_ s.
     kbind (called 745 (page_insert (kern_pgdir s) pp1 PGSIZE (PTE_W) s) (\<lambda>v. v = 0)
         ''page_insert(kern_pgdir, pp1, (void *) PGSIZE, PTE_W) == 0'') (\<lambda>_ s.
     kbind (called 746 (pgdir_walk (kern_pgdir s) PGSIZE 0 s) (\<lambda>v. load32 (mem s) v AND PTE_U = 0)
         ''!(*pgdir_walk(kern_pgdir, (void *) PGSIZE, 0) & PTE_U)'') (\<lambda>_ s.
     kbind (called 749 (check_va2pa (kern_pgdir s) 0 s) (\<lambda>v. v = page2pa pp1 s)
         ''check_va2pa(kern_pgdir, 0) == page2pa(pp1)'') (\<lambda>_ s.
     kbind (called 750 (check_va2pa (kern_pgdir s) PGSIZE s) (\<lambda>v. v = page2pa pp1 s)
         ''check_va2pa(kern_pgdir, PGSIZE) == page2pa(pp1)'') (\<lambda>_ s.
     kbind (passert 752 (pp_ref pp1 s = 2) ''pp1->pp_ref == 2'' s) (\<lambda>_ s.
     kbind (passert 753 (pp_ref pp2 s = 0) ''pp2->pp_ref == 0'' s) (\<lambda>_ s.
     kbind (called 756 (page_alloc 0 s) (\<lambda>v. v \<noteq> 0 \<and> v = pp2)
         ''(pp = page_alloc(0)) && pp == pp2'') (\<lambda>pp s.
     let s = page_remove (kern_pgdir s) 0 s in
     kbind (called 760 (check_va2pa (kern_pgdir s) 0 s) (\<lambda>v. v = NOT 0)
         ''check_va2pa(kern_pgdir, 0x0) == ~0'') (\<lambda>_ s.
     kbind (called 761 (check_va2pa (kern_pgdir s) PGSIZE s) (\<lambda>v. v = page2pa pp1 s)
         ''check_va2pa(kern_pgdir, PGSIZE) == page2pa(pp1)'') (\<lambda>_ s.
     kbind (passert 762 (pp_ref pp1 s = 1) ''pp1->pp_ref == 1'' s) (\<lambda>_ s.
     kbind (passert 763 (pp_ref pp2 s = 0) ''pp2->pp_ref == 0'' s) (\<lambda>_ s.
     kbind (called 766 (page_insert (kern_pgdir s) pp1 PGSIZE 0 s) (\<lambda>v. v = 0)
         ''page_insert(kern_pgdir, pp1, (void *) PGSIZE, 0) == 0'') (\<lambda>_ s.
     kbind (passert 767 (pp_ref pp1 s \<noteq> 0) ''pp1->pp_ref'' s) (\<lambda>_ s.
     kbind (passert 768 (pp_link pp1 s = 0) ''pp1->pp_link == NULL'' s) (\<lambda>_ s.
     let s = page_remove (kern_pgdir s) PGSIZE s in
     kbind (called 772 (check_va2pa (kern_pgdir s) 0 s) (\<lambda>v. v = NOT 0)
         ''check_va2pa(kern_pgdir, 0x0) == ~0'') (\<lambda>_ s.
     kbind (called 773 (check_va2pa (kern_pgdir s) PGSIZE s) (\<lambda>v. v = NOT 0)
         ''check_va2pa(kern_pgdir, PGSIZE) == ~0'') (\<lambda>_ s.
     kbind (passert 774 (pp_ref pp1 s = 0) ''pp1->pp_ref == 0'' s) (\<lambda>_ s.
     kbind (passert 775 (pp_ref pp2 s = 0) ''pp2->pp_ref == 0'' s) (\<lambda>_ s.
     kbind (called 778 (page_alloc 0 s) (\<lambda>v. v \<noteq> 0 \<and> v = pp1)
         ''(pp = page_alloc(0)) && pp == pp1'') (\<lambda>pp s.
     kbind (called 781 (page_alloc 0 s) (\<lambda>v. v = 0) ''!page_alloc(0)'') (\<lambda>_ s.
     kbind (passert 784 (PTE_ADDR (pgd 0 s) = page2pa pp0 s)
         ''PTE_ADDR(kern_pgdir[0]) == page2pa(pp0)'' s) (\<lambda>_ s.
     let s = set_pgd 0 0 s in
     kbind (passert 786 (pp_ref pp0 s = 1) ''pp0->pp_ref == 1'' s) (\<lambda>_ s.
     let s = set_ref pp0 0 s in
     let s = page_free pp0 s in
     let va = PGSIZE * NPDENTRIES + PGSIZE in
     kbind (pgdir_walk (kern_pgdir s) va 1 s) (\<lambda>ptep s.
     kbind (KADDR ''kern/pmap.c'' 793 (PTE_ADDR (pgd (PDX va) s)) s) (\<lambda>ptep1 s.
     kbind (passert 794 (ptep = ptep1 + 4 * PTX va) ''ptep == ptep1 + PTX(va)'' s) (\<lambda>_ s.
     let s = set_pgd (PDX va) 0 s in
     let s = set_ref pp0 0 s in
     kbind (page2kva pp0 s) (\<lambda>kva s.
     let s = s\<lparr>mem := memset kva 0xFF PGSIZE (mem s)\<rparr> in
     let s = page_free pp0 s in
     kbind (pgdir_walk (kern_pgdir s) 0 1 s) (\<lambda>_ s.
     kbind (page2kva pp0 s) (\<lambda>ptep s.
     kbind (kfor 0 1024 (\<lambda>i s. passert 804 (load32 (mem s) (ptep + 4 * of_nat i) AND PTE_P = 0)
         ''(ptep[i] & PTE_P) == 0'' s) s) (\<lambda>_ s.
     let s = set_pgd 0 0 s in
     let s = set_ref pp0 0 s in
     let s = s\<lparr>page_free_list := fl\<rparr> in
     let s = page_free pp2 (page_free pp1 (page_free pp0 s)) in
     kcall (cprintf h (ascii ''check_page() succeeded!'' @ [10]) [] s))))))))))))))))))))))))))))))))))))))))))))))))))))))))))))))))"

section \<open>check\_page\_installed\_pgdir\<close>

definition check_page_installed_pgdir :: "hw \<Rightarrow> (i32, 'a kst_scheme) kernel" where
  "check_page_installed_pgdir h s = (
     kbind (called 831 (page_alloc 0 s) (\<lambda>v. v \<noteq> 0)
         ''(pp0 = page_alloc(0))'') (\<lambda>pp0 s.
     kbind (called 832 (page_alloc 0 s) (\<lambda>v. v \<noteq> 0)
         ''(pp1 = page_alloc(0))'') (\<lambda>pp1 s.
     kbind (called 833 (page_alloc 0 s) (\<lambda>v. v \<noteq> 0)
         ''(pp2 = page_alloc(0))'') (\<lambda>pp2 s.
     let s = page_free pp0 s in
     kbind (page2kva pp1 s) (\<lambda>kva s.
     let s = s\<lparr>mem := memset kva 1 PGSIZE (mem s)\<rparr> in
     kbind (page2kva pp2 s) (\<lambda>kva s.
     let s = s\<lparr>mem := memset kva 2 PGSIZE (mem s)\<rparr> in
     kbind (page_insert (kern_pgdir s) pp1 PGSIZE PTE_W s) (\<lambda>_ s.
     kbind (passert 838 (pp_ref pp1 s = 1) ''pp1->pp_ref == 1'' s) (\<lambda>_ s.
     kbind (passert 839 (load32 (mem s) PGSIZE = 0x01010101)
         ''*(uint32_t *) PGSIZE == 0x01010101U'' s) (\<lambda>_ s.
     kbind (page_insert (kern_pgdir s) pp2 PGSIZE PTE_W s) (\<lambda>_ s.
     kbind (passert 841 (load32 (mem s) PGSIZE = 0x02020202)
         ''*(uint32_t *) PGSIZE == 0x02020202U'' s) (\<lambda>_ s.
     kbind (passert 842 (pp_ref pp2 s = 1) ''pp2->pp_ref == 1'' s) (\<lambda>_ s.
     kbind (passert 843 (pp_ref pp1 s = 0) ''pp1->pp_ref == 0'' s) (\<lambda>_ s.
     let s = s\<lparr>mem := store32 (mem s) PGSIZE 0x03030303\<rparr> in
     kbind (called 845 (page2kva pp2 s) (\<lambda>v. load32 (mem s) v = 0x03030303)
         ''*(uint32_t *) page2kva(pp2) == 0x03030303U'') (\<lambda>_ s.
     let s = page_remove (kern_pgdir s) PGSIZE s in
     kbind (passert 847 (pp_ref pp2 s = 0) ''pp2->pp_ref == 0'' s) (\<lambda>_ s.
     kbind (passert 850 (PTE_ADDR (pgd 0 s) = page2pa pp0 s)
         ''PTE_ADDR(kern_pgdir[0]) == page2pa(pp0)'' s) (\<lambda>_ s.
     let s = set_pgd 0 0 s in
     kbind (passert 852 (pp_ref pp0 s = 1) ''pp0->pp_ref == 1'' s) (\<lambda>_ s.
     let s = set_ref pp0 0 s in
     let s = page_free pp0 s in
     kcall (cprintf h (ascii ''check_page_installed_pgdir() succeeded!'' @ [10]) [] s))))))))))))))))))"

section \<open>mem\_init\<close>

definition mem_init :: "hw \<Rightarrow> linkmap \<Rightarrow> (unit, 'a kst_scheme) kernel" where
  "mem_init h lk s =
     kbind (kcall (i386_detect_memory h s)) (\<lambda>_ s.
     kbind (kpanic ''kern/pmap.c'' 131 (ascii
         ''mem_init: This function is not finished'' @ [10]) [] s) (\<lambda>(_ :: unit) s.
     let (dir, s) = boot_alloc lk PGSIZE s in
     let s = s\<lparr>kern_pgdir := dir\<rparr> in
     let s = s\<lparr>mem := memset (kern_pgdir s) 0 PGSIZE (mem s)\<rparr> in
     kbind (PADDR ''kern/pmap.c'' 145 (kern_pgdir s) s) (\<lambda>pa s.
     let s = set_pgd (PDX UVPT) (pa OR PTE_U OR PTE_P) s in
     let s = page_init s in
     kbind (check_page_free_list lk True s) (\<lambda>_ s.
     kbind (check_page_alloc h s) (\<lambda>_ s.
     kbind (check_page h s) (\<lambda>_ s.
     kbind (check_kern_pgdir h lk s) (\<lambda>_ s.
     kbind (PADDR ''kern/pmap.c'' 212 (kern_pgdir s) s) (\<lambda>pa s.
     let s = lcr3 pa s in
     kbind (check_page_free_list lk False s) (\<lambda>_ s.
     let cr0 = rcr0 s in
     let cr0 = cr0 OR (CR0_PE OR CR0_PG OR CR0_AM OR CR0_WP OR CR0_NE OR CR0_MP) in
     let cr0 = cr0 AND NOT (CR0_TS OR CR0_EM) in
     let s = lcr0 cr0 s in
     kbind (check_page_installed_pgdir h s) (\<lambda>_ s. kreturn () s))))))))))"

end
