(* ===== verification/Keyboard.thy ===== *)
theory Keyboard
  imports Printf
begin

text \<open>
  kern/console.c, input half, with the key codes of inc/kbdreg.h: decoding of keyboard scan
  codes, the serial receiver, and the 512-byte ring buffer between the devices and \<open>getchar\<close>.
  A device routine is a function that returns -1 when it has nothing, 0 for an event without a
  character, or a character; the loops that poll it are partial, since a device that always has
  data keeps them going.
\<close>

section \<open>Scan code tables\<close>

definition KEY_HOME :: u8 where [simp]: "KEY_HOME = 0xE0"
definition KEY_END :: u8 where [simp]: "KEY_END = 0xE1"
definition KEY_UP :: u8 where [simp]: "KEY_UP = 0xE2"
definition KEY_DN :: u8 where [simp]: "KEY_DN = 0xE3"
definition KEY_LF :: u8 where [simp]: "KEY_LF = 0xE4"
definition KEY_RT :: u8 where [simp]: "KEY_RT = 0xE5"
definition KEY_PGUP :: u8 where [simp]: "KEY_PGUP = 0xE6"
definition KEY_PGDN :: u8 where [simp]: "KEY_PGDN = 0xE7"
definition KEY_INS :: u8 where [simp]: "KEY_INS = 0xE8"
definition KEY_DEL :: u8 where [simp]: "KEY_DEL = 0xE9"

definition KBSTATP :: u32 where [simp]: "KBSTATP = 0x64"
definition KBS_DIB :: u8 where [simp]: "KBS_DIB = 0x01"
definition KBS_TERR :: u8 where [simp]: "KBS_TERR = 0x20"
definition KBDATAP :: u32 where [simp]: "KBDATAP = 0x60"

definition NO :: u8 where [simp]: "NO = 0"
definition SHIFT :: u8 where [simp]: "SHIFT = 0x01"
definition CTL :: u8 where [simp]: "CTL = 0x02"
definition ALT :: u8 where [simp]: "ALT = 0x04"
definition CAPSLOCK :: u8 where [simp]: "CAPSLOCK = 0x08"
definition NUMLOCK :: u8 where [simp]: "NUMLOCK = 0x10"
definition SCROLLLOCK :: u8 where [simp]: "SCROLLLOCK = 0x20"
definition E0ESC :: u8 where [simp]: "E0ESC = 0x40"

text \<open>A 256-entry array: a run of initial elements, designated elements, zero elsewhere.\<close>

definition table :: "u8 list \<Rightarrow> (u8 \<times> u8) list \<Rightarrow> u8 \<Rightarrow> u8" where
  "table run at i =
     (case map_of (rev at) i of
        Some v \<Rightarrow> v
      | None \<Rightarrow> if unat i < length run then run ! unat i else 0)"

definition shiftcode :: "u8 \<Rightarrow> u8" where
  "shiftcode = table [] [(0x1D, CTL), (0x2A, SHIFT), (0x36, SHIFT), (0x38, ALT), (0x9D, CTL), (0xB8, ALT)]"

definition togglecode :: "u8 \<Rightarrow> u8" where
  "togglecode = table [] [(0x3A, CAPSLOCK), (0x45, NUMLOCK), (0x46, SCROLLLOCK)]"

definition keypad :: "(u8 \<times> u8) list" where
  "keypad =
     [(0xC7, KEY_HOME), (0x9C, 10), (0xB5, asc (CHR ''/'')), (0xC8, KEY_UP), (0xC9, KEY_PGUP),
      (0xCB, KEY_LF), (0xCD, KEY_RT), (0xCF, KEY_END), (0xD0, KEY_DN), (0xD1, KEY_PGDN),
      (0xD2, KEY_INS), (0xD3, KEY_DEL)]"

definition normalmap :: "u8 \<Rightarrow> u8" where
  "normalmap = table
     ([NO, 0x1B] @ ascii ''1234567890-='' @ [8, 9]
      @ ascii ''qwertyuiop[]'' @ [10, NO] @ ascii ''as''
      @ ascii ''dfghjkl;'' @ [39] @ ascii ''`'' @ [NO, 92] @ ascii ''zxcv''
      @ ascii ''bnm,./'' @ [NO] @ ascii ''*''
      @ [NO] @ ascii '' '' @ replicate 6 NO
      @ replicate 7 NO @ ascii ''7''
      @ ascii ''89-456+1''
      @ ascii ''230.'' @ replicate 4 NO)
     keypad"

definition shiftmap :: "u8 \<Rightarrow> u8" where
  "shiftmap = table
     ([NO, 27] @ ascii ''!@#$%^&*()_+'' @ [8, 9]
      @ ascii ''QWERTYUIOP{}'' @ [10, NO] @ ascii ''AS''
      @ ascii ''DFGHJKL:'' @ [34] @ ascii ''~'' @ [NO] @ ascii ''|ZXCV''
      @ ascii ''BNM<>?'' @ [NO] @ ascii ''*''
      @ [NO] @ ascii '' '' @ replicate 6 NO
      @ replicate 7 NO @ ascii ''7''
      @ ascii ''89-456+1''
      @ ascii ''230.'' @ replicate 4 NO)
     keypad"

definition ctl_of :: "char \<Rightarrow> u8" where
  "ctl_of x = asc x - asc (CHR ''@'')"

definition ctlmap :: "u8 \<Rightarrow> u8" where
  "ctlmap = table
     (replicate 16 NO
      @ map ctl_of ''QWERTYUIOP'' @ [NO, NO, 13, NO] @ map ctl_of ''AS''
      @ map ctl_of ''DFGHJKL'' @ replicate 4 NO @ [92 - asc (CHR ''@'')] @ map ctl_of ''ZXCV''
      @ map ctl_of ''BNM'' @ [NO, NO, ctl_of (CHR ''/''), NO, NO])
     [(0x97, KEY_HOME), (0xB5, ctl_of (CHR ''/'')), (0xC8, KEY_UP), (0xC9, KEY_PGUP),
      (0xCB, KEY_LF), (0xCD, KEY_RT), (0xCF, KEY_END), (0xD0, KEY_DN), (0xD1, KEY_PGDN),
      (0xD2, KEY_INS), (0xD3, KEY_DEL)]"

definition charcode :: "(u8 \<Rightarrow> u8) list" where
  "charcode = [normalmap, shiftmap, ctlmap, ctlmap]"

section \<open>The keyboard\<close>

definition caps_swap :: "u32 \<Rightarrow> i32 \<Rightarrow> i32" where
  "caps_swap shift c =
     (if shift AND ucast CAPSLOCK \<noteq> 0 then
        if asc (CHR ''a'') \<le>s c \<and> c \<le>s asc (CHR ''z'') then c + (asc (CHR ''A'') - asc (CHR ''a''))
        else if asc (CHR ''A'') \<le>s c \<and> c \<le>s asc (CHR ''Z'') then c + (asc (CHR ''a'') - asc (CHR ''A''))
        else c
      else c)"

text \<open>What a byte from the keyboard does to \<open>shift\<close>, and the character it makes.\<close>

definition kbd_decode :: "u32 \<Rightarrow> u8 \<Rightarrow> u32 \<times> i32" where
  "kbd_decode shift data =
     (if data = 0xE0 then (shift OR ucast E0ESC, 0)
      else if data AND 0x80 \<noteq> 0 then
        let data1 = (if shift AND ucast E0ESC \<noteq> 0 then data else data AND 0x7F)
        in (shift AND NOT (ucast (shiftcode data1 OR E0ESC)), 0)
      else
        let (data1, shift1) =
              (if shift AND ucast E0ESC \<noteq> 0 then (data OR 0x80, shift AND NOT (ucast E0ESC))
               else (data, shift));
            shift2 = shift1 OR ucast (shiftcode data1);
            shift3 = shift2 XOR ucast (togglecode data1);
            c = ucast ((charcode ! unat (shift3 AND ucast (CTL OR SHIFT))) data1)
        in (shift3, caps_swap shift3 c))"

text \<open>\<open>!(~shift & (CTL | ALT)) && c == KEY_DEL\<close>, tested only when a key was pressed.\<close>

definition is_reboot :: "u8 \<Rightarrow> u32 \<Rightarrow> i32 \<Rightarrow> bool" where
  "is_reboot data shift c \<longleftrightarrow> data AND 0x80 = 0
     \<and> NOT shift AND ucast (CTL OR ALT) = 0 \<and> c = ucast KEY_DEL"

definition kbd_proc_data :: "hw \<Rightarrow> 'a con_scheme \<Rightarrow> (i32 \<times> 'a con_scheme) option" where
  "kbd_proc_data h s =
     (let (stat, s1) = inb h KBSTATP s in
      if stat AND KBS_DIB = 0 then Some (- 1, s1)
      else if stat AND KBS_TERR \<noteq> 0 then Some (- 1, s1)
      else
        let (data, s2) = inb h KBDATAP s1;
            (shift, c) = kbd_decode (kbd_shift s2) data;
            s3 = s2\<lparr>kbd_shift := shift\<rparr>
        in if is_reboot data shift c
           then do { (_, s4) \<leftarrow> cprintf h (ascii ''Rebooting!'' @ [10]) [] s3;
                     Some (c, outb 0x92 0x3 s4) }
           else Some (c, s3))"

definition serial_proc_data :: "hw \<Rightarrow> 'a con_scheme \<Rightarrow> (i32 \<times> 'a con_scheme) option" where
  "serial_proc_data h s =
     (let (lsr, s1) = inb h (COM1 + COM_LSR) s in
      if lsr AND COM_LSR_DATA = 0 then Some (- 1, s1)
      else let (c, s2) = inb h (COM1 + COM_RX) s1 in Some (ucast c, s2))"

section \<open>The input buffer\<close>

definition CONSBUFSIZE :: u32 where [simp]: "CONSBUFSIZE = 512"

definition put_char :: "i32 \<Rightarrow> 'a con_scheme \<Rightarrow> 'a con_scheme" where
  "put_char c s =
     (let s1 = s\<lparr>cons_buf := (cons_buf s)[unat (cons_wpos s) := ucast c], cons_wpos := cons_wpos s + 1\<rparr>
      in if cons_wpos s1 = CONSBUFSIZE then s1\<lparr>cons_wpos := 0\<rparr> else s1)"

partial_function (option) cons_intr ::
    "('a con_scheme \<Rightarrow> (i32 \<times> 'a con_scheme) option) \<Rightarrow> 'a con_scheme \<Rightarrow> 'a con_scheme option" where
  "cons_intr proc s =
     do { (c, s1) \<leftarrow> proc s;
          if c = - 1 then Some s1
          else if c = 0 then cons_intr proc s1
          else cons_intr proc (put_char c s1) }"

definition serial_intr :: "hw \<Rightarrow> 'a con_scheme \<Rightarrow> 'a con_scheme option" where
  "serial_intr h s = (if serial_exists s then cons_intr (serial_proc_data h) s else Some s)"

definition kbd_intr :: "hw \<Rightarrow> 'a con_scheme \<Rightarrow> 'a con_scheme option" where
  "kbd_intr h s = cons_intr (kbd_proc_data h) s"

definition get_char :: "'a con_scheme \<Rightarrow> i32 \<times> 'a con_scheme" where
  "get_char s =
     (if cons_rpos s \<noteq> cons_wpos s then
        let c = cons_buf s ! unat (cons_rpos s);
            s1 = s\<lparr>cons_rpos := cons_rpos s + 1\<rparr>;
            s2 = (if cons_rpos s1 = CONSBUFSIZE then s1\<lparr>cons_rpos := 0\<rparr> else s1)
        in (ucast c, s2)
      else (0, s))"

definition cons_getc :: "hw \<Rightarrow> 'a con_scheme \<Rightarrow> (i32 \<times> 'a con_scheme) option" where
  "cons_getc h s = do { s1 \<leftarrow> serial_intr h s; s2 \<leftarrow> kbd_intr h s1; Some (get_char s2) }"

partial_function (option) getchar :: "hw \<Rightarrow> 'a con_scheme \<Rightarrow> (i32 \<times> 'a con_scheme) option" where
  "getchar h s =
     do { (c, s1) \<leftarrow> cons_getc h s; if c = 0 then getchar h s1 else Some (c, s1) }"

definition kbd_init :: "'a con_scheme \<Rightarrow> 'a con_scheme" where
  "kbd_init s = s"

definition cons_init :: "hw \<Rightarrow> 'a con_scheme \<Rightarrow> 'a con_scheme option" where
  "cons_init h s =
     (let s1 = serial_init h (kbd_init (cga_init h s))
      in if \<not> serial_exists s1
         then map_option snd (cprintf h (ascii ''Serial port does not exist!'' @ [10]) [] s1)
         else Some s1)"

definition iscons :: "i32 \<Rightarrow> i32" where
  "iscons fdnum = 1"

end
