(* ===== verification/Keyboard_Laws.thy ===== *)
theory Keyboard_Laws
  imports Keyboard
begin

text \<open>
  The input side of kern/console.c: the ring buffer is a bounded queue (locale bounded_queue), a
  device drained by \<open>cons_intr\<close> (locale input_device, interpreted on the serial port and the
  keyboard) appends its characters to it in order, and the modifier logic of the keyboard.
\<close>

section \<open>A bounded queue\<close>

locale bounded_queue =
  fixes ok :: "'s \<Rightarrow> bool" and items :: "'s \<Rightarrow> 'i list"
    and put :: "'c \<Rightarrow> 's \<Rightarrow> 's" and code :: "'c \<Rightarrow> 'i"
    and get :: "'s \<Rightarrow> 'd \<times> 's" and decode :: "'i \<Rightarrow> 'd" and cap :: nat
  assumes put_ok: "ok s \<Longrightarrow> ok (put c s)"
    and put_items: "ok s \<Longrightarrow> length (items s) < cap \<Longrightarrow> items (put c s) = items s @ [code c]"
    and get_items: "ok s \<Longrightarrow> items s = x # xs \<Longrightarrow>
      fst (get s) = decode x \<and> ok (snd (get s)) \<and> items (snd (get s)) = xs"
begin

lemma put_all:
  "ok s \<Longrightarrow> length (items s) + length cs \<le> cap \<Longrightarrow>
    ok (fold put cs s) \<and> items (fold put cs s) = items s @ map code cs"
proof (induction cs arbitrary: s)
  case (Cons c cs)
  then have "items (put c s) = items s @ [code c]" by (intro put_items) simp_all
  with Cons put_ok [of s c] show ?case by simp
qed simp

primrec gets :: "nat \<Rightarrow> 's \<Rightarrow> 'd list \<times> 's" where
  "gets 0 s = ([], s)"
| "gets (Suc n) s = (let r = gets n (snd (get s)) in (fst (get s) # fst r, snd r))"

lemma gets_items:
  "ok s \<Longrightarrow> items s = xs @ ys \<Longrightarrow>
    fst (gets (length xs) s) = map decode xs \<and> ok (snd (gets (length xs) s))
    \<and> items (snd (gets (length xs) s)) = ys"
proof (induction xs arbitrary: s)
  case (Cons x xs)
  from get_items [of s x "xs @ ys"] Cons.prems have
    g: "fst (get s) = decode x" "ok (snd (get s))" "items (snd (get s)) = xs @ ys" by simp_all
  from Cons.IH [OF g(2,3)] g(1) show ?case by (simp add: Let_def)
qed simp

lemma fifo:
  assumes "ok s" and "items s = []" and "length cs \<le> cap"
  shows "fst (gets (length cs) (fold put cs s)) = map (\<lambda>c. decode (code c)) cs"
  using put_all [OF assms(1), of cs] gets_items [of "fold put cs s" "map code cs" "[]"] assms
  by (simp add: comp_def)

end

section \<open>The ring buffer is one\<close>

definition ring_ok :: "'a con_scheme \<Rightarrow> bool" where
  "ring_ok s \<longleftrightarrow> length (cons_buf s) = 512 \<and> unat (cons_rpos s) < 512 \<and> unat (cons_wpos s) < 512"

definition ring_count :: "'a con_scheme \<Rightarrow> nat" where
  "ring_count s = (unat (cons_wpos s) + 512 - unat (cons_rpos s)) mod 512"

definition pending :: "'a con_scheme \<Rightarrow> u8 list" where
  "pending s = map (\<lambda>i. cons_buf s ! ((unat (cons_rpos s) + i) mod 512)) [0..<ring_count s]"

lemma length_pending [simp]: "length (pending s) = ring_count s"
  by (simp add: pending_def)

lemma ring_count_less: "ring_count s < 512"
  by (simp add: ring_count_def)

lemma ring_index:
  "ring_ok s \<Longrightarrow> (unat (cons_rpos s) + ring_count s) mod 512 = unat (cons_wpos s)"
  by (auto simp: ring_ok_def ring_count_def mod_if)

lemma unat_next: "unat p < 512 \<Longrightarrow> unat (p + 1 :: u32) = unat p + 1"
  by (simp add: unat_plus32)

lemma wrap_next:
  "unat p < 512 \<Longrightarrow> unat (if p + 1 = CONSBUFSIZE then 0 else p + 1 :: u32) = (unat p + 1) mod 512"
proof -
  assume p: "unat p < 512"
  show ?thesis
  proof (cases "unat p = 511")
    case True
    then have "p + 1 = 512" using unat_next [OF p] by (simp add: word_unat_eq_iff)
    with True show ?thesis by simp
  next
    case False
    then have "unat (p + 1) \<noteq> 512" using unat_next [OF p] by simp
    then have "p + 1 \<noteq> 512" by auto
    with False p unat_next [OF p] show ?thesis by simp
  qed
qed

lemma put_char_fields:
  assumes "unat (cons_wpos s) < 512"
  shows "unat (cons_wpos (put_char c s)) = (unat (cons_wpos s) + 1) mod 512"
    "cons_rpos (put_char c s) = cons_rpos s"
    "cons_buf (put_char c s) = (cons_buf s)[unat (cons_wpos s) := ucast c]"
  using wrap_next [OF assms] by (auto simp: put_char_def Let_def split: if_splits)

lemma put_char_ok: "ring_ok s \<Longrightarrow> ring_ok (put_char c s)"
  by (simp add: ring_ok_def put_char_fields)

lemma ring_count_put:
  assumes ok: "ring_ok s"
  shows "ring_count (put_char c s) = (ring_count s + 1) mod 512"
proof -
  have w: "unat (cons_wpos s) < 512" and r: "unat (cons_rpos s) < 512"
    using ok by (simp_all add: ring_ok_def)
  have "((unat (cons_wpos s) + 1) mod 512 + 512 - unat (cons_rpos s)) mod 512
      = ((unat (cons_wpos s) + 512 - unat (cons_rpos s)) mod 512 + 1) mod 512"
    using w r by (auto simp: mod_if)
  then show ?thesis by (simp add: ring_count_def put_char_fields [OF w])
qed

lemma pending_put:
  assumes ok: "ring_ok s" and room: "ring_count s < 511"
  shows "pending (put_char c s) = pending s @ [ucast c]"
proof (rule nth_equalityI)
  have w: "unat (cons_wpos s) < 512" and len: "length (cons_buf s) = 512"
    using ok by (simp_all add: ring_ok_def)
  have cnt: "ring_count (put_char c s) = ring_count s + 1"
    using room by (simp add: ring_count_put [OF ok])
  then show "length (pending (put_char c s)) = length (pending s @ [ucast c])" by simp
  fix i
  assume "i < length (pending (put_char c s))"
  then have i: "i \<le> ring_count s" using cnt by simp
  have "(unat (cons_rpos s) + i) mod 512 \<noteq> unat (cons_wpos s)" if "i < ring_count s"
  proof
    assume "(unat (cons_rpos s) + i) mod 512 = unat (cons_wpos s)"
    then have "(unat (cons_rpos s) + i) mod 512 = (unat (cons_rpos s) + ring_count s) mod 512"
      using ring_index [OF ok] by simp
    then show False
      using that ring_count_less [of s] ok by (auto simp: mod_if ring_ok_def split: if_splits)
  qed
  then show "pending (put_char c s) ! i = (pending s @ [ucast c]) ! i"
    using i cnt w len ring_index [OF ok]
    by (cases "i < ring_count s")
      (simp_all add: pending_def put_char_fields nth_append nth_list_update del: upt_Suc)
qed

lemma pending_overflow:
  assumes ok: "ring_ok s" and full: "ring_count s = 511"
  shows "pending (put_char c s) = []"
  using full by (simp add: pending_def ring_count_put [OF ok])

lemma pending_empty: "ring_ok s \<Longrightarrow> pending s = [] \<longleftrightarrow> cons_rpos s = cons_wpos s"
proof -
  assume ok: "ring_ok s"
  have "pending s = [] \<longleftrightarrow> ring_count s = 0" by (simp add: pending_def)
  also have "\<dots> \<longleftrightarrow> unat (cons_rpos s) = unat (cons_wpos s)"
    using ok ring_index [OF ok] by (auto simp: ring_ok_def ring_count_def)
  finally show ?thesis by (simp add: word_unat_eq_iff)
qed

lemma get_char_fields:
  assumes "unat (cons_rpos s) < 512" and "cons_rpos s \<noteq> cons_wpos s"
  shows "fst (get_char s) = ucast (cons_buf s ! unat (cons_rpos s))"
    "unat (cons_rpos (snd (get_char s))) = (unat (cons_rpos s) + 1) mod 512"
    "cons_wpos (snd (get_char s)) = cons_wpos s" "cons_buf (snd (get_char s)) = cons_buf s"
  using wrap_next [OF assms(1)] assms(2) by (auto simp: get_char_def Let_def split: if_splits)

lemma pending_get:
  assumes ok: "ring_ok s" and p: "pending s = x # xs"
  shows "fst (get_char s) = ucast x \<and> ring_ok (snd (get_char s)) \<and> pending (snd (get_char s)) = xs"
proof -
  have ne: "cons_rpos s \<noteq> cons_wpos s" using pending_empty [OF ok] p by auto
  have r: "unat (cons_rpos s) < 512" and w: "unat (cons_wpos s) < 512" using ok by (simp_all add: ring_ok_def)
  note f = get_char_fields [OF r ne]
  have len: "Suc (length xs) = ring_count s" using arg_cong [OF p, of length] by simp
  have "pending s ! 0 = cons_buf s ! unat (cons_rpos s)"
    using len r by (simp add: pending_def)
  then have x: "x = cons_buf s ! unat (cons_rpos s)" using p by simp
  have "unat (cons_rpos s) \<noteq> unat (cons_wpos s)" using ne by (simp add: word_unat_eq_iff)
  then have cnt: "ring_count (snd (get_char s)) = length xs"
    using len r w by (auto simp: ring_count_def f mod_if split: if_splits)
  have "pending (snd (get_char s)) = xs"
  proof (rule nth_equalityI)
    show "length (pending (snd (get_char s))) = length xs" using cnt by simp
    fix i
    assume "i < length (pending (snd (get_char s)))"
    then have i: "i < length xs" using cnt by simp
    then have "xs ! i = pending s ! Suc i" using p by simp
    also have "\<dots> = cons_buf s ! ((unat (cons_rpos s) + Suc i) mod 512)"
      using i len by (simp add: pending_def del: upt_Suc)
    finally show "pending (snd (get_char s)) ! i = xs ! i"
      using i cnt by (simp add: pending_def f mod_simps)
  qed
  with x f r w ok show ?thesis by (simp add: ring_ok_def)
qed

interpretation ring: bounded_queue ring_ok pending put_char ucast get_char ucast 511
  by unfold_locales (auto simp: put_char_ok pending_put pending_get)

section \<open>Draining a device\<close>

text \<open>
  \<open>feed proc s cs s'\<close>: polled from \<open>s\<close> on, \<open>proc\<close> gives the characters \<open>cs\<close>, each of which is
  buffered before the next poll, and then reports that it has no more.
\<close>

inductive feed ::
    "('a con_scheme \<Rightarrow> (i32 \<times> 'a con_scheme) option) \<Rightarrow> 'a con_scheme \<Rightarrow> i32 list \<Rightarrow> 'a con_scheme \<Rightarrow> bool"
  for proc where
  stop: "proc s = Some (- 1, s1) \<Longrightarrow> feed proc s [] s1"
| skip: "proc s = Some (0, s1) \<Longrightarrow> feed proc s1 cs s' \<Longrightarrow> feed proc s cs s'"
| char: "proc s = Some (c, s1) \<Longrightarrow> c \<noteq> 0 \<Longrightarrow> c \<noteq> - 1 \<Longrightarrow> feed proc (put_char c s1) cs s' \<Longrightarrow>
    feed proc s (c # cs) s'"

lemma feed_cons_intr: "feed proc s cs s' \<Longrightarrow> cons_intr proc s = Some s'"
  by (induction rule: feed.induct) (subst cons_intr.simps, simp)+

lemma cons_intr_feed: "cons_intr proc s = Some s' \<Longrightarrow> \<exists>cs. feed proc s cs s'"
proof (rule cons_intr.raw_induct [where P = "\<lambda>p s s'. p = proc \<longrightarrow> (\<exists>cs. feed proc s cs s')", rule_format])
  fix intr :: "('a con_scheme \<Rightarrow> (i32 \<times> 'a con_scheme) option) \<Rightarrow> 'a con_scheme \<Rightarrow> 'a con_scheme option"
    and p and s s' :: "'a con_scheme"
  assume IH: "\<And>p s s'. intr p s = Some s' \<Longrightarrow> p = proc \<Longrightarrow> \<exists>cs. feed proc s cs s'"
    and eq: "do { (c, s1) \<leftarrow> p s;
                  if c = - 1 then Some s1
                  else if c = 0 then intr p s1 else intr p (put_char c s1) } = Some s'"
    and p: "p = proc"
  from eq p obtain c s1 where c: "proc s = Some (c, s1)"
      "(if c = - 1 then Some s1 else if c = 0 then intr p s1 else intr p (put_char c s1)) = Some s'"
    by (cases "proc s") auto
  consider "c = - 1" | "c = 0" | "c \<noteq> - 1" "c \<noteq> 0" by blast
  then show "\<exists>cs. feed proc s cs s'"
  proof cases
    case 1
    with c show ?thesis by (auto intro: feed.stop)
  next
    case 2
    with c have "intr p s1 = Some s'" by simp
    with IH p obtain cs where "feed proc s1 cs s'" by blast
    with c(1) 2 show ?thesis by (blast intro: feed.skip)
  next
    case 3
    with c have "intr p (put_char c s1) = Some s'" by simp
    with IH p obtain cs where "feed proc (put_char c s1) cs s'" by blast
    with c(1) 3 show ?thesis by (blast intro: feed.char)
  qed
qed simp_all

definition ring_state :: "'a con_scheme \<Rightarrow> u8 list \<times> u32 \<times> u32" where
  "ring_state s = (cons_buf s, cons_rpos s, cons_wpos s)"

lemma ring_state_eq:
  "ring_state s1 = ring_state s \<Longrightarrow> pending s1 = pending s \<and> ring_ok s1 = ring_ok s"
  by (simp add: ring_state_def pending_def ring_count_def ring_ok_def)

lemma put_char_con_ok: "con_ok (put_char c s) = con_ok s"
  by (simp add: put_char_def con_ok_def Let_def)

text \<open>
  What a device routine promises: it returns, keeps the console sane, leaves the buffer alone, and
  writes no memory but the display.
\<close>

locale input_device =
  fixes proc :: "'a con_scheme \<Rightarrow> (i32 \<times> 'a con_scheme) option"
  assumes polls: "con_ok s \<Longrightarrow>
    \<exists>c s1. proc s = Some (c, s1) \<and> con_ok s1 \<and> ring_state s1 = ring_state s \<and> same_outside s s1"
begin

lemma poll_keeps:
  "proc s = Some (c, s1) \<Longrightarrow> con_ok s \<Longrightarrow> con_ok s1 \<and> ring_state s1 = ring_state s \<and> same_outside s s1"
  using polls [of s] by auto

lemma feed_keeps: "feed proc s cs s' \<Longrightarrow> con_ok s \<Longrightarrow> con_ok s' \<and> same_outside s s'"
proof (induction rule: feed.induct)
  case (char s c s1 cs s')
  have "same_outside s1 (put_char c s1)" by (simp add: same_outside_def put_char_def Let_def)
  with char poll_keeps [OF char(1)] show ?case
    by (auto simp: put_char_con_ok intro: same_outside_trans)
qed (auto dest: poll_keeps intro: same_outside_trans)

lemma intr_keeps: "cons_intr proc s = Some s' \<Longrightarrow> con_ok s \<Longrightarrow> con_ok s' \<and> same_outside s s'"
  using cons_intr_feed feed_keeps by blast

lemma feed_pending:
  "feed proc s cs s' \<Longrightarrow> con_ok s \<Longrightarrow> ring_ok s \<Longrightarrow> length (pending s) + length cs \<le> 511 \<Longrightarrow>
    pending s' = pending s @ map ucast cs \<and> ring_ok s' \<and> con_ok s'"
proof (induction rule: feed.induct)
  case (stop s s1)
  with poll_keeps [OF stop(1)] show ?case by (auto dest!: ring_state_eq)
next
  case (skip s s1 cs s')
  with poll_keeps [OF skip(1)] have "con_ok s1" "pending s1 = pending s" "ring_ok s1"
    by (auto dest!: ring_state_eq)
  with skip show ?case by simp
next
  case (char s c s1 cs s')
  with poll_keeps [OF char(1)] have s1: "con_ok s1" "pending s1 = pending s" "ring_ok s1"
    by (auto dest!: ring_state_eq)
  have "length (pending s1) < 511" using char.prems s1(2) by simp
  then have put: "pending (put_char c s1) = pending s1 @ [ucast c]"
    by (rule ring.put_items [OF s1(3)])
  have "length (pending (put_char c s1)) + length cs \<le> 511" using char.prems s1(2) put by simp
  with char.IH s1 put put_char_ok [OF s1(3), of c] show ?case by (simp add: put_char_con_ok)
qed

lemma intr_appends:
  assumes "cons_intr proc s = Some s'" and "con_ok s" and "ring_ok s"
  shows "\<exists>cs. feed proc s cs s' \<and> (length (pending s) + length cs \<le> 511 \<longrightarrow>
    pending s' = pending s @ map ucast cs \<and> ring_ok s' \<and> con_ok s')"
  using cons_intr_feed [OF assms(1)] feed_pending [OF _ assms(2,3)] by blast

end

interpretation serial: input_device "serial_proc_data h" for h
proof
  fix s :: "'a con_scheme"
  assume "con_ok s"
  then show "\<exists>c s1. serial_proc_data h s = Some (c, s1) \<and> con_ok s1 \<and> ring_state s1 = ring_state s
      \<and> same_outside s s1"
    by (simp add: serial_proc_data_def inb_def log_event_def ring_state_def same_outside_def Let_def)
qed

lemma input_ring: "input_state s1 = input_state s \<Longrightarrow> ring_state s1 = ring_state s"
  by (simp add: input_state_def ring_state_def)

lemma reboot_message:
  assumes "con_ok s"
  shows "\<exists>n s'. cprintf h (ascii ''Rebooting!'' @ [10]) [] s = Some (n, s') \<and> con_ok s'
    \<and> input_state s' = input_state s \<and> same_outside s s'"
proof -
  have "render (ascii ''Rebooting!'' @ [10]) 0 [] = Some (map ucast (ascii ''Rebooting!'' @ [10]))"
    by (simp add: render_eval split del: if_split)
  from cprintf_run [OF assms _ this, of "[]" h] show ?thesis by (auto simp: string_args_def)
qed

interpretation kbd: input_device "kbd_proc_data h" for h
proof
  fix s :: "'a con_scheme"
  assume ok: "con_ok s"
  obtain stat data where io: "inb h KBSTATP s = (stat, log_event (EIn8 (ucast KBSTATP) stat) s)"
      "inb h KBDATAP (log_event (EIn8 (ucast KBSTATP) stat) s) =
        (data, log_event (EIn8 (ucast KBDATAP) data) (log_event (EIn8 (ucast KBSTATP) stat) s))"
    by (simp add: inb_def Let_def)
  let ?s2 = "log_event (EIn8 (ucast KBDATAP) data) (log_event (EIn8 (ucast KBSTATP) stat) s)"
  obtain shift c where dec: "kbd_decode (kbd_shift s) data = (shift, c)" by fastforce
  let ?s3 = "?s2\<lparr>kbd_shift := shift\<rparr>"
  have k2: "kbd_shift ?s2 = kbd_shift s" by (simp add: log_event_def)
  have s3: "con_ok ?s3" "ring_state ?s3 = ring_state s" "same_outside s ?s3"
    using ok by (simp_all add: log_event_def con_ok_def ring_state_def same_outside_def)
  from reboot_message [OF s3(1), of h] obtain n s4 where p: "cprintf h (ascii ''Rebooting!'' @ [10]) [] ?s3 = Some (n, s4)" "con_ok s4"
      "input_state s4 = input_state ?s3" "same_outside ?s3 s4"
    by auto
  have s4: "con_ok (outb 0x92 0x3 s4)" "ring_state (outb 0x92 0x3 s4) = ring_state s"
      "same_outside s (outb 0x92 0x3 s4)"
    using p(2) input_ring [OF p(3)] s3(2) same_outside_trans [OF s3(3) p(4)]
    by (simp_all add: outb_def log_event_def con_ok_def ring_state_def same_outside_def)
  have early: "con_ok (log_event e s)" "ring_state (log_event e s) = ring_state s"
      "same_outside s (log_event e s)" for e
    using ok by (simp_all add: log_event_def con_ok_def ring_state_def same_outside_def)
  show "\<exists>c s1. kbd_proc_data h s = Some (c, s1) \<and> con_ok s1 \<and> ring_state s1 = ring_state s
      \<and> same_outside s s1"
    unfolding kbd_proc_data_def io Let_def prod.case dec k2
    using early s3 s4 p(1) by simp
qed

text \<open>
  \<open>getchar\<close> polls until a poll gives a character: whatever every poll keeps holds when the last one
  starts and when it is over.
\<close>

lemma getchar_polls:
  assumes "getchar h s = Some r" and "P s"
    and keep: "\<And>s c s1. P s \<Longrightarrow> cons_getc h s = Some (c, s1) \<Longrightarrow> P s1"
  shows "\<exists>s0. P s0 \<and> cons_getc h s0 = Some r \<and> fst r \<noteq> 0 \<and> P (snd r)"
proof -
  let ?goal = "\<lambda>k s r. k = h \<longrightarrow> P s \<longrightarrow> (\<exists>s0. P s0 \<and> cons_getc h s0 = Some r \<and> fst r \<noteq> 0 \<and> P (snd r))"
  have "?goal h s r"
  proof (rule getchar.raw_induct [where P = ?goal, OF _ assms(1)], intro impI, goal_cases)
    case (1 loop k s r)
    then obtain c s1 where g: "cons_getc h s = Some (c, s1)"
        and rest: "(if c = 0 then loop h s1 else Some (c, s1)) = Some r"
      by (auto split: Option.bind_splits)
    from keep [OF 1(4) g] have "P s1" .
    with 1 g rest show ?case by (cases "c = 0") auto
  qed
  with assms(2) show ?thesis by blast
qed

end
