(* ===== verification/Readline.thy ===== *)
theory Readline
  imports Keyboard_Laws
begin

text \<open>
  lib/readline.c: the line editor of the monitor, and what it makes of the characters that
  \<open>getchar\<close> gives it.  The static buffer is memory at \<open>sym_line_buf\<close>.
\<close>

section \<open>The function\<close>

definition BUFLEN :: i32 where [simp]: "BUFLEN = 1024"

partial_function (option) readline_loop ::
    "hw \<Rightarrow> u32 \<Rightarrow> i32 \<Rightarrow> i32 \<Rightarrow> 'a con_scheme \<Rightarrow> (u32 \<times> 'a con_scheme) option" where
  "readline_loop h buf echoing i s =
     do { (c, s1) \<leftarrow> getchar h s;
          if c <s 0 then do {
            (_, s2) \<leftarrow> cprintf h (ascii ''read error: %e'' @ [10]) [Slot c] s1;
            Some (0, s2) }
          else if (c = 8 \<or> c = 0x7F) \<and> 0 <s i then
            let s2 = (if echoing \<noteq> 0 then cputchar h 8 s1 else s1)
            in readline_loop h buf echoing (i - 1) s2
          else if asc (CHR '' '') \<le>s c \<and> i <s BUFLEN - 1 then
            let s2 = (if echoing \<noteq> 0 then cputchar h c s1 else s1);
                s3 = s2\<lparr>mem := (mem s2)(buf + i := ucast c)\<rparr>
            in readline_loop h buf echoing (i + 1) s3
          else if c = 10 \<or> c = 13 then
            let s2 = (if echoing \<noteq> 0 then cputchar h 10 s1 else s1)
            in Some (buf, s2\<lparr>mem := (mem s2)(buf + i := 0)\<rparr>)
          else readline_loop h buf echoing i s1 }"

definition readline ::
    "hw \<Rightarrow> linkmap \<Rightarrow> vararg \<Rightarrow> 'a con_scheme \<Rightarrow> (u32 \<times> 'a con_scheme) option" where
  "readline h lk prompt s =
     do { s1 \<leftarrow> (if prompt \<noteq> Slot 0 then map_option snd (cprintf h (ascii ''%s'') [prompt] s) else Some s);
          readline_loop h (sym_line_buf lk) (iscons 0) 0 s1 }"

section \<open>The line editor\<close>

text \<open>A key changes the line, and a newline or carriage return ends it.\<close>

definition newline :: "i32 \<Rightarrow> bool" where
  "newline c \<longleftrightarrow> c = 10 \<or> c = 13"

definition edit_key :: "i32 \<Rightarrow> u8 list \<Rightarrow> u8 list" where
  "edit_key c xs =
     (if (c = 8 \<or> c = 0x7F) \<and> xs \<noteq> [] then butlast xs
      else if 32 \<le>s c \<and> length xs < 1023 then xs @ [ucast c] else xs)"

text \<open>
  \<open>dialog h buf xs s cs t\<close>: with \<open>xs\<close> on the line, \<open>getchar\<close> gives the characters \<open>cs\<close>, the last
  one and no other a newline, each after the one before has been handled, and the state when
  it has given the last one is \<open>t\<close>.
\<close>

definition key_handled :: "hw \<Rightarrow> u32 \<Rightarrow> i32 \<Rightarrow> u8 list \<Rightarrow> 'a con_scheme \<Rightarrow> 'a con_scheme" where
  "key_handled h buf c xs s =
     (if (c = 8 \<or> c = 0x7F) \<and> xs \<noteq> [] then cputchar h 8 s
      else if 32 \<le>s c \<and> length xs < 1023
      then let s1 = cputchar h c s in s1\<lparr>mem := (mem s1)(buf + of_nat (length xs) := ucast c)\<rparr>
      else s)"

inductive dialog :: "hw \<Rightarrow> u32 \<Rightarrow> u8 list \<Rightarrow> 'a con_scheme \<Rightarrow> i32 list \<Rightarrow> 'a con_scheme \<Rightarrow> bool"
  for h buf where
  enter: "getchar h s = Some (c, t) \<Longrightarrow> newline c \<Longrightarrow> dialog h buf xs s [c] t"
| key: "getchar h s = Some (c, s1) \<Longrightarrow> \<not> newline c \<Longrightarrow>
    dialog h buf (edit_key c xs) (key_handled h buf c xs s1) cs t \<Longrightarrow> dialog h buf xs s (c # cs) t"

inductive_cases dialog_NilE: "dialog h buf xs s [] t"

section \<open>getchar\<close>

lemma get_char_byte: "\<exists>x. fst (get_char s) = ucast (x :: u8)"
  by (auto simp: get_char_def Let_def intro: exI [of _ "0 :: u8"])

lemma get_char_keeps: "con_ok (snd (get_char s)) = con_ok s \<and> same_outside s (snd (get_char s))"
  by (simp add: get_char_def con_ok_def same_outside_def Let_def)

lemma cons_getc_keeps:
  assumes "cons_getc h s = Some (c, t)" and "con_ok s"
  shows "con_ok t \<and> same_outside s t \<and> (\<exists>x. c = ucast (x :: u8))"
proof -
  obtain s1 s2 where s1: "serial_intr h s = Some s1" and s2: "kbd_intr h s1 = Some s2"
      and g: "get_char s2 = (c, t)"
    using assms(1) by (auto simp: cons_getc_def split: Option.bind_splits)
  have k1: "con_ok s1 \<and> same_outside s s1"
    using s1 assms(2) serial.intr_keeps [of h s s1]
    by (auto simp: serial_intr_def same_outside_refl split: if_splits)
  have k2: "con_ok s2 \<and> same_outside s1 s2"
    using s2 k1 kbd.intr_keeps [of h s1 s2] by (simp add: kbd_intr_def)
  show ?thesis
    using k1 k2 get_char_keeps [of s2] get_char_byte [of s2] g
    by (auto intro: same_outside_trans [of s s1 t] same_outside_trans [of s1 s2 t])
qed

lemma getchar_keeps:
  assumes g: "getchar h s = Some r" and ok: "con_ok s"
  shows "con_ok (snd r) \<and> same_outside s (snd r) \<and> (\<exists>x. fst r = ucast (x :: u8)) \<and> fst r \<noteq> 0"
proof -
  let ?P = "\<lambda>t. con_ok t \<and> same_outside s t"
  have "?P s" using ok by (simp add: same_outside_refl)
  then obtain t where "?P t" "cons_getc h t = Some r" "fst r \<noteq> 0" "?P (snd r)"
    using getchar_polls [OF g, of ?P] cons_getc_keeps same_outside_trans by blast
  then show ?thesis using cons_getc_keeps [of h t "fst r" "snd r"] by simp
qed

section \<open>The line in memory\<close>

text \<open>
  \<open>line_ok buf xs s\<close>: the console is sane, the line buffer is apart from the display, and its first
  bytes are the line \<open>xs\<close>.
\<close>

definition line_ok :: "u32 \<Rightarrow> u8 list \<Rightarrow> 'a con_scheme \<Rightarrow> bool" where
  "line_ok buf xs s \<longleftrightarrow> con_ok s \<and> disjoint_rng buf 1024 (crt_buf s) 4000
     \<and> read_bytes (mem s) buf (length xs) = xs \<and> length xs \<le> 1023 \<and> 0 \<notin> set xs"

definition line_only :: "u32 \<Rightarrow> 'a con_scheme \<Rightarrow> 'a con_scheme \<Rightarrow> bool" where
  "line_only buf s t \<longleftrightarrow> crt_buf t = crt_buf s
     \<and> (\<forall>a. \<not> in_rng a buf 1024 \<and> \<not> in_rng a (crt_buf s) 4000 \<longrightarrow> mem t a = mem s a)"

lemma line_only_trans: "line_only buf s t \<Longrightarrow> line_only buf t u \<Longrightarrow> line_only buf s u"
  by (simp add: line_only_def)

lemma line_only_outside: "same_outside s t \<Longrightarrow> line_only buf s t"
  by (simp add: line_only_def same_outside_def)

lemma line_only_store:
  "in_rng a buf 1024 \<Longrightarrow> line_only buf s (s\<lparr>mem := (mem s)(a := x)\<rparr>)"
  by (auto simp: line_only_def)

lemma line_ok_outside:
  assumes "line_ok buf xs s" and "con_ok t" and "same_outside s t"
  shows "line_ok buf xs t"
proof -
  have "read_bytes (mem s) buf (length xs) = read_bytes (mem t) buf (length xs)"
  proof (rule read_bytes_cong)
    fix a
    assume "in_rng a buf (length xs)"
    then have "in_rng a buf 1024" using assms(1) by (auto simp: line_ok_def in_rng_def)
    then have "\<not> in_rng a (crt_buf s) 4000" using assms(1) disjoint_rng_not_in by (auto simp: line_ok_def)
    then show "mem s a = mem t a" using assms(3) by (simp add: same_outside_def)
  qed
  with assms show ?thesis by (simp add: line_ok_def same_outside_def)
qed

lemma read_bytes_snoc: "read_bytes m p (Suc n) = read_bytes m p n @ [m (p + of_nat n)]"
proof (induction n arbitrary: p)
  case 0
  then show ?case by simp
next
  case (Suc n)
  have "read_bytes m p (Suc (Suc n)) = m p # read_bytes m (p + 1) (Suc n)" by (simp only: read_bytes.simps)
  also have "\<dots> = m p # read_bytes m (p + 1) n @ [m (p + 1 + of_nat n)]" by (simp only: Suc.IH)
  finally show ?case by (simp add: algebra_simps)
qed

lemma line_end_in: "n < 1024 \<Longrightarrow> in_rng (buf + of_nat n) buf 1024"
  by (rule in_rng_offset) simp_all

lemma line_ok_append:
  assumes ok: "line_ok buf xs s" and len: "length xs < 1023" and x: "x \<noteq> 0"
  shows "line_ok buf (xs @ [x]) (s\<lparr>mem := (mem s)(buf + of_nat (length xs) := x)\<rparr>)"
proof -
  let ?m = "(mem s)(buf + of_nat (length xs) := x)"
  have "read_bytes ?m buf (length xs) = read_bytes (mem s) buf (length xs)"
  proof (rule read_bytes_cong)
    fix a
    assume "in_rng a buf (length xs)"
    then have "a \<noteq> buf + of_nat (length xs)" using len by (auto simp: in_rng_def unat_of_nat32)
    then show "?m a = mem s a" by simp
  qed
  then have "read_bytes ?m buf (Suc (length xs)) = xs @ [x]"
    using ok by (simp only: read_bytes_snoc) (simp add: line_ok_def)
  with assms show ?thesis by (simp add: line_ok_def con_ok_def)
qed

lemma line_ok_butlast: "line_ok buf xs s \<Longrightarrow> line_ok buf (butlast xs) s"
  by (cases xs rule: rev_cases) (auto simp: line_ok_def read_bytes_snoc simp del: read_bytes.simps)

lemma line_ok_cstr:
  assumes ok: "line_ok buf xs s"
  shows "cstr ((mem s)(buf + of_nat (length xs) := 0)) buf xs"
proof -
  have "read_bytes ((mem s)(buf + of_nat (length xs) := 0)) buf (length xs) = read_bytes (mem s) buf (length xs)"
    by (rule read_bytes_cong) (use ok in \<open>auto simp: in_rng_def unat_of_nat32 line_ok_def\<close>)
  with ok show ?thesis by (simp add: cstr_read line_ok_def)
qed

section \<open>One key\<close>

lemma cputchar_keeps: "con_ok s \<Longrightarrow> con_ok (cputchar h c s) \<and> same_outside s (cputchar h c s)"
  using cputchar_prints [where h = h and c = c] by (auto simp: prints_def)

lemma printable_byte:
  assumes "32 \<le>s (ucast (x :: u8) :: i32)"
  shows "x \<noteq> 0"
  using assms by (auto simp: word_sle_eq)

lemma key_handled_ok:
  assumes ok: "line_ok buf xs s" and c: "c = ucast (x :: u8)"
  shows "line_ok buf (edit_key c xs) (key_handled h buf c xs s) \<and> line_only buf s (key_handled h buf c xs s)"
proof -
  have con: "con_ok s" using ok by (simp add: line_ok_def)
  have echo: "con_ok (cputchar h c s)" "same_outside s (cputchar h c s)" for c
    using cputchar_keeps [OF con] by simp_all
  consider "(c = 8 \<or> c = 0x7F) \<and> xs \<noteq> []" | "\<not> ((c = 8 \<or> c = 0x7F) \<and> xs \<noteq> [])" "32 \<le>s c \<and> length xs < 1023"
    | "\<not> ((c = 8 \<or> c = 0x7F) \<and> xs \<noteq> [])" "\<not> (32 \<le>s c \<and> length xs < 1023)" by blast
  then show ?thesis
  proof cases
    case 1
    have "line_ok buf (butlast xs) (cputchar h 8 s)"
      using line_ok_outside [OF line_ok_butlast [OF ok]] echo by blast
    with 1 line_only_outside [OF echo(2), of buf] show ?thesis
      by (simp add: edit_key_def key_handled_def)
  next
    case 2
    let ?s1 = "cputchar h c s" and ?a = "buf + of_nat (length xs)"
    have "ucast c = x" unfolding c by (rule bit_word_eqI) (simp add: bit_simps)
    moreover have "x \<noteq> 0" using 2(2) printable_byte [of x] by (simp add: c)
    moreover have "line_ok buf xs ?s1" using line_ok_outside [OF ok] echo by blast
    ultimately have "line_ok buf (xs @ [ucast c]) (?s1\<lparr>mem := (mem ?s1)(?a := ucast c)\<rparr>)"
      using line_ok_append [of buf xs ?s1 x] 2(2) by simp
    moreover have "line_only buf s (?s1\<lparr>mem := (mem ?s1)(?a := ucast c)\<rparr>)"
      using line_only_trans [OF line_only_outside [OF echo(2)] line_only_store [OF line_end_in]] 2(2) by simp
    ultimately show ?thesis using 2 by (auto simp: edit_key_def key_handled_def Let_def)
  next
    case 3
    then show ?thesis
      using ok line_only_outside [OF same_outside_refl] by (auto simp: edit_key_def key_handled_def)
  qed
qed

text \<open>How the loop goes on after a character, for a line in the buffer.\<close>

definition entered :: "hw \<Rightarrow> u32 \<Rightarrow> u8 list \<Rightarrow> 'a con_scheme \<Rightarrow> 'a con_scheme" where
  "entered h buf xs s =
     (let s2 = cputchar h 10 s in s2\<lparr>mem := (mem s2)(buf + of_nat (length xs) := 0)\<rparr>)"

definition readline_body ::
    "(hw \<Rightarrow> u32 \<Rightarrow> i32 \<Rightarrow> i32 \<Rightarrow> 'a con_scheme \<Rightarrow> (u32 \<times> 'a con_scheme) option) \<Rightarrow>
     hw \<Rightarrow> u32 \<Rightarrow> i32 \<Rightarrow> i32 \<Rightarrow> 'a con_scheme \<Rightarrow> (u32 \<times> 'a con_scheme) option" where
  "readline_body loop h buf echoing i s =
     do { (c, s1) \<leftarrow> getchar h s;
          if c <s 0 then do {
            (_, s2) \<leftarrow> cprintf h (ascii ''read error: %e'' @ [10]) [Slot c] s1;
            Some (0, s2) }
          else if (c = 8 \<or> c = 0x7F) \<and> 0 <s i then
            let s2 = (if echoing \<noteq> 0 then cputchar h 8 s1 else s1)
            in loop h buf echoing (i - 1) s2
          else if asc (CHR '' '') \<le>s c \<and> i <s BUFLEN - 1 then
            let s2 = (if echoing \<noteq> 0 then cputchar h c s1 else s1);
                s3 = s2\<lparr>mem := (mem s2)(buf + i := ucast c)\<rparr>
            in loop h buf echoing (i + 1) s3
          else if c = 10 \<or> c = 13 then
            let s2 = (if echoing \<noteq> 0 then cputchar h 10 s1 else s1)
            in Some (buf, s2\<lparr>mem := (mem s2)(buf + i := 0)\<rparr>)
          else loop h buf echoing i s1 }"

lemma readline_body_key:
  assumes g: "getchar h s = Some (c, s1)" and c: "c = ucast (x :: u8)" and len: "length xs \<le> 1023"
  shows "readline_body loop h buf 1 (of_nat (length xs)) s =
    (if newline c then Some (buf, entered h buf xs s1)
     else loop h buf 1 (of_nat (length (edit_key c xs))) (key_handled h buf c xs s1))"
proof -
  have n: "sint (of_nat (length xs) :: i32) = int (length xs)" using len by (intro sint_of_nat32) simp
  have i: "0 <s (of_nat (length xs) :: i32) \<longleftrightarrow> xs \<noteq> []"
    "(of_nat (length xs) :: i32) <s 1023 \<longleftrightarrow> length xs < 1023" "\<not> c <s 0" "(0 :: i32) <s 1023"
    by (simp_all add: word_sless_alt n c sint_ucast8 not_less)
  have shorter: "(of_nat (length xs) :: i32) - 1 = of_nat (length (butlast xs))" if "xs \<noteq> []"
    using that by (cases xs rule: rev_cases) simp_all
  have fwd: "(of_nat (length xs) :: i32) + 1 = of_nat (length (xs @ [y]))" for y :: u8 by simp
  show ?thesis
    by (simp add: readline_body_def g i shorter newline_def edit_key_def key_handled_def entered_def Let_def
        del: length_append length_butlast, auto simp: fwd shorter word_sle_eq add.commute)
qed

lemma readline_loop_key:
  assumes "getchar h s = Some (c, s1)" and "c = ucast (x :: u8)" and "length xs \<le> 1023"
  shows "readline_loop h buf 1 (of_nat (length xs)) s =
    (if newline c then Some (buf, entered h buf xs s1)
     else readline_loop h buf 1 (of_nat (length (edit_key c xs))) (key_handled h buf c xs s1))"
  using readline_body_key [OF assms, of readline_loop]
  by (subst readline_loop.simps) (simp only: readline_body_def)

section \<open>A line\<close>

lemma dialog_readline:
  "dialog h buf xs s cs t \<Longrightarrow> line_ok buf xs s \<Longrightarrow>
    readline_loop h buf 1 (of_nat (length xs)) s
      = Some (buf, entered h buf (fold edit_key (butlast cs) xs) t)
    \<and> line_ok buf (fold edit_key (butlast cs) xs) t \<and> line_only buf s t"
proof (induction rule: dialog.induct)
  case (enter s c t xs)
  have con: "con_ok s" "length xs \<le> 1023" using enter.prems by (simp_all add: line_ok_def)
  from getchar_keeps [OF enter.hyps(1) con(1)] obtain x :: u8
    where k: "con_ok t" "same_outside s t" "c = ucast x" by auto
  then show ?case
    using readline_loop_key [OF enter.hyps(1) k(3) con(2)] enter line_ok_outside line_only_outside by auto
next
  case (key s c s1 xs cs t)
  have con: "con_ok s" "length xs \<le> 1023" using key.prems by (simp_all add: line_ok_def)
  from getchar_keeps [OF key.hyps(1) con(1)] obtain x :: u8
    where k: "con_ok s1" "same_outside s s1" "c = ucast x" by auto
  have cs: "cs \<noteq> []" using key.hyps(3) by (auto elim: dialog_NilE)
  note step = key_handled_ok [OF line_ok_outside [OF key.prems k(1,2)] k(3), of h]
  have "line_only buf s (key_handled h buf c xs s1)"
    using step line_only_trans [OF line_only_outside [OF k(2)]] by blast
  with key.IH step line_only_trans have
    "readline_loop h buf 1 (of_nat (length (edit_key c xs))) (key_handled h buf c xs s1)
        = Some (buf, entered h buf (fold edit_key (butlast cs) (edit_key c xs)) t)
      \<and> line_ok buf (fold edit_key (butlast cs) (edit_key c xs)) t \<and> line_only buf s t" by blast
  then show ?case
    using readline_loop_key [OF key.hyps(1) k(3) con(2)] key.hyps(2) cs by simp
qed

lemma readline_dialog:
  assumes "readline_loop h buf 1 (of_nat (length xs)) s = Some r" and "line_ok buf xs s"
  shows "\<exists>cs t. dialog h buf xs s cs t"
proof -
  have "echoing = 1 \<longrightarrow> i = of_nat (length xs) \<longrightarrow> line_ok buf xs s \<longrightarrow> (\<exists>cs t. dialog h buf xs s cs t)"
    if "readline_loop h buf echoing i s = Some r" for echoing i xs
  proof (rule readline_loop.raw_induct [where P = "\<lambda>h buf echoing i s r. \<forall>xs. echoing = 1 \<longrightarrow>
        i = of_nat (length xs) \<longrightarrow> line_ok buf xs s \<longrightarrow> (\<exists>cs t. dialog h buf xs s cs t)",
        OF _ that, THEN spec], goal_cases)
    case (1 loop h buf echoing i s r)
    have "\<exists>cs t. dialog h buf xs s cs t" if p: "echoing = 1" "i = of_nat (length xs)" "line_ok buf xs s" for xs
    proof -
      have eq: "readline_body loop h buf 1 (of_nat (length xs)) s = Some r"
        using 1(2) p(1,2) by (simp only: readline_body_def)
      then obtain c s1 where g: "getchar h s = Some (c, s1)"
        by (auto simp: readline_body_def split: Option.bind_splits)
      have con: "con_ok s" "length xs \<le> 1023" using p by (simp_all add: line_ok_def)
      from getchar_keeps [OF g con(1)] obtain x :: u8
        where k: "con_ok s1" "same_outside s s1" "c = ucast x" by auto
      show ?thesis
      proof (cases "newline c")
        case True
        with g show ?thesis by (blast intro: dialog.enter)
      next
        case False
        then have "loop h buf 1 (of_nat (length (edit_key c xs))) (key_handled h buf c xs s1) = Some r"
          using eq readline_body_key [OF g k(3) con(2)] by simp
        moreover have "line_ok buf (edit_key c xs) (key_handled h buf c xs s1)"
          using key_handled_ok [OF line_ok_outside [OF p(3) k(1,2)] k(3)] by blast
        ultimately obtain cs t where "dialog h buf (edit_key c xs) (key_handled h buf c xs s1) cs t"
          using 1(1) by blast
        with g False show ?thesis by (blast intro: dialog.key)
      qed
    qed
    then show ?case by blast
  qed
  with assms show ?thesis by blast
qed

end
