(* ===== verification/Monitor.thy ===== *)
theory Monitor
  imports Readline Mmu
begin

text \<open>
  kern/monitor.c: the commands of the monitor, its command line and its loop.  A \<open>char *\<close> of a
  command line is an address, \<open>argv\<close> the list of the pointers stored in the array, and a string
  literal is its bytes; the trap frame is passed on and never used.
\<close>

section \<open>Commands\<close>

text \<open>The functions that \<open>commands\<close> points to.\<close>

datatype mon_func = Mon_help | Mon_kerninfo

record command =
  cmd_name :: "u8 list"
  cmd_desc :: "u8 list"
  cmd_func :: mon_func

definition commands :: "command list" where
  "commands =
     [\<lparr>cmd_name = ascii ''help'', cmd_desc = ascii ''Display this list of commands'', cmd_func = Mon_help\<rparr>,
      \<lparr>cmd_name = ascii ''kerninfo'', cmd_desc = ascii ''Display information about the kernel'', cmd_func = Mon_kerninfo\<rparr>]"

primrec help_lines :: "hw \<Rightarrow> command list \<Rightarrow> 'a con_scheme \<Rightarrow> 'a con_scheme option" where
  "help_lines h [] s = Some s"
| "help_lines h (c # cs) s =
     do { (_, s1) \<leftarrow> cprintf h (ascii ''%s - %s'' @ [10]) [Lit (cmd_name c), Lit (cmd_desc c)] s;
          help_lines h cs s1 }"

definition mon_help :: "hw \<Rightarrow> i32 \<Rightarrow> u32 list \<Rightarrow> u32 \<Rightarrow> 'a con_scheme \<Rightarrow> (i32 \<times> 'a con_scheme) option" where
  "mon_help h argc argv tf s = do { s1 \<leftarrow> help_lines h commands s; Some (0, s1) }"

text \<open>The difference of two pointers is signed, and so is the division of the rounded size.\<close>

definition footprint :: "linkmap \<Rightarrow> i32" where
  "footprint lk = word_of_int (sint (ROUNDUP (sym_end lk - sym_entry lk) 1024) sdiv 1024)"

definition mon_kerninfo ::
    "hw \<Rightarrow> linkmap \<Rightarrow> i32 \<Rightarrow> u32 list \<Rightarrow> u32 \<Rightarrow> 'a con_scheme \<Rightarrow> (i32 \<times> 'a con_scheme) option" where
  "mon_kerninfo h lk argc argv tf s =
     do { (_, s) \<leftarrow> cprintf h (ascii ''Special kernel symbols:'' @ [10]) [] s;
          (_, s) \<leftarrow> cprintf h (ascii ''  _start                  %08x (phys)'' @ [10]) [Slot (sym_start lk)] s;
          (_, s) \<leftarrow> cprintf h (ascii ''  entry  %08x (virt)  %08x (phys)'' @ [10])
                     [Slot (sym_entry lk), Slot (sym_entry lk - KERNBASE)] s;
          (_, s) \<leftarrow> cprintf h (ascii ''  etext  %08x (virt)  %08x (phys)'' @ [10])
                     [Slot (sym_etext lk), Slot (sym_etext lk - KERNBASE)] s;
          (_, s) \<leftarrow> cprintf h (ascii ''  edata  %08x (virt)  %08x (phys)'' @ [10])
                     [Slot (sym_edata lk), Slot (sym_edata lk - KERNBASE)] s;
          (_, s) \<leftarrow> cprintf h (ascii ''  end    %08x (virt)  %08x (phys)'' @ [10])
                     [Slot (sym_end lk), Slot (sym_end lk - KERNBASE)] s;
          (_, s) \<leftarrow> cprintf h (ascii ''Kernel executable memory footprint: %dKB'' @ [10]) [Slot (footprint lk)] s;
          Some (0, s) }"

definition mon_backtrace :: "i32 \<Rightarrow> u32 list \<Rightarrow> u32 \<Rightarrow> 's \<Rightarrow> (i32 \<times> 's) option" where
  "mon_backtrace argc argv tf s = Some (0, s)"

definition call_command ::
    "hw \<Rightarrow> linkmap \<Rightarrow> mon_func \<Rightarrow> i32 \<Rightarrow> u32 list \<Rightarrow> u32 \<Rightarrow> 'a con_scheme \<Rightarrow> (i32 \<times> 'a con_scheme) option" where
  "call_command h lk f argc argv tf s =
     (case f of Mon_help \<Rightarrow> mon_help h argc argv tf s | Mon_kerninfo \<Rightarrow> mon_kerninfo h lk argc argv tf s)"

section \<open>The command line\<close>

definition WHITESPACE :: "u8 list" where [simp]: "WHITESPACE = [9, 13, 10, 32]"
definition MAXARGS :: nat where [simp]: "MAXARGS = 16"

text \<open>\<open>while (*buf && strchr(WHITESPACE, *buf)) *buf++ = 0;\<close>\<close>

partial_function (option) gobble :: "u32 \<Rightarrow> 'a con_scheme \<Rightarrow> (u32 \<times> 'a con_scheme) option" where
  "gobble buf s =
     (if mem s buf \<noteq> 0 then
        do { p \<leftarrow> strchr (lit WHITESPACE) lit_ptr (mem s buf);
             if p \<noteq> 0 then gobble (buf + 1) (s\<lparr>mem := (mem s)(buf := 0)\<rparr>) else Some (buf, s) }
      else Some (buf, s))"

text \<open>\<open>while (*buf && !strchr(WHITESPACE, *buf)) buf++;\<close>\<close>

partial_function (option) scan_past :: "u32 \<Rightarrow> memory \<Rightarrow> u32 option" where
  "scan_past buf m =
     (if m buf \<noteq> 0 then
        do { p \<leftarrow> strchr (lit WHITESPACE) lit_ptr (m buf);
             if p = 0 then scan_past (buf + 1) m else Some buf }
      else Some buf)"

text \<open>The parsing loop of \<open>runcmd\<close>: the arguments, or \<open>None\<close> where the source returns early.\<close>

partial_function (option) parse_args ::
    "hw \<Rightarrow> u32 \<Rightarrow> u32 list \<Rightarrow> 'a con_scheme \<Rightarrow> (u32 list option \<times> 'a con_scheme) option" where
  "parse_args h buf argv s =
     do { (buf1, s1) \<leftarrow> gobble buf s;
          if mem s1 buf1 = 0 then Some (Some argv, s1)
          else if length argv = MAXARGS - 1 then do {
            (_, s2) \<leftarrow> cprintf h (ascii ''Too many arguments (max %d)'' @ [10]) [Slot (of_nat MAXARGS)] s1;
            Some (None, s2) }
          else do {
            buf2 \<leftarrow> scan_past buf1 (mem s1);
            parse_args h buf2 (argv @ [buf1]) s1 } }"

text \<open>The lookup loop of \<open>runcmd\<close>.\<close>

primrec run_lookup ::
    "hw \<Rightarrow> linkmap \<Rightarrow> u32 \<Rightarrow> u32 list \<Rightarrow> command list \<Rightarrow> 'a con_scheme \<Rightarrow> (i32 \<times> 'a con_scheme) option" where
  "run_lookup h lk tf argv [] s =
     do { (_, s1) \<leftarrow> cprintf h (ascii ''Unknown command '' @ [39] @ ascii ''%s'' @ [39] @ [10]) [Slot (hd argv)] s;
          Some (0, s1) }"
| "run_lookup h lk tf argv (c # cs) s =
     do { r \<leftarrow> strcmp (mem s) (hd argv) (lit (cmd_name c)) lit_ptr;
          if r = 0 then call_command h lk (cmd_func c) (of_nat (length argv)) argv tf s
          else run_lookup h lk tf argv cs s }"

definition runcmd ::
    "hw \<Rightarrow> linkmap \<Rightarrow> u32 \<Rightarrow> u32 \<Rightarrow> 'a con_scheme \<Rightarrow> (i32 \<times> 'a con_scheme) option" where
  "runcmd h lk buf tf s =
     do { (args, s1) \<leftarrow> parse_args h buf [] s;
          case args of
            None \<Rightarrow> Some (0, s1)
          | Some argv \<Rightarrow> if argv = [] then Some (0, s1) else run_lookup h lk tf argv commands s1 }"

section \<open>The monitor\<close>

text \<open>One round of the loop, and whether it leaves the loop.\<close>

definition monitor_round :: "hw \<Rightarrow> linkmap \<Rightarrow> u32 \<Rightarrow> 'a con_scheme \<Rightarrow> (bool \<times> 'a con_scheme) option" where
  "monitor_round h lk tf s =
     do { (buf, s1) \<leftarrow> readline h lk (Lit (ascii ''K> '')) s;
          if buf \<noteq> 0 then do {
            (r, s2) \<leftarrow> runcmd h lk buf tf s1;
            Some (r <s 0, s2) }
          else Some (False, s1) }"

text \<open>
  The body of the loop: \<open>leave\<close> is what follows the \<open>break\<close>, \<open>again\<close> the next turn of \<open>while (1)\<close>.
\<close>

definition monitor_body ::
    "hw \<Rightarrow> linkmap \<Rightarrow> u32 \<Rightarrow> ('a con_scheme \<Rightarrow> 'r option) \<Rightarrow> ('a con_scheme \<Rightarrow> 'r option) \<Rightarrow> 'a con_scheme \<Rightarrow> 'r option" where
  "monitor_body h lk tf again leave s =
     do { (stop, s1) \<leftarrow> monitor_round h lk tf s;
          if stop then leave s1 else again s1 }"

lemma monitor_body_mono [partial_function_mono]:
  assumes "\<And>t. mono_option (\<lambda>f. again f t)"
  shows "mono_option (\<lambda>f. monitor_body h lk tf (again f) leave s)"
  unfolding monitor_body_def
proof (rule bind_mono)
  fix y :: "bool \<times> 'a con_scheme"
  show "mono_option (\<lambda>f. case y of (stop, s1) \<Rightarrow> if stop then leave s1 else again f s1)"
    by (cases y; cases "fst y") (simp_all add: option.const_mono assms)
qed (rule option.const_mono)

partial_function (option) monitor_loop :: "hw \<Rightarrow> linkmap \<Rightarrow> u32 \<Rightarrow> 'a con_scheme \<Rightarrow> 'a con_scheme option" where
  "monitor_loop h lk tf s = monitor_body h lk tf (\<lambda>t. monitor_loop h lk tf t) Some s"

definition monitor_banner :: "hw \<Rightarrow> 'a con_scheme \<Rightarrow> 'a con_scheme option" where
  "monitor_banner h s =
     do { (_, s1) \<leftarrow> cprintf h (ascii ''Welcome to the JOS kernel monitor!'' @ [10]) [] s;
          (_, s2) \<leftarrow> cprintf h (ascii ''Type '' @ [39] @ ascii ''help'' @ [39] @ ascii '' for a list of commands.'' @ [10]) [] s1;
          Some s2 }"

definition monitor :: "hw \<Rightarrow> linkmap \<Rightarrow> u32 \<Rightarrow> 'a con_scheme \<Rightarrow> 'a con_scheme option" where
  "monitor h lk tf s = do { s1 \<leftarrow> monitor_banner h s; monitor_loop h lk tf s1 }"

text \<open>
  The program that calls \<open>monitor\<close> again and again, stopped between two steps: about to call it, or at
  the head of its loop.  A step is the call up to the loop, or one turn of the loop; a turn that leaves
  the loop returns to the caller, which calls \<open>monitor\<close> again.
\<close>

datatype 's control = Calling 's | Looping 's

primrec monitor_step :: "hw \<Rightarrow> linkmap \<Rightarrow> u32 \<Rightarrow> 'a con_scheme control \<Rightarrow> 'a con_scheme control option" where
  "monitor_step h lk tf (Calling s) = do { s1 \<leftarrow> monitor_banner h s; Some (Looping s1) }"
| "monitor_step h lk tf (Looping s) = monitor_body h lk tf (\<lambda>t. Some (Looping t)) (\<lambda>t. Some (Calling t)) s"

primrec monitor_steps ::
    "hw \<Rightarrow> linkmap \<Rightarrow> u32 \<Rightarrow> nat \<Rightarrow> 'a con_scheme control \<Rightarrow> 'a con_scheme control option" where
  "monitor_steps h lk tf 0 c = Some c"
| "monitor_steps h lk tf (Suc n) c = do { c1 \<leftarrow> monitor_step h lk tf c; monitor_steps h lk tf n c1 }"

end
