(* ===== verification/Init.thy ===== *)
theory Init
  imports Pmap_Checks Monitor
begin

text \<open>
  kern/init.c: the kernel's C entry point, \<open>_panic\<close> and \<open>_warn\<close>.  \<open>monitor\<close> is called in a loop
  without an end, so that a result of these functions is always \<open>None\<close>; what they do before is
  in the functions \<open>panic_report\<close> and \<open>i386_start\<close>, which end where that loop begins.
\<close>

partial_function (option) monitor_forever :: "hw \<Rightarrow> linkmap \<Rightarrow> 'a kst_scheme \<Rightarrow> 'a kst_scheme option" where
  "monitor_forever h lk s = do { s1 \<leftarrow> monitor h lk 0 s; monitor_forever h lk s1 }"

section \<open>Panic\<close>

text \<open>\<open>cli; cld\<close>: the interrupt flag is bit 9 of the flags, the direction flag bit 10.\<close>

definition cli_cld :: "'a machine_scheme \<Rightarrow> 'a machine_scheme" where
  "cli_cld s = s\<lparr>eflags := eflags s AND NOT 0x200 AND NOT 0x400\<rparr>"

text \<open>\<open>_panic\<close> up to its label \<open>dead\<close>.\<close>

definition panic_report :: "hw \<Rightarrow> panic_call \<Rightarrow> 'a kst_scheme \<Rightarrow> 'a kst_scheme option" where
  "panic_report h p s =
     (if panicstr s \<noteq> None then Some s
      else do {
        let s1 = cli_cld (s\<lparr>panicstr := Some (pc_fmt p)\<rparr>);
        (_, s2) \<leftarrow> cprintf h (ascii ''>>>'' @ [10] @ ascii ''>>> kernel panic at %s:%d: '')
                    [Lit (pc_file p), Slot (pc_line p)] s1;
        (_, s3) \<leftarrow> vcprintf h (pc_fmt p) (pc_args p) s2;
        (_, s4) \<leftarrow> cprintf h ([10] @ ascii ''>>>'' @ [10]) [] s3;
        Some s4 })"

definition panic :: "hw \<Rightarrow> linkmap \<Rightarrow> panic_call \<Rightarrow> 'a kst_scheme \<Rightarrow> 'a kst_scheme option" where
  "panic h lk p s = do { s1 \<leftarrow> panic_report h p s; monitor_forever h lk s1 }"

definition warn :: "hw \<Rightarrow> panic_call \<Rightarrow> 'a con_scheme \<Rightarrow> 'a con_scheme option" where
  "warn h p s =
     do { (_, s1) \<leftarrow> cprintf h (ascii ''kernel warning at %s:%d: '') [Lit (pc_file p), Slot (pc_line p)] s;
          (_, s2) \<leftarrow> vcprintf h (pc_fmt p) (pc_args p) s1;
          (_, s3) \<leftarrow> cprintf h [10] [] s2;
          Some s3 }"

section \<open>Starting the kernel\<close>

text \<open>
  \<open>memset(__bss_start, 0, end - __bss_start)\<close>.  The variables of the model are uninitialised statics of the
  source, which the linker puts between the two symbols, so they are cleared with the memory there.
\<close>

definition clear_bss :: "linkmap \<Rightarrow> 'a kst_scheme \<Rightarrow> 'a kst_scheme" where
  "clear_bss lk s = s\<lparr>
     mem := memset (sym_bss_start lk) 0 (sym_end lk - sym_bss_start lk) (mem s),
     serial_exists := False, addr_6845 := 0, crt_buf := 0, crt_pos := 0,
     kbd_shift := 0, cons_buf := replicate 512 0, cons_rpos := 0, cons_wpos := 0,
     npages := 0, npages_basemem := 0, kern_pgdir := 0, pages := 0, page_free_list := 0,
     nextfree := 0, panicstr := None\<rparr>"

text \<open>\<open>i386_init\<close> up to its loop, or to the loop of \<open>_panic\<close> when \<open>mem_init\<close> panics: both loops are the same.\<close>

definition i386_start :: "hw \<Rightarrow> linkmap \<Rightarrow> 'a kst_scheme \<Rightarrow> 'a kst_scheme option" where
  "i386_start h lk s =
     do { let s1 = clear_bss lk s;
          s2 \<leftarrow> cons_init h s1;
          (_, s3) \<leftarrow> cprintf h (ascii ''6828 decimal is %o octal!'' @ [10]) [Slot 6828] s2;
          r \<leftarrow> mem_init h lk s3;
          case r of
            Ret _ s4 \<Rightarrow> Some s4
          | Panic p s4 \<Rightarrow> panic_report h p s4 }"

definition i386_init :: "hw \<Rightarrow> linkmap \<Rightarrow> 'a kst_scheme \<Rightarrow> 'a kst_scheme option" where
  "i386_init h lk s = do { s1 \<leftarrow> i386_start h lk s; monitor_forever h lk s1 }"

end
