(* ===== verification/Pmap_Laws.thy ===== *)
theory Pmap_Laws
  imports Pmap_Checks
begin

text \<open>
  The page structures as an array of nodes: addresses and conversions, lists of pages linked
  through memory (locale linked_nodes, interpreted on \<open>pp_link\<close>), \<open>page_init\<close> and the
  reordering of the free list.
\<close>

section \<open>Linked nodes\<close>

locale linked_nodes =
  fixes node :: "'p \<Rightarrow> bool" and link :: "'m \<Rightarrow> 'p \<Rightarrow> 'p" and relink :: "'p \<Rightarrow> 'p \<Rightarrow> 'm \<Rightarrow> 'm"
  assumes link_relink: "node a \<Longrightarrow> link (relink a v m) a = v"
    and link_other: "node a \<Longrightarrow> node b \<Longrightarrow> a \<noteq> b \<Longrightarrow> link (relink a v m) b = link m b"
begin

text \<open>The list segment \<open>qs\<close> from \<open>p\<close> up to, and without, \<open>r\<close>.\<close>

primrec path :: "'m \<Rightarrow> 'p \<Rightarrow> 'p list \<Rightarrow> 'p \<Rightarrow> bool" where
  "path m p [] r \<longleftrightarrow> p = r"
| "path m p (q # qs) r \<longleftrightarrow> p = q \<and> node q \<and> path m (link m q) qs r"

lemma path_append: "path m p (xs @ ys) r \<longleftrightarrow> (\<exists>q. path m p xs q \<and> path m q ys r)"
proof (induction xs arbitrary: p)
  case (Cons x xs)
  show ?case unfolding append_Cons path.simps Cons.IH by blast
qed simp

lemma path_nodes: "path m p qs r \<Longrightarrow> \<forall>q \<in> set qs. node q"
  by (induction qs arbitrary: p) auto

lemma path_relink: "node a \<Longrightarrow> a \<notin> set qs \<Longrightarrow> path (relink a v m) p qs r = path m p qs r"
proof (induction qs arbitrary: p)
  case (Cons q qs)
  have IH: "path (relink a v m) (link m q) qs r = path m (link m q) qs r"
    using Cons.prems by (intro Cons.IH) simp_all
  show ?case
  proof (cases "node q")
    case True
    then have "link (relink a v m) q = link m q" using Cons.prems by (intro link_other) auto
    with IH show ?thesis by simp
  qed simp
qed simp

lemma path_cong: "(\<And>q. q \<in> set qs \<Longrightarrow> node q \<Longrightarrow> link m' q = link m q) \<Longrightarrow> path m p qs r \<Longrightarrow> path m' p qs r"
  by (induction qs arbitrary: p) auto

lemma path_push: "path m p qs r \<Longrightarrow> node a \<Longrightarrow> a \<notin> set qs \<Longrightarrow> path (relink a p m) a (a # qs) r"
  by (simp add: link_relink path_relink)

lemma path_close:
  "path m p qs a \<Longrightarrow> node a \<Longrightarrow> a \<notin> set qs \<Longrightarrow> path (relink a v m) p (qs @ [a]) v"
  by (auto simp: path_append link_relink path_relink)

lemma path_unique: "path m p xs r \<Longrightarrow> path m p ys r \<Longrightarrow> \<not> node r \<Longrightarrow> xs = ys"
proof (induction xs arbitrary: p ys)
  case Nil
  then show ?case by (cases ys) auto
next
  case (Cons x xs)
  then show ?case by (cases ys) auto
qed

lemma path_distinct: "path m p xs r \<Longrightarrow> \<not> node r \<Longrightarrow> distinct xs"
proof (induction xs arbitrary: p)
  case (Cons x xs)
  have "x \<notin> set xs"
  proof
    assume "x \<in> set xs"
    then obtain ys zs where xs: "xs = ys @ x # zs" by (meson split_list)
    with Cons.prems(1) have "path m x (x # xs) r" "path m x (x # zs) r"
      by (auto simp: path_append)
    then have "x # xs = x # zs" using path_unique Cons.prems(2) by blast
    then show False using xs by simp
  qed
  with Cons show ?case by auto
qed simp

end

section \<open>The array of page structures\<close>

definition page_ptr :: "u32 \<Rightarrow> nat \<Rightarrow> u32" where
  "page_ptr base i = base + 8 * of_nat i"

definition array_ok :: "u32 \<Rightarrow> nat \<Rightarrow> bool" where
  "array_ok base n \<longleftrightarrow> base \<noteq> 0 \<and> unat base + 8 * n \<le> 4294967296"

definition page_node :: "u32 \<Rightarrow> nat \<Rightarrow> u32 \<Rightarrow> bool" where
  "page_node base n p \<longleftrightarrow> array_ok base n \<and> (\<exists>i<n. p = page_ptr base i)"

lemma unat_page_ptr: "array_ok base n \<Longrightarrow> i < n \<Longrightarrow> unat (page_ptr base i) = unat base + 8 * i"
proof -
  assume ok: "array_ok base n" "i < n"
  then have lt: "unat base + 8 * i < 4294967296" by (simp add: array_ok_def)
  have "8 * of_nat i = (of_nat (8 * i) :: u32)" by simp
  then show ?thesis
    unfolding page_ptr_def using lt by (simp only: unat_plus32 unat_of_nat32) (simp add: unat_of_nat32)
qed

lemma page_ptr_inj: "array_ok base n \<Longrightarrow> i < n \<Longrightarrow> j < n \<Longrightarrow> page_ptr base i = page_ptr base j \<longleftrightarrow> i = j"
  using unat_page_ptr [of base n i] unat_page_ptr [of base n j]
  by (metis add_left_cancel mult_cancel1 zero_neq_numeral)

lemma page_node_not_0: "\<not> page_node base n 0"
proof
  assume "page_node base n 0"
  then obtain i where i: "array_ok base n" "i < n" "0 = page_ptr base i" by (auto simp: page_node_def)
  then have "unat base + 8 * i = 0" using unat_page_ptr [OF i(1,2)] by simp
  then show False using i(1) by (simp add: array_ok_def unat_eq_zero)
qed

text \<open>The fields of two structures do not overlap.\<close>

lemma page_fields_disjoint:
  assumes p: "page_node base n p" and q: "page_node base n q" and ne: "p \<noteq> q"
    and d: "d + w \<le> 8" and e: "e + v \<le> 8" and pos: "0 < w" "0 < v"
  shows "disjoint_rng (p + of_nat d) w (q + of_nat e) v"
proof -
  obtain i j where ij: "array_ok base n" "i < n" "p = page_ptr base i" "j < n" "q = page_ptr base j"
    using p q by (auto simp: page_node_def)
  have up: "unat p = unat base + 8 * i" and uq: "unat q = unat base + 8 * j"
    using ij unat_page_ptr by auto
  have "i \<noteq> j" using ij(3,5) ne by auto
  have dd: "unat (p + of_nat d) = unat base + 8 * i + d"
  proof -
    have "unat base + 8 * i + d < 4294967296" using ij(1,2) d pos by (simp add: array_ok_def)
    then show ?thesis using up by (simp add: unat_plus32 unat_of_nat32)
  qed
  have ee: "unat (q + of_nat e) = unat base + 8 * j + e"
  proof -
    have "unat base + 8 * j + e < 4294967296" using ij(1,4) e pos by (simp add: array_ok_def)
    then show ?thesis using uq by (simp add: unat_plus32 unat_of_nat32)
  qed
  have bound: "unat base + 8 * i + 8 \<le> 4294967296" "unat base + 8 * j + 8 \<le> 4294967296"
    using ij(1,2,4) by (simp_all add: array_ok_def)
  show ?thesis
  proof (cases "i < j")
    case True
    then have "8 * i + 8 \<le> 8 * j" by simp
    then show ?thesis unfolding disjoint_rng_def unat_diff32 dd ee using d e bound pos by auto
  next
    case False
    with \<open>i \<noteq> j\<close> have "8 * j + 8 \<le> 8 * i" by simp
    then show ?thesis unfolding disjoint_rng_def unat_diff32 dd ee using d e bound pos by auto
  qed
qed

interpretation page_list: linked_nodes "page_node base n" load32 "\<lambda>a v m. store32 m a v" for base n
proof
  fix a b v m
  show "load32 (store32 m a v) a = v" by (rule cell32.load_store)
  assume "page_node base n a" "page_node base n b" "a \<noteq> b"
  then have "disjoint_rng (b + of_nat 0) 4 (a + of_nat 0) 4" by (intro page_fields_disjoint) auto
  then show "load32 (store32 m a v) b = load32 m b" by (simp add: cell32.load_store_other)
qed

lemma link_set_ref:
  assumes a: "page_node base n a" and b: "page_node base n b"
  shows "load32 (store16 m (a + 4) v) b = load32 m b"
proof (rule cell32.load_local)
  fix c
  assume c: "in_rng c b 4"
  have "\<not> in_rng c (a + 4) 2"
  proof (cases "a = b")
    case True
    then show ?thesis using c in_rng_shift [of 4 2 c a] by (simp add: in_rng_def)
  next
    case False
    then have "disjoint_rng (b + of_nat 0) 4 (a + of_nat 4) 2"
      using a b by (intro page_fields_disjoint) auto
    then show ?thesis using c disjoint_rng_not_in by simp
  qed
  then show "store16 m (a + 4) v c = m c" by (rule cell16.store_frame)
qed

definition free_list :: "'a kst_scheme \<Rightarrow> u32 list \<Rightarrow> bool" where
  "free_list s qs \<longleftrightarrow>
     page_list.path (pages s) (unat (npages s)) (mem s) (page_free_list s) qs 0 \<and> distinct qs"

lemma page2pa_mem [simp]: "page2pa p (s\<lparr>mem := m\<rparr>) = page2pa p s"
  by (simp add: page2pa_def)

section \<open>Reordering the free list\<close>

text \<open>
  A list under construction: \<open>t\<close> is the place where the next element goes, the variable \<open>e\<close> when
  there is none yet and the link of the last element otherwise.
\<close>

definition open_list :: "u32 \<Rightarrow> nat \<Rightarrow> memory \<Rightarrow> u32 \<Rightarrow> u32 list \<Rightarrow> slot \<Rightarrow> slot \<Rightarrow> bool" where
  "open_list base n m v qs t e \<longleftrightarrow>
     (if qs = [] then t = e
      else t = Link (last qs) \<and> page_node base n (last qs)
        \<and> page_list.path base n m v (butlast qs) (last qs))"

definition links_only :: "u32 list \<Rightarrow> memory \<Rightarrow> memory \<Rightarrow> bool" where
  "links_only qs m m' \<longleftrightarrow> (\<forall>a. (\<forall>q \<in> set qs. \<not> in_rng a q 4) \<longrightarrow> m' a = m a)"

lemma links_only_trans: "links_only qs m m1 \<Longrightarrow> links_only qs m1 m2 \<Longrightarrow> links_only qs m m2"
  by (simp add: links_only_def)

lemma links_only_mono: "links_only xs m m' \<Longrightarrow> set xs \<subseteq> set ys \<Longrightarrow> links_only ys m m'"
  by (auto simp: links_only_def)

text \<open>Writing \<open>x\<close> to the open end turns the open list into a segment up to \<open>x\<close>.\<close>

lemma put_slot_closes:
  assumes op: "open_list base n (mem s) (if e = Pp1 then pp1 else pp2) qs t e" and e: "e = Pp1 \<or> e = Pp2"
    and dist: "distinct qs"
  shows "\<exists>v m'. put_slot t x (pp1, pp2, s) =
      (if e = Pp1 then v else pp1, if e = Pp1 then pp2 else v, s\<lparr>mem := m'\<rparr>)
    \<and> page_list.path base n m' v qs x \<and> links_only qs (mem s) m'
    \<and> (\<forall>q. page_node base n q \<longrightarrow> q \<notin> set qs \<longrightarrow> load32 m' q = load32 (mem s) q)"
proof (cases "qs = []")
  case True
  then show ?thesis
    using op e by (intro exI [of _ x] exI [of _ "mem s"]) (auto simp: open_list_def links_only_def)
next
  case False
  let ?v = "if e = Pp1 then pp1 else pp2" and ?a = "last qs"
  let ?m = "store32 (mem s) ?a x"
  have t: "t = Link ?a" and node: "page_node base n ?a"
    and seg: "page_list.path base n (mem s) ?v (butlast qs) ?a"
    using op False by (simp_all add: open_list_def)
  have qs: "butlast qs @ [?a] = qs" using False by simp
  then have out: "?a \<notin> set (butlast qs)" using dist by (metis distinct_append not_distinct_conv_prefix)
  have "page_list.path base n ?m ?v qs x" using page_list.path_close [OF seg node out] qs by simp
  moreover have "load32 ?m q = load32 (mem s) q" if "page_node base n q" "q \<notin> set qs" for q
  proof (rule page_list.link_other [OF node that(1)])
    show "?a \<noteq> q" using that(2) False by auto
  qed
  moreover have "links_only qs (mem s) ?m"
    unfolding links_only_def using False cell32.store_frame [of _ ?a "mem s" x] by auto
  ultimately show ?thesis
    using t e by (intro exI [of _ ?v] exI [of _ ?m]) (auto simp: set_link_def)
qed

lemma open_list_keep:
  assumes "open_list base n m v qs t e" and "\<And>q. page_node base n q \<Longrightarrow> q \<in> set qs \<Longrightarrow> load32 m' q = load32 m q"
  shows "open_list base n m' v qs t e"
proof (cases "qs = []")
  case False
  have "page_list.path base n m' v (butlast qs) (last qs)"
    using assms False by (intro page_list.path_cong [of "butlast qs" base n m' m])
      (auto simp: open_list_def dest: in_set_butlastD)
  then show ?thesis using assms(1) False by (simp add: open_list_def)
qed (use assms(1) in \<open>simp add: open_list_def\<close>)

lemma open_list_snoc:
  "page_list.path base n m v qs x \<Longrightarrow> page_node base n x \<Longrightarrow> open_list base n m v (qs @ [x]) (Link x) e"
  by (simp add: open_list_def)

definition low_page :: "'a kst_scheme \<Rightarrow> u32 \<Rightarrow> u32 \<Rightarrow> bool" where
  "low_page s limit q \<longleftrightarrow> PDX (page2pa q s) < limit"

text \<open>One turn of the loop: \<open>q\<close> moves from the front of the rest to the end of one of the two lists.\<close>

lemma put_slot_appends:
  assumes e: "e = Pp1 \<or> e = Pp2" and xs: "open_list base n (mem s) (if e = Pp1 then pp1 else pp2) xs t e"
    and ys: "open_list base n (mem s) w ys t' e'" and node: "page_node base n q"
    and rest: "page_list.path base n (mem s) (load32 (mem s) q) qs 0" and dist: "distinct (xs @ ys @ q # qs)"
  shows "\<exists>v m1. put_slot t q (pp1, pp2, s) = (if e = Pp1 then v else pp1, if e = Pp1 then pp2 else v, s\<lparr>mem := m1\<rparr>)
    \<and> open_list base n m1 v (xs @ [q]) (Link q) e \<and> open_list base n m1 w ys t' e'
    \<and> page_list.path base n m1 (load32 m1 q) qs 0 \<and> links_only xs (mem s) m1"
proof -
  from dist have "distinct xs" by simp
  from put_slot_closes [OF xs e this, of q] obtain v m1
    where put: "put_slot t q (pp1, pp2, s) = (if e = Pp1 then v else pp1, if e = Pp1 then pp2 else v, s\<lparr>mem := m1\<rparr>)"
      and seg: "page_list.path base n m1 v xs q" and only: "links_only xs (mem s) m1"
      and same: "\<forall>p. page_node base n p \<longrightarrow> p \<notin> set xs \<longrightarrow> load32 m1 p = load32 (mem s) p" by blast
  have "page_list.path base n m1 (load32 m1 q) qs 0"
    using rest same node dist by (intro page_list.path_cong [of qs base n m1 "mem s"]) auto
  moreover have "open_list base n m1 w ys t' e'"
    using ys by (rule open_list_keep) (use same dist in auto)
  ultimately show ?thesis using put only open_list_snoc [OF seg node] by blast
qed

lemma low_page_mem [simp]: "low_page (s\<lparr>mem := m\<rparr>) = low_page s"
  by (intro ext) (simp add: low_page_def)

lemma reorder_loop_splits:
  "page_list.path base n (mem s) pp qs 0 \<Longrightarrow> open_list base n (mem s) pp1 ls tp0 Pp1 \<Longrightarrow>
    open_list base n (mem s) pp2 hs tp1 Pp2 \<Longrightarrow> distinct (ls @ hs @ qs) \<Longrightarrow>
    \<exists>t0 t1 v1 v2 m'. reorder_loop limit pp tp0 tp1 (pp1, pp2, s) = Some (t0, t1, v1, v2, s\<lparr>mem := m'\<rparr>)
      \<and> open_list base n m' v1 (ls @ filter (low_page s limit) qs) t0 Pp1
      \<and> open_list base n m' v2 (hs @ filter (\<lambda>q. \<not> low_page s limit q) qs) t1 Pp2
      \<and> links_only (ls @ hs @ qs) (mem s) m'"
proof (induction qs arbitrary: pp tp0 tp1 pp1 pp2 s ls hs)
  case Nil
  then show ?case
    by (subst reorder_loop.simps) (auto simp: links_only_def intro!: exI [of _ "mem s"])
next
  case (Cons q qs)
  have pp: "pp = q" and node: "page_node base n q" and rest: "page_list.path base n (mem s) (load32 (mem s) q) qs 0"
    using Cons.prems(1) by simp_all
  have nz: "q \<noteq> 0" using node page_node_not_0 by auto
  have only: "links_only (ls @ hs @ q # qs) (mem s) m'"
    if "links_only xs (mem s) m1" "links_only ys m1 m'" "set xs \<union> set ys \<subseteq> set (ls @ hs @ q # qs)" for xs ys m1 m'
    using that links_only_mono links_only_trans by (metis le_sup_iff)
  show ?case
  proof (cases "low_page s limit q")
    case True
    obtain v m1 where put: "put_slot tp0 q (pp1, pp2, s) = (v, pp2, s\<lparr>mem := m1\<rparr>)"
        and lists: "page_list.path base n m1 (load32 m1 q) qs 0" "open_list base n m1 v (ls @ [q]) (Link q) Pp1"
          "open_list base n m1 pp2 hs tp1 Pp2" and first: "links_only ls (mem s) m1"
      using put_slot_appends [OF _ _ Cons.prems(3) node rest, of Pp1 pp1 pp2 ls tp0] Cons.prems(2,4) by auto
    have turn: "reorder_loop limit pp tp0 tp1 (pp1, pp2, s) =
        reorder_loop limit (load32 m1 q) (Link q) tp1 (v, pp2, s\<lparr>mem := m1\<rparr>)"
      using True nz put unfolding pp low_page_def not_le [symmetric] by (subst reorder_loop.simps) (simp add: pp_link_def)
    have "distinct ((ls @ [q]) @ hs @ qs)" using Cons.prems(4) by auto
    then obtain t0 t1 v1 v2 m' where IH:
        "reorder_loop limit (load32 m1 q) (Link q) tp1 (v, pp2, s\<lparr>mem := m1\<rparr>) = Some (t0, t1, v1, v2, s\<lparr>mem := m'\<rparr>)"
        "open_list base n m' v1 ((ls @ [q]) @ filter (low_page s limit) qs) t0 Pp1"
        "open_list base n m' v2 (hs @ filter (\<lambda>q. \<not> low_page s limit q) qs) t1 Pp2"
        "links_only ((ls @ [q]) @ hs @ qs) m1 m'"
      using Cons.IH [of "s\<lparr>mem := m1\<rparr>" "load32 m1 q" v "ls @ [q]" "Link q" pp2 hs tp1] lists by auto
    have "links_only (ls @ hs @ q # qs) (mem s) m'" by (rule only [OF first IH(4)]) auto
    with IH(1-3) turn True show ?thesis by (intro exI conjI) simp_all
  next
    case False
    obtain v m1 where put: "put_slot tp1 q (pp1, pp2, s) = (pp1, v, s\<lparr>mem := m1\<rparr>)"
        and lists: "page_list.path base n m1 (load32 m1 q) qs 0" "open_list base n m1 v (hs @ [q]) (Link q) Pp2"
          "open_list base n m1 pp1 ls tp0 Pp1" and first: "links_only hs (mem s) m1"
      using put_slot_appends [OF _ _ Cons.prems(2) node rest, of Pp2 pp1 pp2 hs tp1] Cons.prems(3,4) by auto
    have turn: "reorder_loop limit pp tp0 tp1 (pp1, pp2, s) =
        reorder_loop limit (load32 m1 q) tp0 (Link q) (pp1, v, s\<lparr>mem := m1\<rparr>)"
      using False nz put unfolding pp low_page_def not_less by (subst reorder_loop.simps) (simp add: pp_link_def)
    have "distinct (ls @ (hs @ [q]) @ qs)" using Cons.prems(4) by auto
    then obtain t0 t1 v1 v2 m' where IH:
        "reorder_loop limit (load32 m1 q) tp0 (Link q) (pp1, v, s\<lparr>mem := m1\<rparr>) = Some (t0, t1, v1, v2, s\<lparr>mem := m'\<rparr>)"
        "open_list base n m' v1 (ls @ filter (low_page s limit) qs) t0 Pp1"
        "open_list base n m' v2 ((hs @ [q]) @ filter (\<lambda>q. \<not> low_page s limit q) qs) t1 Pp2"
        "links_only (ls @ (hs @ [q]) @ qs) m1 m'"
      using Cons.IH [of "s\<lparr>mem := m1\<rparr>" "load32 m1 q" pp1 ls tp0 v "hs @ [q]" "Link q"] lists by auto
    have "links_only (ls @ hs @ q # qs) (mem s) m'" by (rule only [OF first IH(4)]) auto
    with IH(1-3) turn False show ?thesis by (intro exI conjI) simp_all
  qed
qed

lemma reorder_partitions:
  assumes fl: "free_list s qs"
  shows "\<exists>s'. reorder_free_list limit s = Some s'
    \<and> free_list s' (filter (low_page s limit) qs @ filter (\<lambda>q. \<not> low_page s limit q) qs)
    \<and> links_only qs (mem s) (mem s') \<and> s' = s\<lparr>mem := mem s', page_free_list := page_free_list s'\<rparr>"
proof -
  let ?B = "pages s" and ?N = "unat (npages s)"
  let ?ls = "filter (low_page s limit) qs" and ?hs = "filter (\<lambda>q. \<not> low_page s limit q) qs"
  have path: "page_list.path ?B ?N (mem s) (page_free_list s) qs 0" and dist: "distinct qs"
    using fl by (simp_all add: free_list_def)
  have start: "open_list ?B ?N (mem s) 0 [] e e" for e by (simp add: open_list_def)
  obtain t0 t1 v1 v2 m1 where loop:
      "reorder_loop limit (page_free_list s) Pp1 Pp2 (0, 0, s) = Some (t0, t1, v1, v2, s\<lparr>mem := m1\<rparr>)"
      and ls: "open_list ?B ?N m1 v1 ?ls t0 Pp1" and hs: "open_list ?B ?N m1 v2 ?hs t1 Pp2"
      and only1: "links_only qs (mem s) m1"
    using reorder_loop_splits [OF path start start, of limit] dist by auto
  obtain w m2 where put1: "put_slot t1 0 (v1, v2, s\<lparr>mem := m1\<rparr>) = (v1, w, s\<lparr>mem := m2\<rparr>)"
      and high: "page_list.path ?B ?N m2 w ?hs 0" and only2: "links_only ?hs m1 m2"
      and same2: "\<forall>q. page_node ?B ?N q \<longrightarrow> q \<notin> set ?hs \<longrightarrow> load32 m2 q = load32 m1 q"
    using put_slot_closes [of ?B ?N "s\<lparr>mem := m1\<rparr>" Pp2 v1 v2 ?hs t1 0] hs dist by auto
  have ls2: "open_list ?B ?N m2 v1 ?ls t0 Pp1"
    using ls by (rule open_list_keep) (use same2 in auto)
  obtain u m3 where put0: "put_slot t0 w (v1, w, s\<lparr>mem := m2\<rparr>) = (u, w, s\<lparr>mem := m3\<rparr>)"
      and low: "page_list.path ?B ?N m3 u ?ls w" and only3: "links_only ?ls m2 m3"
      and same3: "\<forall>q. page_node ?B ?N q \<longrightarrow> q \<notin> set ?ls \<longrightarrow> load32 m3 q = load32 m2 q"
    using put_slot_closes [of ?B ?N "s\<lparr>mem := m2\<rparr>" Pp1 v1 w ?ls t0 w] ls2 dist by auto
  have "page_list.path ?B ?N m3 w ?hs 0"
    using high same3 by (intro page_list.path_cong [of ?hs ?B ?N m3 m2]) auto
  with low have "page_list.path ?B ?N m3 u (?ls @ ?hs) 0" by (auto simp: page_list.path_append)
  moreover have "distinct (?ls @ ?hs)" using dist by auto
  moreover have "links_only qs (mem s) m3"
    using links_only_trans [OF links_only_trans [OF only1]] links_only_mono [OF only2, of qs]
      links_only_mono [OF only3, of qs] by auto
  moreover have "reorder_free_list limit s = Some (s\<lparr>mem := m3, page_free_list := u\<rparr>)"
    using loop put1 put0 by (simp add: reorder_free_list_def)
  ultimately show ?thesis by (auto simp: free_list_def)
qed

end
