(* ===== verification/Keyboard_Props.thy ===== *)
theory Keyboard_Props
  imports Keyboard_Laws
begin

text \<open>
  The properties of the console: what \<open>cprintf\<close> shows, what \<open>cga_init\<close> sets up, the order in
  which input reaches \<open>getchar\<close>, the buffer's behaviour when it is full, and the keyboard's
  modifier keys.
\<close>

section \<open>Worked instances\<close>

definition demo_hw :: hw where
  "demo_hw = \<lparr>hw_in8 = (\<lambda>_ _. 0), hw_in16 = (\<lambda>_ _. 0), hw_in32 = (\<lambda>_ _. 0), hw_cga_ram = True\<rparr>"

definition demo_con :: "memory \<Rightarrow> con" where
  "demo_con m = \<lparr>mem = m, io_log = [], cr0 = 0, cr2 = 0, cr3 = 0, cr4 = 0, eflags = 0,
     serial_exists = True, addr_6845 = CGA_BASE, crt_buf = KERNBASE + CGA_BUF, crt_pos = 0,
     kbd_shift = 0, cons_buf = replicate 512 0, cons_rpos = 0, cons_wpos = 0\<rparr>"

lemma demo_con_ok: "con_ok (demo_con m)" "ring_ok (demo_con m)" "pending (demo_con m) = []"
  by (simp_all add: demo_con_def con_ok_def ring_ok_def pending_def ring_count_def)

lemma demo_con_fields [simp]: "io_log (demo_con m) = []" "mem (demo_con m) = m"
  by (simp_all add: demo_con_def)

theorem cons_putc_refines_witness:
  "sent 0x3F8 (io_log (cons_putc demo_hw 9 (demo_con (\<lambda>_. 0)))) = [9, 32, 32, 32, 32, 32]
   \<and> con_ok (cons_putc demo_hw 9 (demo_con (\<lambda>_. 0)))"
  using cons_putc_refines [OF demo_con_ok(1), of demo_hw 9 "(\<lambda>_. 0)"]
  by (simp add: replicate_num)

section \<open>cprintf\<close>

text \<open>
  C19: on a sane console \<open>cprintf\<close> returns the length of the rendering, puts the rendering on the
  terminal and on the serial line, and changes no memory but the display and no input state; the
  string arguments may lie anywhere outside the display.
\<close>

theorem cprintf_on_terminal:
  assumes "con_ok s" and "string_args (crt_buf s) 4000 (mem s) ap ap'"
    and "render fmt 0 ap' = Some out"
  shows "\<exists>s'. cprintf h fmt ap s = Some (of_nat (length out), s')
    \<and> terminal s' = fold term_put out (terminal s)
    \<and> con_ok s' \<and> same_outside s s' \<and> input_state s' = input_state s
    \<and> sent 0x3F8 (io_log s') = sent 0x3F8 (io_log s) @ concat (map serial_bytes out)"
  using assms by (rule cprintf_run)

theorem cprintf_on_terminal_witness:
  "\<exists>s'. cprintf demo_hw (ascii ''6828 decimal is %o octal!'' @ [10]) [Slot 6828] (demo_con (\<lambda>_. 0)) = Some (29, s')
    \<and> sent 0x3F8 (io_log s') = ascii ''6828 decimal is 15254 octal!'' @ [10]"
proof -
  let ?out = "map ucast (ascii ''6828 decimal is 15254 octal!'' @ [10]) :: i32 list"
  have args: "string_args (crt_buf (demo_con (\<lambda>_. 0))) 4000 (mem (demo_con (\<lambda>_. 0))) [Slot 6828] [Slot 6828]"
    by (simp add: string_args_def)
  have out: "render (ascii ''6828 decimal is %o octal!'' @ [10]) 0 [Slot 6828] = Some ?out"
    by (simp add: render_eval split del: if_split)
  show ?thesis
    using cprintf_on_terminal [OF demo_con_ok(1) args out, of demo_hw]
    by (auto simp: serial_bytes_def)
qed

section \<open>cga\_init\<close>

lemma store16_twice: "store16 (store16 m a v) a w = store16 m a w"
  by (rule ext) (simp add: store16_def)

lemma store16_same: "store16 m a (load16 m a) = m"
proof
  fix b
  have "ucast (load16 m a) = m a" "ucast (drop_bit 8 (load16 m a)) = m (a + 1)"
    by (rule bit_word_eqI; auto simp: load16_def bit_simps dest: bit_imp_le_length)+
  then show "store16 m a (load16 m a) b = m b" by (simp add: store16_def)
qed

text \<open>
  A display controller behind the index port \<open>p\<close> and the data port after it whose cursor is at \<open>n\<close>:
  registers 14 and 15 read as the high and the low byte of \<open>n\<close>, as long as no data is written.
\<close>

definition cursor_at :: "hw \<Rightarrow> u16 \<Rightarrow> nat \<Rightarrow> io_event list \<Rightarrow> bool" where
  "cursor_at h p n l \<longleftrightarrow> n < 65536 \<and> (\<forall>k. (\<forall>e \<in> set k. \<forall>v. e \<noteq> EOut8 (p + 1) v) \<longrightarrow>
     unat (hw_in8 h (EOut8 p 14 # k @ l) (p + 1)) = n div 256
     \<and> unat (hw_in8 h (EOut8 p 15 # k @ l) (p + 1)) = n mod 256)"

text \<open>The probe of \<open>cga_init\<close>: a write to the colour window reads back.\<close>

definition colour_window :: "hw \<Rightarrow> memory \<Rightarrow> bool" where
  "colour_window h m \<longleftrightarrow> hw_cga_ram h \<or> load16 m 0xF00B8000 = 0xA55A"

definition crtc_port :: "hw \<Rightarrow> memory \<Rightarrow> u16" where
  "crtc_port h m = (if colour_window h m then 0x3D4 else 0x3B4)"

lemma crtc_port_cases: "crtc_port h m = 0x3D4 \<or> crtc_port h m = 0x3B4"
  by (simp add: crtc_port_def)

lemma cga_init_takes:
  assumes cur: "cursor_at h (crtc_port h (mem s)) n (io_log s)"
  shows "mem (cga_init h s) = mem s \<and> addr_6845 (cga_init h s) = ucast (crtc_port h (mem s))
    \<and> crt_buf (cga_init h s) = (if colour_window h (mem s) then 0xF00B8000 else 0xF00B0000)
    \<and> unat (crt_pos (cga_init h s)) = n \<and> (con_ok (cga_init h s) \<longleftrightarrow> n < 2000)"
proof -
  define p where "p = crtc_port h (mem s)"
  define hi lo where "hi = hw_in8 h (EOut8 p 14 # io_log s) (p + 1)"
    and "lo = hw_in8 h (EOut8 p 15 # EIn8 (p + 1) hi # EOut8 p 14 # io_log s) (p + 1)"
  have p: "p = 0x3D4 \<and> colour_window h (mem s) \<or> p = 0x3B4 \<and> \<not> colour_window h (mem s)"
    by (simp add: p_def crtc_port_def)
  have n: "n < 65536" using cur by (simp add: cursor_at_def)
  have at: "(\<forall>e \<in> set k. \<forall>v. e \<noteq> EOut8 (p + 1) v) \<Longrightarrow>
      unat (hw_in8 h (EOut8 p 14 # k @ io_log s) (p + 1)) = n div 256
      \<and> unat (hw_in8 h (EOut8 p 15 # k @ io_log s) (p + 1)) = n mod 256" for k
    using cur unfolding cursor_at_def p_def [symmetric] by blast
  have "unat hi = n div 256" using at [of "[]"] by (simp add: hi_def)
  moreover have "unat lo = n mod 256" using at [of "[EIn8 (p + 1) hi, EOut8 p 14]"] p by (auto simp: lo_def)
  ultimately have pos: "unat (ucast (push_bit 8 (ucast hi) OR ucast lo :: u32) :: u16) = n"
    by (simp only: byte_pair_cut) simp
  have "load16 (store16 (mem s) 0xF00B8000 0xA55A) 0xF00B8000 = 0xA55A" by (rule cell16.load_store)
  then have cga: "mem (cga_init h s) = mem s" "addr_6845 (cga_init h s) = ucast p"
      "crt_buf (cga_init h s) = (if colour_window h (mem s) then 0xF00B8000 else 0xF00B0000)"
      "crt_pos (cga_init h s) = ucast (push_bit 8 (ucast hi) OR ucast lo :: u32)"
    using p by (auto simp: cga_init_def Let_def inb_def outb_def log_event_def store16_twice store16_same
        colour_window_def hi_def lo_def)
  have "con_ok (cga_init h s) \<longleftrightarrow> crt_pos (cga_init h s) < 2000"
    using cga(2,3) p by (auto simp: con_ok_def)
  also have "\<dots> \<longleftrightarrow> n < 2000" by (simp only: cga(4) word_less_nat_alt pos) simp
  finally show ?thesis using cga pos by (simp add: p_def)
qed

text \<open>A machine with a colour display whose cursor is at \<open>n\<close> and stays there.\<close>

definition cursor_hw :: "nat \<Rightarrow> hw" where
  "cursor_hw n = demo_hw\<lparr>hw_in8 := (\<lambda>l p.
     case l of EOut8 q r # _ \<Rightarrow> if (q = 0x3D4 \<or> q = 0x3B4) \<and> p = q + 1 then of_nat (if r = 14 then n div 256 else n) else 0
     | _ \<Rightarrow> 0)\<rparr>"

lemma cursor_hw_at: "n < 65536 \<Longrightarrow> cursor_at (cursor_hw n) (crtc_port h m) n l"
  using crtc_port_cases [of h m]
  by (auto simp: cursor_at_def cursor_hw_def unsigned_of_nat take_bit_nat_def)

text \<open>
  C36: \<open>cga_init\<close> leaves memory as it was, takes the colour display when the colour window answers the
  probe and the monochrome one otherwise, and takes over the cursor position that the controller of
  this display reports.  It does not check this position, so that the console is sane afterwards exactly
  when the cursor is on the screen of 2000 cells.
\<close>

theorem cga_init_sane:
  assumes "cursor_at h (crtc_port h (mem s)) n (io_log s)"
  shows "mem (cga_init h s) = mem s \<and> addr_6845 (cga_init h s) = ucast (crtc_port h (mem s))
    \<and> crt_buf (cga_init h s) = (if colour_window h (mem s) then 0xF00B8000 else 0xF00B0000)
    \<and> unat (crt_pos (cga_init h s)) = n \<and> (con_ok (cga_init h s) \<longleftrightarrow> n < 2000)"
  by (rule cga_init_takes [OF assms])

theorem cga_init_sane_witness:
  "unat (crt_pos (cga_init (cursor_hw 1234) (demo_con (\<lambda>_. 0)))) = 1234
   \<and> con_ok (cga_init (cursor_hw 1234) (demo_con (\<lambda>_. 0)))"
proof -
  have "cursor_at (cursor_hw 1234) (crtc_port (cursor_hw 1234) (mem (demo_con (\<lambda>_. 0)))) 1234 (io_log (demo_con (\<lambda>_. 0)))"
    by (rule cursor_hw_at) simp
  from cga_init_sane [OF this] show ?thesis by simp
qed

section \<open>The input buffer\<close>

text \<open>\<open>n\<close> characters taken out, one after the other.\<close>

primrec get_chars :: "nat \<Rightarrow> 'a con_scheme \<Rightarrow> i32 list" where
  "get_chars 0 s = []"
| "get_chars (Suc n) s = fst (get_char s) # get_chars n (snd (get_char s))"

lemma get_chars_gets: "get_chars n s = fst (ring.gets n s)"
  by (induction n arbitrary: s) (simp_all add: Let_def)

text \<open>
  C26: up to 511 characters put into an empty buffer come out as they went in, cut to bytes, in
  order, wherever in the ring the positions stand.
\<close>

theorem ring_fifo:
  assumes "ring_ok s" and "pending s = []" and "length cs \<le> 511"
  shows "get_chars (length cs) (fold put_char cs s) = map (\<lambda>c. ucast (ucast c :: u8)) cs"
  unfolding get_chars_gets using assms by (rule ring.fifo)

theorem ring_fifo_witness:
  "get_chars 3 (fold put_char [104, 105, 10] ((demo_con (\<lambda>_. 0))\<lparr>cons_rpos := 511, cons_wpos := 511\<rparr>))
    = [104, 105, 10]"
proof -
  let ?s = "(demo_con (\<lambda>_. 0))\<lparr>cons_rpos := 511, cons_wpos := 511\<rparr>"
  have "ring_ok ?s" "pending ?s = []"
    by (simp_all add: demo_con_def ring_ok_def pending_def ring_count_def)
  from ring_fifo [OF this, of "[104, 105, 10]"] show ?thesis
    by (simp add: numeral_3_eq_3 del: get_chars.simps)
qed

text \<open>C38: a character put into a buffer that holds 511 unread ones makes all of them disappear.\<close>

theorem ring_overflow:
  assumes "ring_ok s" and "length (pending s) = 511"
  shows "pending (put_char c s) = [] \<and> ring_ok (put_char c s)"
  using assms by (simp add: pending_overflow put_char_ok)

theorem ring_overflow_witness:
  "pending (put_char 65 ((demo_con (\<lambda>_. 0))\<lparr>cons_wpos := 511\<rparr>)) = []"
proof -
  have "ring_ok ((demo_con (\<lambda>_. 0))\<lparr>cons_wpos := 511\<rparr>)" "length (pending ((demo_con (\<lambda>_. 0))\<lparr>cons_wpos := 511\<rparr>)) = 511"
    by (simp_all add: demo_con_def ring_ok_def ring_count_def)
  from ring_overflow [OF this, of 65] show ?thesis by simp
qed

lemma serial_intr_pending:
  assumes "feed (serial_proc_data h) s cs s'" and "con_ok s" "ring_ok s" "serial_exists s"
    and "length (pending s) + length cs \<le> 511"
  shows "serial_intr h s = Some s' \<and> pending s' = pending s @ map ucast cs \<and> ring_ok s' \<and> con_ok s'"
  using assms feed_cons_intr [OF assms(1)] serial.feed_pending [OF assms(1-3)]
  by (simp add: serial_intr_def)

text \<open>
  C24: when the serial port and the keyboard run dry and their characters fit into the buffer,
  \<open>getchar\<close> returns the oldest character and the rest stays buffered in order: old input, then
  serial, then keyboard.
\<close>

theorem getchar_oldest:
  assumes ok: "con_ok s" "ring_ok s" "serial_exists s"
    and feeds: "feed (serial_proc_data h) s cs s1" "feed (kbd_proc_data h) s1 ds s2"
    and fits: "length (pending s) + length cs + length ds \<le> 511"
    and first: "pending s @ map ucast (cs @ ds) = x # xs" "x \<noteq> 0"
  shows "\<exists>s'. getchar h s = Some (ucast x, s') \<and> pending s' = xs \<and> ring_ok s'"
proof -
  have fit1: "length (pending s) + length cs \<le> 511" using fits by simp
  note s1 = serial_intr_pending [OF feeds(1) ok fit1]
  have p1: "length (pending s1) = length (pending s) + length cs"
    using s1 by (simp del: length_pending)
  have "kbd_intr h s1 = Some s2" using feed_cons_intr [OF feeds(2)] by (simp add: kbd_intr_def)
  moreover have "pending s2 = pending s1 @ map ucast ds \<and> ring_ok s2 \<and> con_ok s2"
    using kbd.feed_pending [OF feeds(2)] s1 p1 fits by (simp del: length_pending)
  ultimately have s2: "kbd_intr h s1 = Some s2" "ring_ok s2" "pending s2 = x # xs"
    using s1 first(1) by simp_all
  have "(ucast x :: i32) \<noteq> 0" 
  proof
    assume "(ucast x :: i32) = 0"
    then have "uint x = 0" using sint_ucast8 [of x] by simp
    with first(2) show False by (simp add: uint_0_iff)
  qed
  with s1 s2 pending_get [OF s2(2,3)] show ?thesis
    by (subst getchar.simps) (auto simp: cons_getc_def split: prod.split)
qed

text \<open>A serial port that holds one \<open>h\<close>, and a keyboard that has nothing.\<close>

definition line_hw :: hw where
  "line_hw = demo_hw\<lparr>hw_in8 := (\<lambda>l p.
     if p = 0x3FD then (if EIn8 0x3F8 104 \<in> set l then 0x20 else 0x21)
     else if p = 0x3F8 then 104 else 0)\<rparr>"

theorem getchar_oldest_witness:
  "\<exists>s'. getchar line_hw (demo_con (\<lambda>_. 0)) = Some (104, s') \<and> pending s' = []"
proof -
  let ?s = "demo_con (\<lambda>_. 0)"
  let ?s1 = "?s\<lparr>io_log := [EIn8 0x3F8 104, EIn8 0x3FD 0x21]\<rparr>"
  let ?t = "put_char 104 ?s1"
  let ?t1 = "?t\<lparr>io_log := EIn8 0x3FD 0x20 # io_log ?t\<rparr>"
  let ?t2 = "?t1\<lparr>io_log := EIn8 0x64 0 # io_log ?t1\<rparr>"
  have log: "io_log ?t = [EIn8 0x3F8 104, EIn8 0x3FD 0x21]" by (simp add: put_char_def Let_def)
  have p1: "serial_proc_data line_hw ?s = Some (104, ?s1)"
    by (simp add: serial_proc_data_def inb_def log_event_def line_hw_def)
  have p2: "serial_proc_data line_hw ?t = Some (- 1, ?t1)"
    by (simp add: serial_proc_data_def inb_def log_event_def line_hw_def log)
  have p3: "kbd_proc_data line_hw ?t1 = Some (- 1, ?t2)"
    by (simp add: kbd_proc_data_def inb_def log_event_def line_hw_def)
  have dry: "feed (serial_proc_data line_hw) ?t [] ?t1" using p2 by (rule feed.stop)
  have f1: "feed (serial_proc_data line_hw) ?s [104] ?t1"
    using p1 _ _ dry by (rule feed.char) simp_all
  have f2: "feed (kbd_proc_data line_hw) ?t1 [] ?t2" using p3 by (rule feed.stop)
  have ex: "serial_exists ?s" by (simp add: demo_con_def)
  have fits: "length (pending ?s) + length [104 :: i32] + length ([] :: i32 list) \<le> 511"
    by (simp add: demo_con_ok(3) del: length_pending)
  have first: "pending ?s @ map ucast ([104] @ [] :: i32 list) = (104 :: u8) # []" "(104 :: u8) \<noteq> 0"
    by (simp_all add: demo_con_ok(3))
  from getchar_oldest [OF demo_con_ok(1,2) ex f1 f2 fits first] show ?thesis by auto
qed

section \<open>Modifier keys\<close>

text \<open>A run of bytes from the keyboard: the final \<open>shift\<close> and the characters.\<close>

primrec kbd_run :: "u32 \<Rightarrow> u8 list \<Rightarrow> u32 \<times> i32 list" where
  "kbd_run shift [] = (shift, [])"
| "kbd_run shift (d # ds) =
     (let (shift1, c) = kbd_decode shift d; (shift2, cs) = kbd_run shift1 ds in (shift2, c # cs))"

lemma bit_80: "bit (0x80 :: u8) n \<longleftrightarrow> n = 7"
proof -
  have "(0x80 :: u8) = push_bit 7 1" by simp
  then show ?thesis by (simp only: bit_simps) auto
qed

lemma bit_7F: "bit (0x7F :: u8) n \<longleftrightarrow> n < 7"
proof -
  have "(0x7F :: u8) = mask 7" by (simp add: mask_eq_exp_minus_1)
  then show ?thesis by (simp only: bit_mask_iff) auto
qed

lemma release_code:
  assumes "data AND 0x80 = (0 :: u8)"
  shows "(data OR 0x80) AND 0x80 = 0x80" "(data OR 0x80) AND 0x7F = data"
proof -
  have "bit (data AND 0x80) 7 = bit data 7" by (simp only: bit_and_iff bit_80) simp
  then have b7: "\<not> bit data 7" using assms by simp
  show "(data OR 0x80) AND 0x80 = 0x80"
    by (rule bit_word_eqI) (simp only: bit_and_iff bit_or_iff bit_80, blast)
  show "(data OR 0x80) AND 0x7F = data"
  proof (rule bit_word_eqI)
    fix n
    assume "n < LENGTH(8)"
    then have "n < 7 \<or> n = 7" by auto
    then show "bit ((data OR 0x80) AND 0x7F) n = bit data n"
      using b7 by (auto simp only: bit_and_iff bit_or_iff bit_80 bit_7F)
  qed
qed

text \<open>
  C29: with no modifier held and caps lock off, a key pressed and released while a shift key is
  down gives its character in the shifted table, once, and leaves the modifier state as it was.
\<close>

theorem kbd_shifted_key:
  assumes "shift \<in> {0, 0x10, 0x20, 0x30}" and "data AND 0x80 = 0" and "data \<noteq> 0x60"
    and "shiftcode data = 0" and "togglecode data = 0"
  shows "kbd_run shift [0x2A, data, data OR 0x80, 0xAA] = (shift, [0, ucast (shiftmap data), 0, 0])"
proof -
  note rel = release_code [OF assms(2)]
  have not_esc: "data \<noteq> 0xE0" "data OR 0x80 \<noteq> 0xE0"
    using assms(2,3) rel(2) by auto
  have codes: "shiftcode 0x2A = 1" "togglecode 0x2A = 0"
    by (simp_all add: shiftcode_def togglecode_def table_def)
  have "shiftmap 0x2A = 0" by code_simp
  then have press: "kbd_decode shift 0x2A = (shift OR 1, 0)"
    using assms(1) by (auto simp: kbd_decode_def codes charcode_def caps_swap_def)
  have key: "kbd_decode (shift OR 1) data = (shift OR 1, ucast (shiftmap data))"
    using assms not_esc by (auto simp: kbd_decode_def charcode_def caps_swap_def)
  have up: "kbd_decode (shift OR 1) (data OR 0x80) = (shift OR 1, 0)"
    using assms not_esc rel by (auto simp: kbd_decode_def)
  have release: "kbd_decode (shift OR 1) 0xAA = (shift, 0)"
    using assms(1) by (auto simp: kbd_decode_def codes)
  show ?thesis by (simp add: press key up release)
qed

theorem kbd_shifted_key_witness:
  "kbd_run 0x10 [0x2A, 0x1E, 0x9E, 0xAA] = (0x10, [0, 65, 0, 0])"
proof -
  have "(0x10 :: u32) \<in> {0, 0x10, 0x20, 0x30}" "0x1E AND 0x80 = (0 :: u8)" "0x1E \<noteq> (0x60 :: u8)"
      "shiftcode 0x1E = 0" "togglecode 0x1E = 0"
    by (simp_all add: shiftcode_def togglecode_def table_def)
  moreover have "shiftmap 0x1E = 65" by code_simp
  ultimately show ?thesis using kbd_shifted_key [of "0x10" "0x1E"] by (simp del: kbd_run.simps)
qed

text \<open>
  Ctrl with Home, unlike Ctrl with the other keys of its group, gives no character: the entry
  for Home stands at 0x97 in the control table, and not at 0xC7.
\<close>

theorem kbd_ctrl_home_lost:
  "kbd_run 0 [0x1D, 0xE0, 0x47] = (2, [0, 0, 0])
   \<and> kbd_run 0 [0x1D, 0xE0, 0x4F] = (2, [0, 0, ucast KEY_END])
   \<and> kbd_run 0 [0xE0, 0x47] = (0, [0, ucast KEY_HOME])"
  by code_simp

end
