(* ===== verification/Pmap_Props.thy ===== *)
theory Pmap_Props
  imports Pmap_Laws Keyboard_Props Kdebug
begin

text \<open>
  Properties of kern/pmap.c and kern/entrypgdir.c: the size of memory and the panic of
  \<open>mem_init\<close>, the free list that \<open>page_init\<close> builds, its reordering and its check, the address
  conversions, and the mapping that the entry page tables give.
\<close>

section \<open>Pages and addresses\<close>

lemma page2pa_ptr: "page2pa (page_ptr (pages s) i) s = push_bit 12 (of_nat i)"
proof (rule bit_word_eqI)
  fix j
  assume "j < LENGTH(32)"
  moreover have "8 * of_nat i = (push_bit 3 (of_nat i) :: u32)" by (simp add: push_bit_eq_mult)
  ultimately show "bit (page2pa (page_ptr (pages s) i) s) j = bit (push_bit 12 (of_nat i) :: u32) j"
    by (auto simp: page2pa_def page_ptr_def bit_signed_drop_bit_iff bit_simps)
qed

lemma PTE_ADDR_PGNUM: "PTE_ADDR pa = push_bit 12 (PGNUM pa)"
  by (rule bit_word_eqI) (auto simp: bit_simps)

lemma unat_PGNUM: "unat (PGNUM pa) = unat pa div 4096"
  by (simp add: PGNUM_def drop_bit_eq_div unat_div)

text \<open>
  C33: for a page of physical memory, which fills at most the 256 MiB above KERNBASE, the
  conversions never panic and agree: \<open>pa2page\<close> gives the structure whose \<open>page2pa\<close> is the start
  of the page, \<open>page2kva\<close> its kernel address, and \<open>PADDR\<close> takes that back.
\<close>

theorem page_conversions:
  assumes ok: "array_ok (pages s) (unat (npages s))" and pa: "PGNUM pa < npages s"
    and mem: "npages s \<le> 0x10000"
  shows "\<exists>pp. pa2page pa s = Some (Ret pp s) \<and> page_node (pages s) (unat (npages s)) pp
    \<and> page2pa pp s = PTE_ADDR pa
    \<and> page2kva pp s = Some (Ret (KERNBASE + PTE_ADDR pa) s)
    \<and> PADDR file line (KERNBASE + PTE_ADDR pa) s = Some (Ret (PTE_ADDR pa) s)"
proof -
  let ?pp = "page_ptr (pages s) (unat (PGNUM pa))"
  have lt: "\<not> npages s \<le> PGNUM pa" using pa by (simp add: not_le)
  then have pp: "pa2page pa s = Some (Ret ?pp s)"
    by (simp add: pa2page_def kreturn_def page_ptr_def)
  have conv: "page2pa ?pp s = PTE_ADDR pa" by (simp add: page2pa_ptr PTE_ADDR_PGNUM)
  have node: "page_node (pages s) (unat (npages s)) ?pp"
    using ok pa by (auto simp: page_node_def word_less_nat_alt)
  have "PGNUM (PTE_ADDR pa) = PGNUM pa" by (rule bit_word_eqI) (auto simp: bit_simps)
  with lt have kva: "page2kva ?pp s = Some (Ret (KERNBASE + PTE_ADDR pa) s)"
    by (simp add: page2kva_def KADDR_def conv kreturn_def add.commute)
  have "unat (PGNUM pa) < 65536" using pa mem by (simp add: word_less_nat_alt word_le_nat_alt)
  then have "unat pa < 268435456" by (simp add: unat_PGNUM)
  moreover have "unat (PTE_ADDR pa) \<le> unat pa"
    unfolding PTE_ADDR_def using word_and_le2 [of pa "NOT 0xFFF"] by (simp only: word_le_nat_alt)
  ultimately have "unat (KERNBASE + PTE_ADDR pa) = 4026531840 + unat (PTE_ADDR pa)"
    by (simp add: unat_plus32)
  then have "\<not> KERNBASE + PTE_ADDR pa < KERNBASE" by (simp add: word_less_nat_alt)
  then have "PADDR file line (KERNBASE + PTE_ADDR pa) s = Some (Ret (PTE_ADDR pa) s)"
    by (simp add: PADDR_def kreturn_def)
  with pp node conv kva show ?thesis by blast
qed

section \<open>The entry page tables\<close>

lemma PTE_ADDR_mod: "PTE_ADDR a = a - a mod 4096"
proof -
  have low: "a AND 0xFFF = a mod 4096"
    using take_bit_eq_mod [of 12 a] take_bit_eq_mask [of 12 a] by (simp add: mask_eq_exp_minus_1)
  have "a = PTE_ADDR a OR (a AND 0xFFF)"
    by (rule bit_word_eqI) (auto simp: bit_simps mask_FFF)
  moreover have "PTE_ADDR a OR (a AND 0xFFF) = PTE_ADDR a + (a AND 0xFFF)"
    by (rule disjunctive_add [symmetric]) (auto simp: bit_simps mask_FFF)
  ultimately show ?thesis unfolding low by (metis add_diff_cancel_right')
qed

text \<open>An entry: a page address with flags in the low bits.\<close>

lemma entry_flags:
  fixes t :: u32
  assumes t: "t mod 4096 = 0" and f: "f = 1 \<or> f = 3"
  shows "(t + f) AND PTE_P \<noteq> 0" "(t + f) AND PTE_PS = 0" "PTE_ADDR (t + f) = t"
    "PTE_ADDR t = t"
proof -
  have addr: "PTE_ADDR t = t" using t by (simp add: PTE_ADDR_mod)
  have low: "\<not> bit t i" if "i < 12" for i
    using addr that by (metis addr_bits(5) not_le)
  have f': "f = 1 \<or> f = mask 2" using f by (simp add: mask_eq_exp_minus_1)
  have fb: "bit f i \<Longrightarrow> i < 2" for i using f' by (auto simp: bit_simps bit_1_iff)
  have f0: "bit f 0" using f' by (auto simp: bit_simps bit_1_iff)
  have sum: "t + f = t OR f"
    by (rule disjunctive_add) (use low fb in fastforce)
  have b0: "bit (t + f) 0" using f0 by (simp add: sum bit_or_iff)
  have "bit ((t + f) AND PTE_P) 0" using b0 by (simp only: bit_and_iff PTE_P_def) simp
  then show "(t + f) AND PTE_P \<noteq> 0" by (metis bit_0_eq bot_apply bot_bool_def)
  have "\<not> bit (t + f) 7" using low [of 7] fb [of 7] by (auto simp: sum bit_or_iff)
  moreover have ps: "bit (PTE_PS :: u32) i \<longleftrightarrow> i = 7" for i
  proof -
    have "(0x80 :: u32) = push_bit 7 1" by simp
    then have "bit (0x80 :: u32) i \<longleftrightarrow> i = 7" by (simp only: bit_simps) auto
    then show ?thesis by (simp only: PTE_PS_def)
  qed
  ultimately have no7: "bit ((t + f) AND PTE_PS) i = bit 0 i" for i
    by (cases "i = 7") (simp_all only: bit_and_iff ps bit_0_eq bot_apply bot_bool_def simp_thms)
  show "(t + f) AND PTE_PS = 0" by (rule bit_word_eqI) (rule no7)
  show "PTE_ADDR (t + f) = t"
  proof (rule bit_word_eqI)
    fix i
    show "bit (PTE_ADDR (t + f)) i = bit t i"
      using low [of i] fb [of i] by (cases "i < 12") (auto simp: sum bit_simps)
  qed
  show "PTE_ADDR t = t" by (rule addr)
qed

lemma PDX_nat: "unat (PDX va) = unat va div 4194304" and PTX_nat: "unat (PTX va) = unat va div 4096 mod 1024"
proof -
  have "PDX va = take_bit 10 (drop_bit 22 va)" "PTX va = take_bit 10 (drop_bit 12 va)"
    by (simp_all add: PDX_def PTX_def mask_3FF take_bit_eq_mask)
  then have d: "unat (PDX va) = unat va div 4194304 mod 1024" and t: "unat (PTX va) = unat va div 4096 mod 1024"
    by (simp_all only: unsigned_take_bit_eq unat_drop_bit_eq drop_bit_eq_div take_bit_eq_mod)
      (simp_all add: unat_mod unat_div)
  have "unat va div 4194304 < 1024" using unat_lt32 [of va] by (simp add: div_less_iff_less_mult)
  then show "unat (PDX va) = unat va div 4194304" using d by simp
  show "unat (PTX va) = unat va div 4096 mod 1024" by (rule t)
qed

lemma PDX_less: "unat (PDX va) < 1024" and PTX_less: "unat (PTX va) < 1024"
  using unat_lt32 [of va] by (simp_all add: PDX_nat PTX_nat div_less_iff_less_mult)

lemma PDX_range: "PDX va = 0 \<longleftrightarrow> va < 0x400000" "PDX va = 960 \<longleftrightarrow> KERNBASE \<le> va \<and> va - KERNBASE < 0x400000"
proof -
  show "PDX va = 0 \<longleftrightarrow> va < 0x400000"
    using PDX_nat [of va] by (simp add: word_unat_eq_iff word_less_nat_alt div_eq_0_iff)
  have "PDX va = 960 \<longleftrightarrow> unat va div 4194304 = 960" using PDX_nat [of va] by (simp add: word_unat_eq_iff)
  also have "\<dots> \<longleftrightarrow> 4026531840 \<le> unat va \<and> unat va < 4030726144" by auto
  also have "\<dots> \<longleftrightarrow> KERNBASE \<le> va \<and> va - KERNBASE < 0x400000"
    by (auto simp: word_le_nat_alt word_less_nat_alt unat_diff32)
  finally show "PDX va = 960 \<longleftrightarrow> KERNBASE \<le> va \<and> va - KERNBASE < 0x400000" .
qed

lemma push_bit_aligned: "push_bit 12 (x :: u32) mod 4096 = 0"
  using take_bit_eq_mod [of 12 "push_bit 12 x"] by (simp add: take_bit_push_bit)

lemma aligned_diff: "(a :: u32) mod 4096 = 0 \<Longrightarrow> b = push_bit 12 c \<Longrightarrow> (a - b) mod 4096 = 0"
proof -
  assume a: "a mod 4096 = 0" and b: "b = push_bit 12 c"
  have "a = a div 4096 * 4096 + a mod 4096" by (rule div_mult_mod_eq [symmetric])
  then have "a - b = push_bit 12 (a div 4096 - c)"
    using a by (simp add: b push_bit_eq_mult left_diff_distrib)
  then show ?thesis by (simp only: push_bit_aligned)
qed

lemma flags_or: "push_bit 12 x OR 3 = push_bit 12 x + (3 :: u32)"
proof -
  have b3: "bit (3 :: u32) i \<longleftrightarrow> i < 2" for i
  proof -
    have "(3 :: u32) = mask 2" by (simp add: mask_eq_exp_minus_1)
    then show ?thesis by (simp only: bit_mask_iff) auto
  qed
  have "\<not> bit (push_bit 12 x) i \<or> \<not> bit (3 :: u32) i" for i
    by (cases "i < 12") (simp_all only: b3 bit_push_bit_iff, linarith+)
  then show ?thesis by (intro disjunctive_add [symmetric])
qed

lemma PTE_ADDR_parts: "PTE_ADDR va = push_bit 22 (PDX va) + push_bit 12 (PTX va)"
proof -
  have "PTE_ADDR va = push_bit 22 (PDX va) OR push_bit 12 (PTX va)"
  proof (rule bit_word_eqI)
    fix i
    assume "i < LENGTH(32)"
    then consider "i < 12" | "12 \<le> i" "i < 22" | "22 \<le> i" "i < 32" by fastforce
    then show "bit (PTE_ADDR va) i = bit (push_bit 22 (PDX va) OR push_bit 12 (PTX va)) i"
      by cases (auto simp: bit_simps)
  qed
  also have "\<dots> = push_bit 22 (PDX va) + push_bit 12 (PTX va)"
    by (rule disjunctive_add [symmetric]) (auto simp: bit_simps)
  finally show ?thesis .
qed

text \<open>Both tables are in memory, the second level page-aligned and inside physical memory.\<close>

definition entry_tables :: "linkmap \<Rightarrow> u32 \<Rightarrow> 'a kst_scheme \<Rightarrow> bool" where
  "entry_tables lk dir s \<longleftrightarrow>
     (\<forall>i<1024. load32 (mem s) (dir + 4 * of_nat i) = entry_pgdir lk ! i)
     \<and> (\<forall>i<1024. load32 (mem s) (sym_entry_pgtable lk + 4 * of_nat i) = entry_pgtable ! i)
     \<and> sym_entry_pgtable lk mod 4096 = 0 \<and> PGNUM (sym_entry_pgtable lk - KERNBASE) < npages s"

lemma entry_pgdir_nth:
  "i < 1024 \<Longrightarrow> entry_pgdir lk ! i = (if i = 0 then (sym_entry_pgtable lk - KERNBASE) + 1
    else if i = 960 then (sym_entry_pgtable lk - KERNBASE) + 3 else 0)"
  by (simp add: entry_pgdir_def nth_list_update)

lemma entry_pde:
  assumes tabs: "entry_tables lk dir s"
  shows "load32 (mem s) (dir + 4 * PDX va) =
    (if va < 0x400000 then (sym_entry_pgtable lk - KERNBASE) + 1
     else if KERNBASE \<le> va \<and> va - KERNBASE < 0x400000 then (sym_entry_pgtable lk - KERNBASE) + 3 else 0)"
proof -
  have "load32 (mem s) (dir + 4 * of_nat (unat (PDX va))) = entry_pgdir lk ! unat (PDX va)"
    using tabs PDX_less [of va] unfolding entry_tables_def by blast
  moreover have "unat (PDX va) = 0 \<longleftrightarrow> PDX va = 0" "unat (PDX va) = 960 \<longleftrightarrow> PDX va = 960"
    by (simp_all add: word_unat_eq_iff)
  ultimately show ?thesis using PDX_less [of va] PDX_range [of va] by (simp add: entry_pgdir_nth)
qed

lemma entry_pte:
  assumes tabs: "entry_tables lk dir s"
  shows "load32 (mem s) (sym_entry_pgtable lk + 4 * PTX va) = push_bit 12 (PTX va) + 3"
proof -
  have "load32 (mem s) (sym_entry_pgtable lk + 4 * of_nat (unat (PTX va))) = entry_pgtable ! unat (PTX va)"
    using tabs PTX_less [of va] unfolding entry_tables_def by blast
  also have "\<dots> = 0x1000 * PTX va OR 1 OR 2" using PTX_less [of va] by (simp add: entry_pgtable_identity)
  also have "\<dots> = push_bit 12 (PTX va) OR 3" by (simp add: or.assoc push_bit_eq_mult mult.commute)
  finally have "load32 (mem s) (sym_entry_pgtable lk + 4 * of_nat (unat (PTX va))) = push_bit 12 (PTX va) + 3"
    by (simp only: flags_or)
  then show ?thesis by simp
qed

lemma entry_kaddr:
  assumes tabs: "entry_tables lk dir s"
  shows "KADDR f l (sym_entry_pgtable lk - KERNBASE) s = Some (Ret (sym_entry_pgtable lk) s)"
proof -
  have "\<not> npages s \<le> PGNUM (sym_entry_pgtable lk - KERNBASE)" using tabs by (simp only: entry_tables_def not_le)
  then show ?thesis by (simp add: KADDR_def kreturn_def)
qed

text \<open>The page an address of one of the two ranges is in.\<close>

lemma entry_page:
  assumes "va < 0x400000 \<or> KERNBASE \<le> va \<and> va - KERNBASE < 0x400000"
  shows "push_bit 12 (PTX va) = (if va < 0x400000 then va - va mod 4096 else (va - KERNBASE) - va mod 4096)"
proof (cases "va < 0x400000")
  case True
  then have "PDX va = 0" using PDX_range(1) by blast
  then show ?thesis using True PTE_ADDR_parts [of va] by (simp add: PTE_ADDR_mod)
next
  case False
  with assms have "PDX va = 960" using PDX_range(2) by blast
  then have "va - va mod 4096 = KERNBASE + push_bit 12 (PTX va)"
    using PTE_ADDR_parts [of va] by (simp add: PTE_ADDR_mod push_bit_eq_mult)
  then have "push_bit 12 (PTX va) = va - va mod 4096 - KERNBASE" by (simp only: add_diff_cancel_left')
  with False show ?thesis by (simp only: if_False diff_diff_eq add.commute)
qed

text \<open>
  C20: under the page tables the kernel boots with, the first 4 MiB of addresses and the 4 MiB
  from KERNBASE on are both the first 4 MiB of physical memory, and nothing else is mapped.
\<close>

theorem entry_mapping:
  assumes tabs: "entry_tables lk dir s"
  shows "check_va2pa dir va s = Some (Ret
    (if va < 0x400000 then va - va mod 4096
     else if KERNBASE \<le> va \<and> va - KERNBASE < 0x400000 then (va - KERNBASE) - va mod 4096
     else NOT 0) s)"
proof -
  let ?t = "sym_entry_pgtable lk - KERNBASE"
  have "?t mod 4096 = 0" using tabs by (intro aligned_diff [where c = "0xF0000"]) (simp_all add: entry_tables_def)
  note fl = entry_flags [OF this]
  note pde = entry_pde [OF tabs, of va] and pte = entry_pte [OF tabs, of va] and kaddr = entry_kaddr [OF tabs]
  have "push_bit 12 (PTX va) mod 4096 = (0 :: u32)" by (rule push_bit_aligned)
  note fe = entry_flags [OF this]
  show ?thesis
  proof (cases "va < 0x400000 \<or> KERNBASE \<le> va \<and> va - KERNBASE < 0x400000")
    case True
    have "check_va2pa dir va s = Some (Ret (push_bit 12 (PTX va)) s)"
      using True pde pte kaddr fl [of 1] fl [of 3] fe [of 3]
      by (auto simp only: check_va2pa_def Let_def kbind_simps kreturn_def if_True if_False simp_thms split: if_splits)
    then show ?thesis using True entry_page [OF True] by auto
  next
    case False
    then have "load32 (mem s) (dir + 4 * PDX va) = 0" using pde by (simp only: if_False simp_thms de_Morgan_disj)
    then have "check_va2pa dir va s = Some (Ret (NOT 0) s)"
      by (simp add: check_va2pa_def kreturn_def Let_def)
    then show ?thesis using False by auto
  qed
qed

section \<open>The free list\<close>

definition entry_after :: "nat \<Rightarrow> 'a kst_scheme \<Rightarrow> 'a kst_scheme \<Rightarrow> bool" where
  "entry_after k s t \<longleftrightarrow>
     page_list.path (pages s) (unat (npages s)) (mem t) (page_free_list t)
       (map (page_ptr (pages s)) (rev [0..<k])) 0
     \<and> (\<forall>i<k. pp_ref (page_ptr (pages s) i) t = 0)
     \<and> t = s\<lparr>mem := mem t, page_free_list := page_free_list t\<rparr>"

lemma load16_store32: "disjoint_rng b 2 a 4 \<Longrightarrow> load16 (store32 m a v) b = load16 m b"
proof (rule cell16.load_local)
  fix c
  assume "disjoint_rng b 2 a 4" "in_rng c b 2"
  then have "\<not> in_rng c a 4" by (rule disjoint_rng_not_in)
  then show "store32 m a v c = m c" by (rule cell32.store_frame)
qed

lemma changed_again:
  "t = s\<lparr>mem := m0, page_free_list := p0\<rparr> \<Longrightarrow>
    t\<lparr>mem := m, page_free_list := p\<rparr> = s\<lparr>mem := m, page_free_list := (p :: u32)\<rparr>"
  by simp

lemma changed_fields:
  "t = s\<lparr>mem := m, page_free_list := p\<rparr> \<Longrightarrow> pages t = pages s \<and> npages t = npages (s :: 'a kst_scheme)"
  by simp

lemma changed_mem: "t = s\<lparr>mem := m\<rparr> \<Longrightarrow> pages t = pages s \<and> npages t = npages (s :: 'a kst_scheme)"
  by simp

lemma counts_cleared:
  assumes ok: "array_ok base n" and k: "k < n" and zero: "\<forall>i<k. load16 m (page_ptr base i + 4) = 0" and i: "i < Suc k"
  defines "p \<equiv> page_ptr base k"
  shows "load16 (store32 (store16 m (p + 4) 0) p v) (page_ptr base i + 4) = 0"
proof (cases "i = k")
  case True
  have "disjoint_rng (p + 4) 2 p 4" by (simp add: disjoint_rng_def)
  then show ?thesis using True by (simp add: load16_store32 cell16.load_store p_def)
next
  case False
  with i have i: "i < k" by simp
  have "page_node base n (page_ptr base i)" "page_node base n p"
    using ok k i less_trans unfolding page_node_def p_def by blast+
  moreover have "page_ptr base i \<noteq> p" using page_ptr_inj [OF ok, of i k] k i by (simp add: p_def)
  ultimately have "disjoint_rng (page_ptr base i + of_nat 4) 2 (p + of_nat 0) 4"
      "disjoint_rng (page_ptr base i + of_nat 4) 2 (p + of_nat 4) 2"
    by (intro page_fields_disjoint; simp)+
  then show ?thesis using zero i by (simp add: load16_store32 cell16.load_store_other)
qed

lemma page_init_step:
  assumes ok: "array_ok (pages s) (unat (npages s))" and k: "k < unat (npages s)" and t: "entry_after k s t"
  shows "entry_after (Suc k) s (page_init_entry k t)"
proof -
  let ?B = "pages s" and ?N = "unat (npages s)" and ?p = "page_ptr (pages s) k"
  let ?m = "store16 (mem t) (?p + 4) 0"
  let ?qs = "map (page_ptr ?B) (rev [0..<k])"
  have t_eq: "t = s\<lparr>mem := mem t, page_free_list := page_free_list t\<rparr>" using t unfolding entry_after_def by blast
  from changed_fields [OF this] have pages: "pages t = ?B" by blast
  have node: "page_node ?B ?N (page_ptr ?B i)" if "i \<le> k" for i
    using ok k that unfolding page_node_def by (intro conjI exI [of _ i]) auto
  have fresh: "?p \<notin> set ?qs" using page_ptr_inj [OF ok k less_trans [OF _ k]] by clarsimp (metis less_irrefl)
  have "page_list.path ?B ?N (mem t) (page_free_list t) ?qs 0" using t by (simp add: entry_after_def)
  then have "page_list.path ?B ?N ?m (page_free_list t) ?qs 0"
    by (rule page_list.path_cong [rotated]) (use link_set_ref [OF node [of k]] in auto)
  then have "page_list.path ?B ?N (store32 ?m ?p (page_free_list t)) ?p (?p # ?qs) 0"
    using node [of k] fresh by (intro page_list.path_push) auto
  moreover have "\<forall>i<k. load16 (mem t) (page_ptr ?B i + 4) = 0" using t by (simp add: entry_after_def pp_ref_def)
  note counts_cleared [OF ok k this]
  moreover have "t\<lparr>mem := m, page_free_list := p\<rparr> = s\<lparr>mem := m, page_free_list := p\<rparr>" for m p
    using t_eq by (rule changed_again)
  ultimately show ?thesis
    using t pages by (simp add: entry_after_def page_init_entry_def set_ref_def set_link_def pp_ref_def Let_def
        page_ptr_def)
qed

text \<open>
  C22: on a page array of its own \<open>page_init\<close> returns a state in which every page structure is on
  the free list, the last page first, with no references, and nothing but memory and the list
  head has changed.
\<close>

theorem page_init_all_free:
  assumes ok: "array_ok (pages s) (unat (npages s))" and empty: "page_free_list s = 0"
  shows "free_list (page_init s) (map (page_ptr (pages s)) (rev [0..<unat (npages s)]))
    \<and> (\<forall>i<unat (npages s). pp_ref (page_ptr (pages s) i) (page_init s) = 0)
    \<and> page_init s = s\<lparr>mem := mem (page_init s), page_free_list := page_free_list (page_init s)\<rparr>"
proof -
  have "entry_after k s (fold page_init_entry [0..<k] s)" if "k \<le> unat (npages s)" for k
    using that
  proof (induction k)
    case 0
    then show ?case by (simp add: entry_after_def empty)
  next
    case (Suc k)
    then show ?case using page_init_step [OF ok, of k "fold page_init_entry [0..<k] s"] by simp
  qed
  then have after: "entry_after (unat (npages s)) s (page_init s)" by (simp add: page_init_def)
  then have same: "page_init s = s\<lparr>mem := mem (page_init s), page_free_list := page_free_list (page_init s)\<rparr>"
    by (simp only: entry_after_def)
  have "pages (page_init s) = pages s" "npages (page_init s) = npages s"
    by (subst same, simp)+
  moreover have "distinct (map (page_ptr (pages s)) (rev [0..<unat (npages s)]))"
    using page_ptr_inj [OF ok] by (auto simp: distinct_map inj_on_def)
  ultimately show ?thesis
    using after same by (simp add: entry_after_def free_list_def)
qed

text \<open>
  C16: \<open>check_page_free_list\<close> begins by splitting the list: for every well-formed free list the
  pages below the limit come first, the others after them, each group in its old order, and
  only link fields are written.
\<close>

theorem reorder_is_stable_partition:
  assumes "free_list s qs"
  shows "\<exists>s'. reorder_free_list limit s = Some s'
    \<and> free_list s' (filter (low_page s limit) qs @ filter (\<lambda>q. \<not> low_page s limit q) qs)
    \<and> (\<forall>a. (\<forall>q \<in> set qs. \<not> in_rng a q 4) \<longrightarrow> mem s' a = mem s a)"
  using reorder_partitions [OF assms, of limit] by (auto simp: links_only_def)

section \<open>check\_page\_free\_list\<close>

definition page_may_be_free :: "'a kst_scheme \<Rightarrow> u32 \<Rightarrow> bool" where
  "page_may_be_free s pp \<longleftrightarrow> page2pa pp s \<notin> {0, IOPHYSMEM, EXTPHYSMEM - PGSIZE, EXTPHYSMEM}"

lemma passert_simps [simp]:
  "passert line True expr s = kreturn () s"
  "passert line x expr s = Some (Ret u t) \<longleftrightarrow> x \<and> t = s"
  by (auto simp: passert_def kassert_def kreturn_def kpanic_def)

lemma kbind_Ret: "kbind c f = Some (Ret y t) \<longleftrightarrow> (\<exists>x s. c = Some (Ret x s) \<and> f x s = Some (Ret y t))"
  by (auto simp: kbind_def split: kres.splits Option.bind_splits)

lemma kreturn_Ret [simp]: "kreturn x s = Some (Ret y t) \<longleftrightarrow> x = y \<and> s = t"
  by (auto simp: kreturn_def)

lemma KADDR_Ret: "KADDR f l pa s = Some (Ret v t) \<Longrightarrow> t = s"
  by (auto simp: KADDR_def kpanic_def split: if_splits)

lemma node_of_bounds:
  assumes ok: "array_ok base n" and lo: "base \<le> pp" and hi: "pp < base + 8 * of_nat n"
    and al: "(pp - base) mod 8 = 0"
  shows "page_node base n pp"
proof -
  let ?i = "unat (pp - base) div 8"
  have x: "unat (pp - base) = unat pp - unat base" and le: "unat base \<le> unat pp"
    using lo by (simp_all add: unat_diff32 word_le_nat_alt)
  have "unat (pp - base) mod 8 = 0"
    using arg_cong [OF al, of unat] by (simp add: unat_mod)
  then have div8: "8 * ?i = unat (pp - base)" by presburger
  have "unat pp < unat base + 8 * n"
  proof (rule ccontr)
    assume "\<not> unat pp < unat base + 8 * n"
    then have small: "unat base + 8 * n < 4294967296" using unat_lt32 [of pp] by linarith
    have "8 * of_nat n = (of_nat (8 * n) :: u32)" by simp
    then have "unat (base + 8 * of_nat n) = unat base + 8 * n"
      using small by (simp only: unat_plus32 unat_of_nat32) (simp add: unat_of_nat32)
    with hi \<open>\<not> unat pp < unat base + 8 * n\<close> show False by (simp add: word_less_nat_alt)
  qed
  then have "?i < n" using x le div8 by linarith
  moreover have "pp = page_ptr base ?i"
  proof -
    have "8 * of_nat ?i = (of_nat (8 * ?i) :: u32)" by simp
    then have "8 * of_nat ?i = pp - base" by (simp only: div8) simp
    then show ?thesis by (simp add: page_ptr_def)
  qed
  ultimately show ?thesis using ok unfolding page_node_def by blast
qed

lemma check_free_page_Ret:
  assumes "check_free_page first pp s = Some (Ret u t)" and ok: "array_ok (pages s) (unat (npages s))"
  shows "t = s \<and> page_node (pages s) (unat (npages s)) pp \<and> page_may_be_free s pp"
proof -
  from assms(1) have "pages s \<le> pp" "pp < pages s + 8 * npages s" "(pp - pages s) mod 8 = 0" "t = s"
      "page_may_be_free s pp"
    by (auto simp: check_free_page_def kbind_Ret page_may_be_free_def page2kva_def dest!: KADDR_Ret split: if_splits)
  then show ?thesis using node_of_bounds [OF ok] by simp
qed

text \<open>
  The pages linked from \<open>pp\<close> on may all be free, and the two counters grow by the number of them
  below and above 1 MiB.
\<close>

definition census :: "'a kst_scheme \<Rightarrow> u32 \<Rightarrow> i32 \<Rightarrow> i32 \<Rightarrow> i32 \<Rightarrow> i32 \<Rightarrow> bool" where
  "census s pp nb ne a b \<longleftrightarrow>
     (\<exists>qs. page_list.path (pages s) (unat (npages s)) (mem s) pp qs 0
       \<and> (\<forall>q \<in> set qs. page_may_be_free s q)
       \<and> a = nb + of_nat (length (filter (\<lambda>q. page2pa q s < EXTPHYSMEM) qs))
       \<and> b = ne + of_nat (length (filter (\<lambda>q. \<not> page2pa q s < EXTPHYSMEM) qs)))"

lemma census_Cons:
  assumes "page_node (pages s) (unat (npages s)) pp" and "page_may_be_free s pp"
    and "if page2pa pp s < EXTPHYSMEM then census s (pp_link pp s) (nb + 1) ne a b
         else census s (pp_link pp s) nb (ne + 1) a b"
  shows "census s pp nb ne a b"
proof -
  let ?low = "page2pa pp s < EXTPHYSMEM"
  have "census s (pp_link pp s) (if ?low then nb + 1 else nb) (if ?low then ne else ne + 1) a b"
    using assms(3) by (cases ?low) simp_all
  then obtain qs where "page_list.path (pages s) (unat (npages s)) (mem s) (pp_link pp s) qs 0"
      "\<forall>q \<in> set qs. page_may_be_free s q"
      "a = (if ?low then nb + 1 else nb) + of_nat (length (filter (\<lambda>q. page2pa q s < EXTPHYSMEM) qs))"
      "b = (if ?low then ne else ne + 1) + of_nat (length (filter (\<lambda>q. \<not> page2pa q s < EXTPHYSMEM) qs))"
    unfolding census_def by blast
  then show ?thesis
    unfolding census_def using assms(1,2) by (intro exI [of _ "pp # qs"]) (auto simp: pp_link_def)
qed

lemma check_free_loop_Ret:
  assumes "check_free_loop first pp nb ne s = Some (Ret (a, b) t)" and "array_ok (pages s) (unat (npages s))"
  shows "t = s \<and> census s pp nb ne a b"
proof -
  define Q where "Q pp nb ne s r \<longleftrightarrow> (\<forall>a b t. r = Ret (a, b) t \<longrightarrow> array_ok (pages s) (unat (npages s)) \<longrightarrow>
    t = s \<and> census s pp nb ne a b)"
    for pp :: u32 and nb ne :: i32 and s :: "'a kst_scheme" and r
  have "Q pp nb ne s (Ret (a, b) t)"
  proof (rule check_free_loop.raw_induct [where P = "\<lambda>first pp nb ne s r. Q pp nb ne s r", OF _ assms(1)])
    fix loop first pp nb ne s r
    assume IH: "\<And>first pp nb ne s r. loop first pp nb ne s = Some r \<Longrightarrow> Q pp nb ne s r"
      and run: "(if pp \<noteq> 0 then kbind (check_free_page first pp s)
            (\<lambda>_ s. if page2pa pp s < EXTPHYSMEM then loop first (pp_link pp s) (nb + 1) ne s
                   else loop first (pp_link pp s) nb (ne + 1) s)
          else kreturn (nb, ne) s) = Some r"
    show "Q pp nb ne s r"
      unfolding Q_def
    proof (intro allI impI)
      fix a b t
      assume r: "r = Ret (a, b) t" and ok: "array_ok (pages s) (unat (npages s))"
      show "t = s \<and> census s pp nb ne a b"
      proof (cases "pp = 0")
        case True
        then show ?thesis using run r by (auto simp: census_def intro!: exI [of _ "[]"])
      next
        case False
        then obtain u s1 where page: "check_free_page first pp s = Some (Ret u s1)"
            and rest: "(if page2pa pp s1 < EXTPHYSMEM then loop first (pp_link pp s1) (nb + 1) ne s1
                   else loop first (pp_link pp s1) nb (ne + 1) s1) = Some (Ret (a, b) t)"
          using run r by (auto simp: kbind_Ret)
        note good = check_free_page_Ret [OF page ok]
        from good rest ok show ?thesis
          using IH [of first "pp_link pp s"] census_Cons [of s pp nb ne a b] unfolding Q_def
          by (fastforce split: if_splits)
      qed
    qed
  qed
  then show ?thesis using assms(2) unfolding Q_def by blast
qed

lemma poison_loop_keeps:
  assumes "poison_loop limit pp s = Some r"
  shows "\<forall>u t. r = Ret u t \<longrightarrow> t = s\<lparr>mem := mem t\<rparr>"
proof (rule poison_loop.raw_induct [where P = "\<lambda>limit pp s r. \<forall>u t. r = Ret u t \<longrightarrow> t = s\<lparr>mem := mem t\<rparr>",
      OF _ assms], goal_cases)
  case (1 loop limit pp s r)
  show ?case
  proof (intro allI impI)
    fix u t
    assume r: "r = Ret u t"
    show "t = s\<lparr>mem := mem t\<rparr>"
    proof (cases "pp = 0")
      case True
      then show ?thesis using 1(2) r by simp
    next
      case False
      then obtain s1 where s1: "(if PDX (page2pa pp s) < limit
            then kbind (page2kva pp s) (\<lambda>kva s. kreturn () (s\<lparr>mem := memset kva 0x97 128 (mem s)\<rparr>))
            else kreturn () s) = Some (Ret () s1)" and rest: "loop limit (pp_link pp s1) s1 = Some (Ret u t)"
        using 1(2) r by (auto simp: kbind_Ret)
      have "s1 = s\<lparr>mem := mem s1\<rparr>"
        using s1 by (auto simp: kbind_Ret page2kva_def dest!: KADDR_Ret split: if_splits)
      moreover have "t = s1\<lparr>mem := mem t\<rparr>" using 1(1) [OF rest] by blast
      ultimately have "t = s\<lparr>mem := mem s1\<rparr>\<lparr>mem := mem t\<rparr>" by simp
      then show ?thesis by simp
    qed
  qed
qed

lemma put_slot_keeps: "\<exists>m. snd (snd (put_slot t v vars)) = (snd (snd vars))\<lparr>mem := m\<rparr>"
proof -
  obtain pp1 pp2 s where vars: "vars = (pp1, pp2, s)" by (cases vars)
  have "s = s\<lparr>mem := mem s\<rparr>" by simp
  then show ?thesis unfolding vars by (cases t) (auto simp: set_link_def intro: exI [of _ "mem s"])
qed

lemma reorder_loop_keeps:
  assumes "reorder_loop limit pp tp0 tp1 vars = Some r"
  shows "\<exists>m. snd (snd (snd (snd r))) = (snd (snd vars))\<lparr>mem := m\<rparr>"
proof (rule reorder_loop.raw_induct [where P = "\<lambda>limit pp tp0 tp1 vars r.
      \<exists>m. snd (snd (snd (snd r))) = (snd (snd vars))\<lparr>mem := m\<rparr>", OF _ assms], goal_cases)
  case (1 loop limit pp tp0 tp1 vars r)
  show ?case
  proof (cases "pp = 0")
    case True
    then have "r = (tp0, tp1, vars)" using 1(2) by simp
    then show ?thesis by (intro exI [of _ "mem (snd (snd vars))"]) simp
  next
    case False
    then obtain t q t0 t1 where "loop limit q t0 t1 (put_slot t pp vars) = Some r"
      using 1(2) by (auto simp: Let_def split: if_splits)
    then obtain m where "snd (snd (snd (snd r))) = (snd (snd (put_slot t pp vars)))\<lparr>mem := m\<rparr>"
      using 1(1) by blast
    then show ?thesis using put_slot_keeps [of t pp vars] by auto
  qed
qed

lemma reorder_keeps:
  assumes "reorder_free_list limit s = Some t"
  shows "t = s\<lparr>mem := mem t, page_free_list := page_free_list t\<rparr>"
proof -
  obtain tp0 tp1 vars pp1 pp2 s1 where loop: "reorder_loop limit (page_free_list s) Pp1 Pp2 (0, 0, s) = Some (tp0, tp1, vars)"
      and put: "put_slot tp0 (fst (snd (put_slot tp1 0 vars))) (put_slot tp1 0 vars) = (pp1, pp2, s1)"
      and t: "t = s1\<lparr>page_free_list := pp1\<rparr>"
    using assms by (auto simp: reorder_free_list_def Let_def split: Option.bind_splits prod.splits)
  obtain m1 where m1: "snd (snd vars) = s\<lparr>mem := m1\<rparr>" using reorder_loop_keeps [OF loop] by auto
  obtain m2 where m2: "snd (snd (put_slot tp1 0 vars)) = (snd (snd vars))\<lparr>mem := m2\<rparr>"
    using put_slot_keeps by blast
  obtain m3 where "s1 = (snd (snd (put_slot tp1 0 vars)))\<lparr>mem := m3\<rparr>"
    using put_slot_keeps [of tp0 "fst (snd (put_slot tp1 0 vars))" "put_slot tp1 0 vars"] put by auto
  then show ?thesis unfolding t m2 m1 by simp
qed

lemma check_page_free_list_loop:
  assumes run: "check_page_free_list lk only_low_memory s = Some (Ret u t)"
  shows "\<exists>first s3 b e. pages s3 = pages s \<and> npages s3 = npages s \<and> 0 <s b \<and> 0 <s e
    \<and> check_free_loop first (page_free_list s3) 0 0 s3 = Some (Ret (b, e) t)"
proof -
  let ?limit = "if only_low_memory then 1 else NPDENTRIES"
  obtain s1 s2 where s1: "(if only_low_memory then map_option (Ret ()) (reorder_free_list ?limit s) else kreturn () s) = Some (Ret () s1)"
      and s2: "poison_loop ?limit (page_free_list s1) s1 = Some (Ret () s2)"
      and rest: "kbind (check_free_loop (fst (boot_alloc lk 0 s2)) (page_free_list (snd (boot_alloc lk 0 s2))) 0 0 (snd (boot_alloc lk 0 s2)))
        (\<lambda>(b, e) s. kbind (passert 499 (0 <s b) ''nfree_basemem > 0'' s) (\<lambda>_ s.
          passert 500 (0 <s e) ''nfree_extmem > 0'' s)) = Some (Ret u t)"
    using run by (auto simp: check_page_free_list_def kbind_Ret Let_def case_prod_beta kpanic_def split: if_splits)
  have "pages s1 = pages s \<and> npages s1 = npages s"
  proof (cases only_low_memory)
    case True
    then have "s1 = s\<lparr>mem := mem s1, page_free_list := page_free_list s1\<rparr>"
      using s1 by (intro reorder_keeps) auto
    then show ?thesis by (rule changed_fields)
  qed (use s1 in simp)
  moreover have "s2 = s1\<lparr>mem := mem s2\<rparr>" using poison_loop_keeps [OF s2] by blast
  then have "pages s2 = pages s1 \<and> npages s2 = npages s1" by (rule changed_mem)
  ultimately have s3: "pages (snd (boot_alloc lk 0 s2)) = pages s" "npages (snd (boot_alloc lk 0 s2)) = npages s"
    by (simp_all add: boot_alloc_def Let_def)
  obtain b e where "0 <s b" "0 <s e"
      "check_free_loop (fst (boot_alloc lk 0 s2)) (page_free_list (snd (boot_alloc lk 0 s2))) 0 0 (snd (boot_alloc lk 0 s2))
        = Some (Ret (b, e) t)"
    using rest by (auto simp: kbind_Ret)
  with s3 show ?thesis by blast
qed

text \<open>
  C13: \<open>check_page_free_list\<close> is a sound check: when it returns, the free list is a proper list of
  distinct structures of the page array, has a page below and one above 1 MiB, and holds neither
  page 0 nor the first and last page of the I/O hole nor the first page of the kernel.
\<close>

theorem check_page_free_list_sound:
  assumes run: "check_page_free_list lk only_low_memory s = Some (Ret u t)"
    and ok: "array_ok (pages s) (unat (npages s))"
  shows "\<exists>qs. free_list t qs \<and> (\<forall>q \<in> set qs. page_may_be_free t q)
    \<and> (\<exists>q \<in> set qs. page2pa q t < EXTPHYSMEM) \<and> (\<exists>q \<in> set qs. \<not> page2pa q t < EXTPHYSMEM)"
proof -
  obtain first s3 b e where s3: "pages s3 = pages s" "npages s3 = npages s" and pos: "0 <s b" "0 <s e"
      and loop: "check_free_loop first (page_free_list s3) 0 0 s3 = Some (Ret (b, e) t)"
    using check_page_free_list_loop [OF run] by blast
  have "array_ok (pages s3) (unat (npages s3))" using ok s3 by simp
  from check_free_loop_Ret [OF loop this] have t: "t = s3" and "census s3 (page_free_list s3) 0 0 b e"
    by simp_all
  then obtain qs where qs: "page_list.path (pages t) (unat (npages t)) (mem t) (page_free_list t) qs 0"
      "\<forall>q \<in> set qs. page_may_be_free t q"
      "b = 0 + of_nat (length (filter (\<lambda>q. page2pa q t < EXTPHYSMEM) qs))"
      "e = 0 + of_nat (length (filter (\<lambda>q. \<not> page2pa q t < EXTPHYSMEM) qs))"
    unfolding census_def t by blast
  then have "distinct qs" using page_list.path_distinct page_node_not_0 by blast
  moreover have "filter (\<lambda>q. page2pa q t < EXTPHYSMEM) qs \<noteq> []" "filter (\<lambda>q. \<not> page2pa q t < EXTPHYSMEM) qs \<noteq> []"
    using pos qs(3,4) by (auto simp: word_sless_alt)
  ultimately show ?thesis
    using qs(1,2) by (auto simp: free_list_def filter_empty_conv)
qed

section \<open>mem\_init\<close>

text \<open>
  A clock chip with memory: the register selected through port 0x70 is read at port 0x71.  The six
  registers that hold sizes have the contents \<open>rom\<close>.
\<close>

definition cmos_ram :: "hw \<Rightarrow> (u8 \<Rightarrow> u8) \<Rightarrow> bool" where
  "cmos_ram h rom \<longleftrightarrow> (\<forall>l. \<forall>r \<in> {0x15, 0x16, 0x17, 0x18, 0x34, 0x35}. hw_in8 h (EOut8 0x70 r # l) 0x71 = rom r)"

text \<open>
  The three words there, low byte first: the base memory and the memory above 1 MiB in KiB, and the
  memory above 16 MiB in units of 64 KiB; then the amount of memory they stand for, in KiB.
\<close>

definition cmos_sizes :: "(u8 \<Rightarrow> u8) \<Rightarrow> u32 \<times> u32 \<times> u32" where
  "cmos_sizes rom =
     (of_nat (unat (rom 0x15) + 256 * unat (rom 0x16)), of_nat (unat (rom 0x17) + 256 * unat (rom 0x18)),
      of_nat (unat (rom 0x34) + 256 * unat (rom 0x35)))"

fun total_memory :: "u32 \<times> u32 \<times> u32 \<Rightarrow> u32" where
  "total_memory (b, e, x) =
     (if x * 64 \<noteq> 0 then 16384 + x * 64 else if e \<noteq> 0 then 1024 + e else b)"

definition memory_line :: "u32 \<Rightarrow> u32 \<Rightarrow> i32 list" where
  "memory_line kib base =
     map ucast (ascii ''Physical memory: '') @ dec (unat kib)
     @ map ucast (ascii ''K available, base = '') @ dec (unat base)
     @ map ucast (ascii ''K, extended = '') @ dec (unat (kib - base)) @ map ucast (ascii ''K'' @ [10])"

lemma memory_line_render:
  "render (ascii ''Physical memory: %uK available, base = %uK, extended = %uK'' @ [10]) 0
     [Slot kib, Slot base, Slot (kib - base)] = Some (memory_line kib base)"
  by (simp add: render_sym memory_line_def split del: if_split)

lemma nvram_read_run:
  assumes "hw_in8 h (EOut8 0x70 (ucast r) # io_log s) 0x71 = lo"
    and "\<And>l. hw_in8 h (EOut8 0x70 (ucast (r + 1)) # l) 0x71 = hi"
  shows "\<exists>l. nvram_read h r s = (of_nat (unat lo + 256 * unat hi), s\<lparr>io_log := l @ io_log s\<rparr>)
    \<and> sent 0x3F8 l = [] \<and> rx_reads l = 0"
proof -
  let ?l = "[EIn8 0x71 hi, EOut8 0x70 (ucast (r + 1)), EIn8 0x71 lo, EOut8 0x70 (ucast r)]"
  have "nvram_read h r s = (ucast lo OR push_bit 8 (ucast hi), s\<lparr>io_log := ?l @ io_log s\<rparr>)"
    by (simp add: nvram_read_def mc146818_read_def inb_def outb_def log_event_def Let_def assms)
  moreover have "sent 0x3F8 ?l = []" "rx_reads ?l = 0" by simp_all
  ultimately show ?thesis unfolding byte_pair by blast
qed

lemma mem_init_run:
  assumes ok: "con_ok s" and rom: "cmos_ram h rom"
  shows "let (b, e, x) = cmos_sizes rom; kib = total_memory (b, e, x) in
    \<exists>l t. sent 0x3F8 l = [] \<and> rx_reads l = 0
      \<and> prints (s\<lparr>io_log := l @ io_log s, npages := kib div 4, npages_basemem := b div 4\<rparr>) (memory_line kib b) t
      \<and> mem_init h lk s = kpanic ''kern/pmap.c'' 131 (ascii ''mem_init: This function is not finished'' @ [10]) [] t"
proof -
  obtain b e x where sizes: "cmos_sizes rom = (b, e, x)" by (cases "cmos_sizes rom") auto
  have regs: "\<And>l. hw_in8 h (EOut8 0x70 (ucast (0x15 :: u32)) # l) 0x71 = rom 0x15"
      "\<And>l. hw_in8 h (EOut8 0x70 (ucast (0x15 + 1 :: u32)) # l) 0x71 = rom 0x16"
      "\<And>l. hw_in8 h (EOut8 0x70 (ucast (0x17 :: u32)) # l) 0x71 = rom 0x17"
      "\<And>l. hw_in8 h (EOut8 0x70 (ucast (0x17 + 1 :: u32)) # l) 0x71 = rom 0x18"
      "\<And>l. hw_in8 h (EOut8 0x70 (ucast (0x34 :: u32)) # l) 0x71 = rom 0x34"
      "\<And>l. hw_in8 h (EOut8 0x70 (ucast (0x34 + 1 :: u32)) # l) 0x71 = rom 0x35"
    using rom by (simp_all add: cmos_ram_def)
  obtain s1 l1 where l1: "nvram_read h 0x15 s = (b, s1)" "s1 = s\<lparr>io_log := l1 @ io_log s\<rparr>"
      "sent 0x3F8 l1 = []" "rx_reads l1 = 0"
    using nvram_read_run [OF regs(1,2), of s] sizes by (auto simp: cmos_sizes_def)
  obtain s2 l2 where l2: "nvram_read h 0x17 s1 = (e, s2)" "s2 = s1\<lparr>io_log := l2 @ io_log s1\<rparr>"
      "sent 0x3F8 l2 = []" "rx_reads l2 = 0"
    using nvram_read_run [OF regs(3,4), of s1] sizes by (auto simp: cmos_sizes_def)
  obtain s3 l3 where l3: "nvram_read h 0x34 s2 = (x, s3)" "s3 = s2\<lparr>io_log := l3 @ io_log s2\<rparr>"
      "sent 0x3F8 l3 = []" "rx_reads l3 = 0"
    using nvram_read_run [OF regs(5,6), of s2] sizes by (auto simp: cmos_sizes_def)
  let ?kib = "total_memory (b, e, x)" and ?l = "l3 @ l2 @ l1"
  let ?s4 = "s\<lparr>io_log := ?l @ io_log s, npages := ?kib div 4, npages_basemem := b div 4\<rparr>"
  have s4: "s3\<lparr>npages := ?kib div 4, npages_basemem := b div 4\<rparr> = ?s4" unfolding l1(2) l2(2) l3(2) by simp
  have ok4: "con_ok ?s4" using ok by (simp add: con_ok_def)
  have args: "string_args (crt_buf ?s4) 4000 (mem ?s4) [Slot ?kib, Slot b, Slot (?kib - b)]
      [Slot ?kib, Slot b, Slot (?kib - b)]" by (simp add: string_args_def)
  obtain t where t: "cprintf h (ascii ''Physical memory: %uK available, base = %uK, extended = %uK'' @ [10])
        [Slot ?kib, Slot b, Slot (?kib - b)] ?s4 = Some (of_nat (length (memory_line ?kib b)), t)"
      and p: "prints ?s4 (memory_line ?kib b) t"
    using cprintf_prints [OF ok4 args memory_line_render, of h] by blast
  have regions: "NVRAM_BASELO = 0x15" "NVRAM_EXTLO = 0x17" "NVRAM_EXT16LO = 0x34" "PGSIZE div 1024 = 4"
    by simp_all
  have kib: "(if x * 64 \<noteq> 0 then 16 * 1024 + x * 64 else if e \<noteq> 0 then 1 * 1024 + e else b) = ?kib" by simp
  have "i386_detect_memory h s = Some (of_nat (length (memory_line ?kib b)), t)"
    by (simp only: i386_detect_memory_def regions l1(1) l2(1) l3(1) Let_def prod.case kib s4 t)
  then have "mem_init h lk s = kpanic ''kern/pmap.c'' 131 (ascii ''mem_init: This function is not finished'' @ [10]) [] t"
    by (simp add: mem_init_def)
  moreover have "sent 0x3F8 ?l = []" "rx_reads ?l = 0" using l1 l2 l3 by simp_all
  ultimately show ?thesis using p by (simp only: sizes Let_def prod.case) blast
qed

text \<open>
  C32: on a sane console \<open>mem_init\<close> always ends in its panic: it computes the memory size from the
  contents of the six CMOS registers, stores it in pages, prints it, and nothing of what follows the
  panic is done.
\<close>

theorem mem_init_panics:
  assumes "con_ok s" and "cmos_ram h rom"
  shows "let (b, e, x) = cmos_sizes rom; kib = total_memory (b, e, x) in
    \<exists>l t. sent 0x3F8 l = []
      \<and> prints (s\<lparr>io_log := l @ io_log s, npages := kib div 4, npages_basemem := b div 4\<rparr>) (memory_line kib b) t
      \<and> mem_init h lk s = kpanic ''kern/pmap.c'' 131 (ascii ''mem_init: This function is not finished'' @ [10]) [] t"
  using mem_init_run [OF assms, of lk] unfolding Let_def by (cases "cmos_sizes rom") (simp only: prod.case, blast)

text \<open>
  None of the checks of the page functions can succeed: \<open>page_alloc\<close> is a stub, and the
  first assertion about its result fails.
\<close>

theorem page_checks_fail:
  "check_page h s = kpanic ''kern/pmap.c'' 677 (ascii ''assertion failed: %s'') [Lit (ascii ''(pp0 = page_alloc(0))'')] s
   \<and> check_page_installed_pgdir h s =
        kpanic ''kern/pmap.c'' 831 (ascii ''assertion failed: %s'') [Lit (ascii ''(pp0 = page_alloc(0))'')] s
   \<and> \<not> (\<exists>n t. check_page_alloc h s = Some (Ret n t))"
proof (intro conjI)
  have fails: "called line (page_alloc 0 s) (\<lambda>v. v \<noteq> 0) expr =
      kpanic ''kern/pmap.c'' line (ascii ''assertion failed: %s'') [Lit (ascii expr)] s" for line expr and s :: "'a kst_scheme"
    by (simp add: called_def page_alloc_def passert_def kassert_def)
  show "check_page h s =
      kpanic ''kern/pmap.c'' 677 (ascii ''assertion failed: %s'') [Lit (ascii ''(pp0 = page_alloc(0))'')] s"
    unfolding check_page_def fails by simp
  show "check_page_installed_pgdir h s =
      kpanic ''kern/pmap.c'' 831 (ascii ''assertion failed: %s'') [Lit (ascii ''(pp0 = page_alloc(0))'')] s"
    unfolding check_page_installed_pgdir_def fails by simp
  show "\<not> (\<exists>n t. check_page_alloc h s = Some (Ret n t))"
    unfolding check_page_alloc_def fails by (auto simp: kbind_Ret kpanic_def)
qed

end
