(* ===== verification/Pmap_Instances.thy ===== *)
theory Pmap_Instances
  imports Pmap_Props
begin

text \<open>
  Worked instances of the properties of kern/pmap.c: concrete memories with a page array, a free
  list of two pages, and the entry page tables.
\<close>

definition demo_kst :: "memory \<Rightarrow> u32 \<Rightarrow> u32 \<Rightarrow> u32 \<Rightarrow> kst" where
  "demo_kst m base n head = \<lparr>mem = m, io_log = [], cr0 = 0, cr2 = 0, cr3 = 0, cr4 = 0, eflags = 0,
     serial_exists = True, addr_6845 = CGA_BASE, crt_buf = KERNBASE + CGA_BUF, crt_pos = 0,
     kbd_shift = 0, cons_buf = replicate 512 0, cons_rpos = 0, cons_wpos = 0,
     npages = n, npages_basemem = 0, kern_pgdir = 0, pages = base, page_free_list = head,
     nextfree = 0, panicstr = None\<rparr>"

lemma demo_kst_fields [simp]:
  "mem (demo_kst m base n head) = m" "io_log (demo_kst m base n head) = []"
  "npages (demo_kst m base n head) = n" "pages (demo_kst m base n head) = base"
  "page_free_list (demo_kst m base n head) = head" "con_ok (demo_kst m base n head)"
  by (simp_all add: demo_kst_def con_ok_def)

theorem page_conversions_witness:
  "\<exists>pp. pa2page 0x2345 (demo_kst (\<lambda>_. 0) 0x1000 4 0) = Some (Ret pp (demo_kst (\<lambda>_. 0) 0x1000 4 0))
    \<and> page2kva pp (demo_kst (\<lambda>_. 0) 0x1000 4 0) = Some (Ret 0xF0002000 (demo_kst (\<lambda>_. 0) 0x1000 4 0))"
proof -
  let ?s = "demo_kst (\<lambda>_. 0) 0x1000 4 0"
  have "array_ok (pages ?s) (unat (npages ?s))" "PGNUM 0x2345 < npages ?s" "npages ?s \<le> 0x10000"
    by (simp_all add: array_ok_def PGNUM_def)
  from page_conversions [OF this] show ?thesis by (auto simp: PTE_ADDR_def)
qed

theorem page_init_all_free_witness:
  "free_list (page_init (demo_kst (\<lambda>_. 0) 0x1000 3 0)) [0x1010, 0x1008, 0x1000]"
proof -
  have "array_ok (pages (demo_kst (\<lambda>_. 0) 0x1000 3 0)) (unat (npages (demo_kst (\<lambda>_. 0) 0x1000 3 0)))"
    "page_free_list (demo_kst (\<lambda>_. 0) 0x1000 3 0) = 0"
    by (simp_all add: array_ok_def)
  from page_init_all_free [OF this]
  have "free_list (page_init (demo_kst (\<lambda>_. 0) 0x1000 3 0)) (map (page_ptr 0x1000) (rev [0..<3]))" by simp
  moreover have "[0..<3] = [0, 1, 2 :: nat]" by code_simp
  ultimately show ?thesis by (simp add: page_ptr_def)
qed

text \<open>Two free pages, number 257 (or another one above) before number 1.\<close>

definition two_pages :: "u32 \<Rightarrow> memory" where
  "two_pages p = store32 (store32 (\<lambda>_. 0) p 0x1008) 0x1008 0"

lemma two_pages_list:
  assumes "p \<in> {0x1808, 0x3008}"
  shows "free_list (demo_kst (two_pages p) 0x1000 2000 p) [p, 0x1008]"
proof -
  have ok: "array_ok 0x1000 2000" by (simp add: array_ok_def)
  have "page_node 0x1000 2000 (page_ptr 0x1000 1)" "page_node 0x1000 2000 (page_ptr 0x1000 257)"
    "page_node 0x1000 2000 (page_ptr 0x1000 1025)"
    unfolding page_node_def using ok by (intro conjI exI [of _ 1] exI [of _ 257] exI [of _ 1025]; simp)+
  then show ?thesis
    using assms by (auto simp: free_list_def page_ptr_def two_pages_def load32_def store32_def)
qed

lemma demo_page2pa:
  "page2pa 0x1008 (demo_kst m 0x1000 n head) = 0x1000" "page2pa 0x1808 (demo_kst m 0x1000 n head) = 0x101000"
  "page2pa 0x3008 (demo_kst m 0x1000 n head) = 0x401000"
  using page2pa_ptr [of "demo_kst m 0x1000 n head" 1] page2pa_ptr [of "demo_kst m 0x1000 n head" 257]
    page2pa_ptr [of "demo_kst m 0x1000 n head" 1025] by (simp_all add: page_ptr_def)

theorem reorder_is_stable_partition_witness:
  "\<exists>s'. reorder_free_list 1 (demo_kst (two_pages 0x3008) 0x1000 2000 0x3008) = Some s'
    \<and> free_list s' [0x1008, 0x3008]"
proof -
  have "free_list (demo_kst (two_pages 0x3008) 0x1000 2000 0x3008) [0x3008, 0x1008]"
    by (rule two_pages_list) simp
  from reorder_is_stable_partition [OF this, of 1] show ?thesis
    by (auto simp: low_page_def demo_page2pa PDX_def)
qed

text \<open>A machine with 640 KiB of base memory and 3 MiB above 1 MiB.\<close>

definition cmos_hw :: "(u8 \<Rightarrow> u8) \<Rightarrow> hw" where
  "cmos_hw rom = demo_hw\<lparr>hw_in8 := (\<lambda>l p. case l of EOut8 q r # _ \<Rightarrow> if q = 0x70 \<and> p = 0x71 then rom r else 0 | _ \<Rightarrow> 0)\<rparr>"

definition small_rom :: "u8 \<Rightarrow> u8" where
  "small_rom = (\<lambda>_. 0)(0x15 := 0x80, 0x16 := 2, 0x18 := 12)"

theorem mem_init_panics_witness:
  "\<exists>t. mem_init (cmos_hw small_rom) demo_link (demo_kst (\<lambda>_. 0) 0 0 0) =
      kpanic ''kern/pmap.c'' 131 (ascii ''mem_init: This function is not finished'' @ [10]) [] t
    \<and> sent 0x3F8 (io_log t) = ascii ''Physical memory: 4096K available, base = 640K, extended = 3456K'' @ [10]"
proof -
  have "cmos_ram (cmos_hw small_rom) small_rom" by (simp add: cmos_ram_def cmos_hw_def)
  note run = mem_init_panics [OF demo_kst_fields(6) this, of "(\<lambda>_. 0)" 0 0 0 demo_link]
  have "cmos_sizes small_rom = (640, 3072, 0)" by (simp add: cmos_sizes_def small_rom_def)
  with run obtain l t where "sent 0x3F8 l = []"
    "prints (demo_kst (\<lambda>_. 0) 0 0 0\<lparr>io_log := l @ [], npages := 1024, npages_basemem := 160\<rparr>) (memory_line 4096 640) t"
    "mem_init (cmos_hw small_rom) demo_link (demo_kst (\<lambda>_. 0) 0 0 0) =
      kpanic ''kern/pmap.c'' 131 (ascii ''mem_init: This function is not finished'' @ [10]) [] t"
    by (auto simp: Let_def)
  moreover have "memory_line 4096 640 = map ucast (ascii ''Physical memory: 4096K available, base = 640K, extended = 3456K'' @ [10])"
    by (simp add: memory_line_def dec_def digits.simps digit_text_def)
  ultimately show ?thesis by (auto simp: prints_def serial_bytes_def)
qed

lemma page2pa_nextfree [simp]: "page2pa q (s\<lparr>nextfree := x\<rparr>) = page2pa q s"
  by (simp add: page2pa_def)

lemma poisoned:
  "load32 (memset 0xF0101000 0x97 128 (two_pages 0x1808)) 0x1808 = 0x1008"
  "load32 (memset 0xF0001000 0x97 128 (memset 0xF0101000 0x97 128 (two_pages 0x1808))) 0x1808 = 0x1008"
  "load32 (memset 0xF0001000 0x97 128 (memset 0xF0101000 0x97 128 (two_pages 0x1808))) 0x1008 = 0"
  by (simp_all add: load32_def memset_apply in_rng_def two_pages_def store32_def)

theorem check_page_free_list_sound_witness:
  "\<exists>t qs. check_page_free_list demo_link False (demo_kst (two_pages 0x1808) 0x1000 2000 0x1808) = Some (Ret () t)
    \<and> free_list t qs \<and> (\<exists>q \<in> set qs. page2pa q t < EXTPHYSMEM)"
proof -
  let ?m = "memset 0xF0001000 0x97 128 (memset 0xF0101000 0x97 128 (two_pages 0x1808))"
  let ?s = "demo_kst (two_pages 0x1808) 0x1000 2000 0x1808"
  have upd: "demo_kst m0 0x1000 2000 0x1808\<lparr>mem := m\<rparr> = demo_kst m 0x1000 2000 0x1808" for m0 m
    by (simp add: demo_kst_def)
  have kva: "page2kva 0x1808 (demo_kst m 0x1000 2000 0x1808) = kreturn 0xF0101000 (demo_kst m 0x1000 2000 0x1808)"
    "page2kva 0x1008 (demo_kst m 0x1000 2000 0x1808) = kreturn 0xF0001000 (demo_kst m 0x1000 2000 0x1808)" for m
    by (simp_all add: page2kva_def KADDR_def demo_page2pa PGNUM_def word_le_nat_alt)
  have "poison_loop NPDENTRIES 0x1808 ?s = Some (Ret () (demo_kst ?m 0x1000 2000 0x1808))"
    by (subst poison_loop.simps, subst poison_loop.simps, subst poison_loop.simps)
      (simp add: demo_page2pa kva PDX_def upd pp_link_def poisoned)
  moreover let ?u = "demo_kst ?m 0x1000 2000 0x1808\<lparr>nextfree := ROUNDUP (sym_end demo_link) 4096\<rparr>"
  have "boot_alloc demo_link 0 (demo_kst ?m 0x1000 2000 0x1808) = (0, ?u)"
    by (simp add: boot_alloc_def demo_kst_def)
  moreover have kvu: "page2kva 0x1808 ?u = kreturn 0xF0101000 ?u"
    by (simp add: page2kva_def KADDR_def demo_page2pa PGNUM_def word_le_nat_alt)
  have "check_free_page 0 0x1808 ?u = kreturn () ?u" "check_free_page 0 0x1008 ?u = kreturn () ?u"
    by (simp_all add: check_free_page_def demo_page2pa kvu word_less_nat_alt)
  then have "check_free_loop 0 0x1808 0 0 ?u = Some (Ret (1, 1) ?u)"
    by (subst check_free_loop.simps, subst check_free_loop.simps, subst check_free_loop.simps)
      (simp add: demo_page2pa pp_link_def poisoned word_less_nat_alt)
  ultimately have run: "check_page_free_list demo_link False ?s = Some (Ret () ?u)"
    by (simp add: check_page_free_list_def word_sless_alt)
  have "array_ok (pages ?s) (unat (npages ?s))" by (simp add: array_ok_def)
  from check_page_free_list_sound [OF run this] run show ?thesis by blast
qed

text \<open>Memory with an array of words from \<open>p\<close> on.\<close>

definition word_image :: "u32 \<Rightarrow> u32 list \<Rightarrow> memory \<Rightarrow> memory" where
  "word_image p ws m a =
     (let i = unat (a - p)
      in if i < 4 * length ws then ucast (drop_bit (8 * (i mod 4)) (ws ! (i div 4))) else m a)"

lemma load32_of_bytes:
  "(\<And>k. k < 4 \<Longrightarrow> m (a + of_nat k) = ucast (drop_bit (8 * k) w)) \<Longrightarrow> load32 m a = w"
proof -
  assume bytes: "\<And>k. k < 4 \<Longrightarrow> m (a + of_nat k) = ucast (drop_bit (8 * k) w)"
  have "load32 m a = load32 (store32 m a w) a"
    using bytes [of 0] bytes [of 1] bytes [of 2] bytes [of 3] by (simp add: load32_def store32_def)
  then show ?thesis by (simp add: cell32.load_store)
qed

lemma word_image_nth:
  assumes "i < length ws" and "4 * length ws \<le> 4294967296"
  shows "load32 (word_image p ws m) (p + 4 * of_nat i) = ws ! i"
proof (rule load32_of_bytes)
  fix k :: nat
  assume k: "k < 4"
  have "4 * of_nat i + of_nat k = (of_nat (4 * i + k) :: u32)" by simp
  moreover have "4 * i + k < 4294967296" using assms k by simp
  ultimately have "unat (p + 4 * of_nat i + of_nat k - p) = 4 * i + k"
    by (simp only: add.assoc add_diff_cancel_left' unat_of_nat32)
  moreover have "(4 * i + k) mod 4 = k" "(4 * i + k) div 4 = i" using k by simp_all
  ultimately show "word_image p ws m (p + 4 * of_nat i + of_nat k) = ucast (drop_bit (8 * k) (ws ! i))"
    using assms(1) k by (simp add: word_image_def Let_def)
qed

text \<open>A page of words does not reach into the page before it.\<close>

lemma word_image_below:
  assumes "length ws = 1024" and i: "i < 1024"
  shows "load32 (word_image (p + 0x1000) ws m) (p + 4 * of_nat i) = load32 m (p + 4 * of_nat i)"
proof (rule cell32.load_local)
  fix c :: u32
  assume c: "in_rng c (p + 4 * of_nat i) 4"
  have "4 * of_nat i = (of_nat (4 * i) :: u32)" by simp
  then have "unat (c - p) < 4096" using c in_rng_shift [of "4 * i" 4 c p] i by simp
  moreover have "c - (p + 0x1000) = (c - p) - 0x1000" by simp
  ultimately have "4096 \<le> unat (c - (p + 0x1000))" by (simp only: unat_diff32) simp
  then show "word_image (p + 0x1000) ws m c = m c" by (simp add: word_image_def assms(1) Let_def)
qed

definition boot_link :: linkmap where
  "boot_link = demo_link\<lparr>sym_entry_pgtable := 0xF0112000\<rparr>"

definition boot_memory :: memory where
  "boot_memory = word_image 0xF0112000 entry_pgtable (word_image 0xF0111000 (entry_pgdir boot_link) (\<lambda>_. 0))"

lemma boot_tables: "entry_tables boot_link 0xF0111000 (demo_kst boot_memory 0 0x200 0)"
proof -
  have len: "length (entry_pgdir boot_link) = 1024" "length entry_pgtable = 1024"
    by (simp_all add: entry_pgdir_def)
  have dir: "load32 boot_memory (0xF0111000 + 4 * of_nat i) = entry_pgdir boot_link ! i" if i: "i < 1024" for i
    using word_image_below [OF len(2) i, of "0xF0111000"] i len by (simp add: boot_memory_def word_image_nth)
  have "load32 boot_memory (0xF0112000 + 4 * of_nat i) = entry_pgtable ! i" if "i < 1024" for i
    using that len by (simp add: boot_memory_def word_image_nth)
  with dir show ?thesis
    by (simp add: entry_tables_def boot_link_def PGNUM_def word_less_nat_alt)
qed

theorem entry_mapping_witness:
  "check_va2pa 0xF0111000 0xF0123456 (demo_kst boot_memory 0 0x200 0) =
     Some (Ret 0x123000 (demo_kst boot_memory 0 0x200 0))"
  using entry_mapping [OF boot_tables, of "0xF0123456"] by simp

end
