(* ===== verification/Monitor_Laws.thy ===== *)
theory Monitor_Laws
  imports Monitor String_Mem
begin

text \<open>
  The command line of kern/monitor.c against its specification: the words of a line and the answer
  of the monitor to it.
\<close>

section \<open>Words\<close>

definition ws :: "u8 \<Rightarrow> bool" where
  "ws c \<longleftrightarrow> c \<in> set WHITESPACE"

function words :: "u8 list \<Rightarrow> u8 list list" where
  "words xs =
     (let ys = dropWhile ws xs in
      if ys = [] then [] else takeWhile (\<lambda>x. \<not> ws x) ys # words (dropWhile (\<lambda>x. \<not> ws x) ys))"
  by pat_completeness auto

termination
proof (relation "measure length")
  show "wf (measure length)" by simp
  fix xs ys :: "u8 list"
  assume ys: "ys = dropWhile ws xs" "ys \<noteq> []"
  then have "\<not> ws (hd ys)" by (metis hd_dropWhile)
  then have "length (dropWhile (\<lambda>x. \<not> ws x) ys) < length ys"
    using ys(2) by (cases ys) (simp_all add: length_dropWhile_le le_imp_less_Suc)
  also have "\<dots> \<le> length xs" unfolding ys(1) by (rule length_dropWhile_le)
  finally show "(dropWhile (\<lambda>x. \<not> ws x) ys, xs) \<in> measure length" by simp
qed

declare words.simps [simp del]

section \<open>The loops of the parser\<close>

lemma strchr_white: "\<exists>p. strchr (lit WHITESPACE) lit_ptr c = Some p \<and> (p = 0 \<longleftrightarrow> \<not> ws c)"
proof -
  have "cstr (lit WHITESPACE) lit_ptr WHITESPACE" by (rule cstr_lit) simp_all
  from strchr_cstr [OF this, of c] show ?thesis by (auto simp: ws_def)
qed

lemma gobble_step:
  "gobble p s = (if mem s p \<noteq> 0 \<and> ws (mem s p) then gobble (p + 1) (s\<lparr>mem := (mem s)(p := 0)\<rparr>)
     else Some (p, s))"
  using strchr_white [of "mem s p"] by (subst gobble.simps) auto

lemma scan_past_step:
  "scan_past p m = (if m p \<noteq> 0 \<and> \<not> ws (m p) then scan_past (p + 1) m else Some p)"
  using strchr_white [of "m p"] by (subst scan_past.simps) auto

lemma in_rng_iff: "n \<le> 4294967296 \<Longrightarrow> in_rng a p n \<longleftrightarrow> (\<exists>i<n. a = p + of_nat i)"
proof
  assume "n \<le> 4294967296" "in_rng a p n"
  then show "\<exists>i<n. a = p + of_nat i" by (intro exI [of _ "unat (a - p)"]) (simp add: in_rng_def)
qed (auto intro: in_rng_offset)

lemma of_nat_eq32: "i < 4294967296 \<Longrightarrow> j < 4294967296 \<Longrightarrow> (of_nat i :: u32) = of_nat j \<longleftrightarrow> i = j"
  by (metis unat_of_nat32)

lemma gobble_cstr:
  "cstr (mem s) p line \<Longrightarrow> length line < 4294967295 \<Longrightarrow>
    gobble p s = Some (p + of_nat (length (takeWhile ws line)),
      s\<lparr>mem := write_bytes (replicate (length (takeWhile ws line)) 0) p (mem s)\<rparr>)"
proof (induction line arbitrary: p s)
  case Nil
  then show ?case by (subst gobble_step) simp
next
  case (Cons x line)
  have "cstr ((mem s)(p := 0)) (p + 1) line"
  proof (rule cstr_frame)
    show "cstr (mem s) (p + 1) line" using Cons.prems by simp
    fix a
    assume "in_rng a (p + 1) (Suc (length line))"
    then have "a \<noteq> p" using not_in_rng_start [of "Suc (length line)" p] Cons.prems(2) by auto
    then show "((mem s)(p := 0)) a = mem s a" by simp
  qed
  with Cons.IH [of "s\<lparr>mem := (mem s)(p := 0)\<rparr>" "p + 1"] Cons.prems show ?case
    by (subst gobble_step) (auto simp: algebra_simps simp del: fun_upd_apply)
qed

lemma scan_past_cstr:
  "cstr m p line \<Longrightarrow> scan_past p m = Some (p + of_nat (length (takeWhile (\<lambda>x. \<not> ws x) line)))"
proof (induction line arbitrary: p)
  case Nil
  then show ?case by (subst scan_past_step) simp
next
  case (Cons x line)
  then show ?case by (subst scan_past_step) (auto simp: algebra_simps)
qed

section \<open>The arguments\<close>

text \<open>
  \<open>argument m p n q w\<close>: \<open>q\<close> points to the string \<open>w\<close>, which lies with its NUL in the \<open>n + 1\<close> bytes
  from \<open>p\<close> on.
\<close>

definition argument :: "memory \<Rightarrow> u32 \<Rightarrow> nat \<Rightarrow> u32 \<Rightarrow> u8 list \<Rightarrow> bool" where
  "argument m p n q w \<longleftrightarrow> cstr m q w \<and> (\<exists>i. q = p + of_nat i \<and> i + length w \<le> n)"

definition too_many :: "hw \<Rightarrow> 'a con_scheme \<Rightarrow> (u32 list option \<times> 'a con_scheme) option" where
  "too_many h s =
     do { (_, s2) \<leftarrow> cprintf h (ascii ''Too many arguments (max %d)'' @ [10]) [Slot 16] s; Some (None, s2) }"

definition parses ::
    "hw \<Rightarrow> u32 \<Rightarrow> u32 list \<Rightarrow> 'a con_scheme \<Rightarrow> u8 list \<Rightarrow> memory \<Rightarrow> u32 list \<Rightarrow> bool" where
  "parses h p argv s line m' ptrs \<longleftrightarrow>
     (\<forall>a. \<not> in_rng a p (length line) \<longrightarrow> m' a = mem s a)
     \<and> (line = [] \<or> ws (hd line) \<longrightarrow> m' p = 0)
     \<and> (if length argv + length (words line) \<le> 15
        then parse_args h p argv s = Some (Some (argv @ ptrs), s\<lparr>mem := m'\<rparr>)
          \<and> list_all2 (argument m' p (length line)) ptrs (words line)
        else parse_args h p argv s = too_many h (s\<lparr>mem := m'\<rparr>))"

lemma words_split:
  assumes "words line = w # rest"
  shows "\<exists>zs. line = takeWhile ws line @ w @ zs \<and> w \<noteq> [] \<and> (\<forall>x \<in> set w. \<not> ws x)
    \<and> (zs = [] \<or> ws (hd zs)) \<and> rest = words zs \<and> takeWhile (\<lambda>x. \<not> ws x) (w @ zs) = w"
proof -
  let ?ys = "dropWhile ws line"
  have "?ys \<noteq> [] \<and> w = takeWhile (\<lambda>x. \<not> ws x) ?ys \<and> rest = words (dropWhile (\<lambda>x. \<not> ws x) ?ys)"
  proof (cases "?ys = []")
    case True
    then have "words line = []" by (subst words.simps) simp
    with assms show ?thesis by simp
  next
    case False
    then have "words line = takeWhile (\<lambda>x. \<not> ws x) ?ys # words (dropWhile (\<lambda>x. \<not> ws x) ?ys)"
      by (subst words.simps) (simp only: Let_def if_False)
    with assms False show ?thesis by simp
  qed
  then have ys: "?ys \<noteq> []" "w = takeWhile (\<lambda>x. \<not> ws x) ?ys" "rest = words (dropWhile (\<lambda>x. \<not> ws x) ?ys)"
    by blast+
  let ?zs = "dropWhile (\<lambda>x. \<not> ws x) ?ys"
  have "\<not> ws (hd ?ys)" using ys(1) by (metis hd_dropWhile)
  then have "w \<noteq> []" using ys(1) unfolding ys(2) by (cases ?ys) auto
  moreover have "?zs = [] \<or> ws (hd ?zs)" using hd_dropWhile [of "\<lambda>x. \<not> ws x" ?ys] by blast
  moreover have split: "?ys = w @ ?zs" unfolding ys(2) by simp
  moreover have "line = takeWhile ws line @ w @ ?zs" by (simp only: split [symmetric] takeWhile_dropWhile_id)
  moreover have "\<forall>x \<in> set w. \<not> ws x" unfolding ys(2) by (auto dest: set_takeWhileD)
  moreover have "takeWhile (\<lambda>x. \<not> ws x) (w @ ?zs) = w" unfolding split [symmetric] by (rule ys(2) [symmetric])
  ultimately show ?thesis using ys(3) by blast
qed

lemma words_Nil: "words line = [] \<longleftrightarrow> dropWhile ws line = []"
  by (subst words.simps) (simp add: Let_def)

lemma cstr_append:
  "cstr m p (xs @ ys) \<longleftrightarrow>
     read_bytes m p (length xs) = xs \<and> 0 \<notin> set xs \<and> cstr m (p + of_nat (length xs)) ys"
  by (induction xs arbitrary: p) (auto simp: algebra_simps)

text \<open>After the blanks are gone.\<close>

lemma blanked:
  assumes c: "cstr m p (xs @ ys)" and len: "length (xs @ ys) < 4294967295"
    and m1: "m1 = write_bytes (replicate (length xs) 0) p m"
  shows "cstr m1 (p + of_nat (length xs)) ys" "\<And>a. \<not> in_rng a p (length xs) \<Longrightarrow> m1 a = m a"
    "xs \<noteq> [] \<Longrightarrow> m1 p = 0"
proof -
  have at: "m1 a = (if in_rng a p (length xs) then 0 else m a)" for a
    using len by (simp add: m1 write_bytes_apply in_rng_def)
  then show "\<And>a. \<not> in_rng a p (length xs) \<Longrightarrow> m1 a = m a" by simp
  show "xs \<noteq> [] \<Longrightarrow> m1 p = 0" by (simp add: at in_rng_def)
  show "cstr m1 (p + of_nat (length xs)) ys"
  proof (rule cstr_frame)
    show "cstr m (p + of_nat (length xs)) ys" using c by (simp add: cstr_append)
    fix a
    assume "in_rng a (p + of_nat (length xs)) (Suc (length ys))"
    then have "length xs \<le> unat (a - p)" using len by (simp add: in_rng_shift)
    then show "m1 a = m a" by (simp add: at in_rng_def)
  qed
qed

text \<open>A word that ends where the rest of the line begins.\<close>

lemma word_kept:
  assumes c: "cstr m p (w @ zs)" and len: "length w + length zs < 4294967295"
    and keep: "\<And>a. \<not> in_rng a (p + of_nat (length w)) (length zs) \<Longrightarrow> m' a = m a"
    and nul: "m' (p + of_nat (length w)) = 0"
  shows "cstr m' p w"
proof -
  have "read_bytes m' p (length w) = read_bytes m p (length w)"
  proof (rule read_bytes_cong)
    fix a
    assume "in_rng a p (length w)"
    then have "\<not> in_rng a (p + of_nat (length w)) (length zs)"
      using len by (simp add: in_rng_shift) (simp add: in_rng_def)
    then show "m' a = m a" by (rule keep)
  qed
  moreover have "read_bytes m p (length w) = w \<and> 0 \<notin> set w" using c by (simp add: cstr_append)
  ultimately show ?thesis using nul by (simp add: cstr_read)
qed

lemma parse_args_unfold:
  assumes "gobble p s = Some (p1, s1)"
  shows "mem s1 p1 = 0 \<Longrightarrow> parse_args h p argv s = Some (Some argv, s1)"
    "mem s1 p1 \<noteq> 0 \<Longrightarrow> length argv = 15 \<Longrightarrow> parse_args h p argv s = too_many h s1"
    "mem s1 p1 \<noteq> 0 \<Longrightarrow> length argv \<noteq> 15 \<Longrightarrow> scan_past p1 (mem s1) = Some p2 \<Longrightarrow>
      parse_args h p argv s = parse_args h p2 (argv @ [p1]) s1"
  using assms by (subst parse_args.simps, simp add: too_many_def)+

lemma parses_cons:
  assumes step: "parse_args h p argv s = parse_args h p2 (argv @ [p1]) (s\<lparr>mem := m1\<rparr>)"
    and IH: "parses h p2 (argv @ [p1]) (s\<lparr>mem := m1\<rparr>) zs m' ptrs"
    and at: "p1 = p + of_nat b" "p2 = p1 + of_nat (length w)"
    and len: "length line = b + length w + length zs" "length line < 4294967295"
    and words: "words line = w # words zs" "w \<noteq> []" "zs = [] \<or> ws (hd zs)"
    and c: "cstr m1 p1 (w @ zs)" and out: "\<And>a. \<not> in_rng a p (length line) \<Longrightarrow> m1 a = mem s a"
    and first: "ws (hd line) \<Longrightarrow> m1 p = 0"
  shows "parses h p argv s line m' (p1 # ptrs)"
proof -
  have p2: "p2 = p + of_nat (b + length w)" by (simp add: at)
  have keep: "\<And>a. \<not> in_rng a p2 (length zs) \<Longrightarrow> m' a = m1 a" and nul: "m' p2 = 0"
    using IH words(3) by (auto simp: parses_def)
  have inner: "in_rng a p2 (length zs) \<longleftrightarrow> b + length w \<le> unat (a - p) \<and> unat (a - p) < length line" for a
    using len unfolding p2 by (subst in_rng_shift) auto
  have out': "m' a = mem s a" if "\<not> in_rng a p (length line)" for a
    using keep [of a] out [OF that] that inner [of a] by (simp add: in_rng_def)
  have "m' p = m1 p" using words(2) by (intro keep) (simp add: inner)
  then have first': "line = [] \<or> ws (hd line) \<longrightarrow> m' p = 0" using first len(1) words(2) by auto
  have "cstr m' p1 w"
    using keep nul len unfolding at(2) by (intro word_kept [OF c]) simp_all
  then have arg: "argument m' p (length line) p1 w" using at(1) len(1) by (auto simp: argument_def)
  have shift: "argument m' p (length line) q x" if a: "argument m' p2 (length zs) q x" for q x
  proof -
    from a obtain i where i: "cstr m' q x" "q = p2 + of_nat i" "i + length x \<le> length zs"
      by (auto simp: argument_def)
    then have "q = p + of_nat (b + length w + i)" "b + length w + i + length x \<le> length line"
      using len(1) by (simp_all add: p2)
    with i(1) show ?thesis unfolding argument_def by blast
  qed
  have "list_all2 (argument m' p (length line)) ptrs (words zs)"
    if "list_all2 (argument m' p2 (length zs)) ptrs (words zs)"
    using that shift by (rule list_all2_mono)
  then show ?thesis
    using IH arg out' first'
    unfolding parses_def step by (auto simp: words(1))
qed

text \<open>One turn of the loop of \<open>runcmd\<close>: the blanks before the next word are cleared.\<close>

lemma gobbled:
  assumes c: "cstr (mem s) p line" and len: "length line < 4294967295"
  defines "m1 \<equiv> write_bytes (replicate (length (takeWhile ws line)) 0) p (mem s)"
    and "p1 \<equiv> p + of_nat (length (takeWhile ws line))"
  shows "gobble p s = Some (p1, s\<lparr>mem := m1\<rparr>)" "cstr m1 p1 (dropWhile ws line)"
    "\<not> in_rng a p (length line) \<Longrightarrow> m1 a = mem s a" "line \<noteq> [] \<Longrightarrow> ws (hd line) \<Longrightarrow> m1 p = 0"
proof -
  let ?b = "takeWhile ws line" and ?ys = "dropWhile ws line"
  show "gobble p s = Some (p1, s\<lparr>mem := m1\<rparr>)"
    using gobble_cstr [OF c len] by (simp only: m1_def p1_def)
  have bl: "cstr m1 p1 ?ys" "\<And>a. \<not> in_rng a p (length ?b) \<Longrightarrow> m1 a = mem s a" "?b \<noteq> [] \<Longrightarrow> m1 p = 0"
    unfolding p1_def using c len by (intro blanked [of "mem s" p ?b ?ys m1]; simp add: m1_def)+
  show "cstr m1 p1 ?ys" by (rule bl(1))
  have "length ?b \<le> length line" by (rule length_takeWhile_le)
  then show "\<not> in_rng a p (length line) \<Longrightarrow> m1 a = mem s a" using bl(2) by (auto simp: in_rng_def)
  show "line \<noteq> [] \<Longrightarrow> ws (hd line) \<Longrightarrow> m1 p = 0" using bl(3) by (cases line) simp_all
qed

lemma parses_words:
  "cstr (mem s) p line \<Longrightarrow> length line < 4294967295 \<Longrightarrow> length argv \<le> 15 \<Longrightarrow>
    \<exists>m' ptrs. parses h p argv s line m' ptrs"
proof (induction "length line" arbitrary: line p argv s rule: less_induct)
  case less
  define m1 where "m1 = write_bytes (replicate (length (takeWhile ws line)) 0) p (mem s)"
  define p1 where "p1 = p + of_nat (length (takeWhile ws line))"
  note g = gobbled [OF less.prems(1,2), folded m1_def p1_def]
  show ?case
  proof (cases "words line")
    case Nil
    then have ys: "dropWhile ws line = []" by (simp only: words_Nil)
    have "m1 p = 0" if "line = [] \<or> ws (hd line)"
      using that g(4) less.prems(1) by (cases "line = []") (simp_all add: m1_def)
    moreover have "parse_args h p argv s = Some (Some argv, s\<lparr>mem := m1\<rparr>)"
      using g(2) [unfolded ys] by (intro parse_args_unfold(1) [OF g(1)]) simp
    ultimately show ?thesis
      using g(3) less.prems(3) Nil by (intro exI [of _ m1] exI [of _ "[]"]) (simp add: parses_def)
  next
    case (Cons w rest)
    from words_split [OF this] obtain zs where zs: "line = takeWhile ws line @ w @ zs" "w \<noteq> []"
        "\<forall>x \<in> set w. \<not> ws x" "zs = [] \<or> ws (hd zs)" "rest = words zs" "takeWhile (\<lambda>x. \<not> ws x) (w @ zs) = w"
      by blast
    then have ys: "dropWhile ws line = w @ zs" by (metis same_append_eq takeWhile_dropWhile_id)
    have line: "line \<noteq> []" using ys zs(2) by auto
    have nz: "m1 p1 \<noteq> 0" using g(2) zs(2) unfolding ys by (cases w) auto
    show ?thesis
    proof (cases "length argv = 15")
      case True
      then have "parse_args h p argv s = too_many h (s\<lparr>mem := m1\<rparr>)"
        using nz by (intro parse_args_unfold(2) [OF g(1)]) simp_all
      then show ?thesis
        using True g(3,4) line Cons by (intro exI [of _ m1] exI [of _ "[]"]) (simp add: parses_def)
    next
      case False
      let ?p2 = "p1 + of_nat (length w)"
      have lens: "length line = length (takeWhile ws line) + length w + length zs"
        using arg_cong [OF zs(1), of length] by simp
      have "scan_past p1 m1 = Some ?p2" using scan_past_cstr [OF g(2)] zs(6) ys by simp
      then have step: "parse_args h p argv s = parse_args h ?p2 (argv @ [p1]) (s\<lparr>mem := m1\<rparr>)"
        using nz False by (intro parse_args_unfold(3) [OF g(1)]) simp_all
      have "cstr m1 ?p2 zs" using g(2) unfolding ys cstr_append by blast
      with less.hyps [of zs "s\<lparr>mem := m1\<rparr>" ?p2 "argv @ [p1]"] less.prems(2,3) lens zs(2) False
      obtain m' ptrs where IH: "parses h ?p2 (argv @ [p1]) (s\<lparr>mem := m1\<rparr>) zs m' ptrs" by auto
      have "parses h p argv s line m' (p1 # ptrs)"
        by (rule parses_cons [OF step IH p1_def refl lens less.prems(2) _ zs(2,4) g(2) [unfolded ys] g(3) g(4) [OF line]])
          (simp_all add: Cons zs(5))
      then show ?thesis by blast
    qed
  qed
qed

section \<open>Printing\<close>

text \<open>A call of \<open>cprintf\<close> followed by more output.\<close>

lemma print_then:
  assumes ok: "con_ok s" and out: "render fmt 0 ap = Some out"
    and more: "\<And>t. con_ok t \<Longrightarrow> \<exists>u. f t = Some (x, u) \<and> prints t out2 u"
  shows "\<exists>u. (do { (_, t) \<leftarrow> cprintf h fmt ap s; f t }) = Some (x, u) \<and> prints s (out @ out2) u"
proof -
  have "string_args (crt_buf s) 4000 (mem s) ap ap" by (simp add: string_args_def list_all2_same)
  from cprintf_prints [OF ok this out, of h] obtain t
    where t: "cprintf h fmt ap s = Some (of_nat (length out), t)" "prints s out t" by blast
  then have "con_ok t" by (simp add: prints_def)
  from more [OF this] obtain u where "f t = Some (x, u)" "prints t out2 u" by blast
  with t prints_trans show ?thesis by fastforce
qed

lemma print_last:
  assumes "con_ok s"
  shows "\<exists>u. Some (x, s) = Some (x, u) \<and> prints s [] u"
  using prints_Nil [OF assms] by simp

definition symbol_line :: "string \<Rightarrow> u32 \<Rightarrow> i32 list" where
  "symbol_line name a = map ucast (ascii name) @ hex8 a @ map ucast (ascii '' (virt)  '')
     @ hex8 (a - KERNBASE) @ map ucast (ascii '' (phys)'' @ [10])"

definition kerninfo_text :: "linkmap \<Rightarrow> i32 list" where
  "kerninfo_text lk = map ucast (ascii ''Special kernel symbols:'' @ [10])
     @ (map ucast (ascii ''  _start                  '') @ hex8 (sym_start lk) @ map ucast (ascii '' (phys)'' @ [10]))
     @ symbol_line ''  entry  '' (sym_entry lk) @ symbol_line ''  etext  '' (sym_etext lk)
     @ symbol_line ''  edata  '' (sym_edata lk) @ symbol_line ''  end    '' (sym_end lk)
     @ (map ucast (ascii ''Kernel executable memory footprint: '') @ signed_text (scast (footprint lk)) spec0
        @ map ucast (ascii ''KB'' @ [10])) @ []"

lemma symbol_line_render:
  "render (ascii ''  entry  %08x (virt)  %08x (phys)'' @ [10]) 0 [Slot a, Slot (a - KERNBASE)]
     = Some (symbol_line ''  entry  '' a)"
  "render (ascii ''  etext  %08x (virt)  %08x (phys)'' @ [10]) 0 [Slot a, Slot (a - KERNBASE)]
     = Some (symbol_line ''  etext  '' a)"
  "render (ascii ''  edata  %08x (virt)  %08x (phys)'' @ [10]) 0 [Slot a, Slot (a - KERNBASE)]
     = Some (symbol_line ''  edata  '' a)"
  "render (ascii ''  end    %08x (virt)  %08x (phys)'' @ [10]) 0 [Slot a, Slot (a - KERNBASE)]
     = Some (symbol_line ''  end    '' a)"
  by (simp_all add: render_sym spec0_def symbol_line_def split del: if_split)

lemma kerninfo_render:
  "render (ascii ''Special kernel symbols:'' @ [10]) 0 [] = Some (map ucast (ascii ''Special kernel symbols:'' @ [10]))"
  "render (ascii ''  _start                  %08x (phys)'' @ [10]) 0 [Slot a]
     = Some (map ucast (ascii ''  _start                  '') @ hex8 a @ map ucast (ascii '' (phys)'' @ [10]))"
  by (simp_all add: render_sym spec0_def split del: if_split)

lemma footprint_render:
  "render (ascii ''Kernel executable memory footprint: %dKB'' @ [10]) 0 [Slot w]
     = Some (map ucast (ascii ''Kernel executable memory footprint: '') @ signed_text (scast w) spec0
        @ map ucast (ascii ''KB'' @ [10]))"
  by (simp add: render.simps scan_flags.simps fch_def conv_text_def is_conv_def getint_def word_sle_eq Let_def
      spec0_fields split del: if_split)

lemma mon_kerninfo_prints:
  assumes "con_ok s"
  shows "\<exists>t. mon_kerninfo h lk argc argv tf s = Some (0, t) \<and> prints s (kerninfo_text lk) t"
  unfolding mon_kerninfo_def kerninfo_text_def
  by (rule print_then [OF assms kerninfo_render(1)] print_then [OF _ kerninfo_render(2)]
      print_then [OF _ symbol_line_render(1)] print_then [OF _ symbol_line_render(2)]
      print_then [OF _ symbol_line_render(3)] print_then [OF _ symbol_line_render(4)]
      print_then [OF _ footprint_render] print_last | assumption)+

definition help_line :: "command \<Rightarrow> i32 list" where
  "help_line c = map scast (cmd_name c) @ map ucast (ascii '' - '') @ map scast (cmd_desc c) @ [10]"

definition help_text :: "i32 list" where
  "help_text = concat (map help_line commands)"

definition plain_text :: "u8 list \<Rightarrow> bool" where
  "plain_text xs \<longleftrightarrow> 0 \<notin> set xs \<and> length xs < 1073741824"

lemma help_render:
  assumes "plain_text xs" and "plain_text ys"
  shows "render (ascii ''%s - %s'' @ [10]) 0 [Lit xs, Lit ys]
    = Some (map scast xs @ map ucast (ascii '' - '') @ map scast ys @ [10])"
  using assms by (simp add: plain_text_def render_sym spec0_def string_text_def shown_def char_text_def
      split del: if_split)

lemma help_lines_prints:
  "con_ok s \<Longrightarrow> \<forall>c \<in> set cs. plain_text (cmd_name c) \<and> plain_text (cmd_desc c) \<Longrightarrow>
    \<exists>t. help_lines h cs s = Some t \<and> prints s (concat (map help_line cs)) t"
proof (induction cs arbitrary: s)
  case Nil
  then show ?case by (simp add: prints_Nil)
next
  case (Cons c cs)
  have r: "render (ascii ''%s - %s'' @ [10]) 0 [Lit (cmd_name c), Lit (cmd_desc c)] = Some (help_line c)"
    using Cons.prems(2) help_render [of "cmd_name c" "cmd_desc c"] by (simp add: help_line_def)
  have more: "\<exists>u. map_option (Pair ()) (help_lines h cs t) = Some ((), u) \<and> prints t (concat (map help_line cs)) u"
    if "con_ok t" for t :: "'a con_scheme"
    using Cons.IH [OF that] Cons.prems(2) by auto
  from print_then [OF Cons.prems(1) r more, of h] show ?case
    by (auto split: Option.bind_splits)
qed

lemma mon_help_prints: "con_ok s \<Longrightarrow> \<exists>t. mon_help h argc argv tf s = Some (0, t) \<and> prints s help_text t"
proof -
  assume ok: "con_ok s"
  have "\<forall>c \<in> set commands. plain_text (cmd_name c) \<and> plain_text (cmd_desc c)"
    by (simp add: commands_def plain_text_def)
  from help_lines_prints [OF ok this, of h] show ?thesis by (auto simp: mon_help_def help_text_def)
qed

section \<open>The answer to a line\<close>

text \<open>
  What the monitor prints for a line: nothing for a blank one, otherwise the output of the command
  that the first word names, or a message.
\<close>

definition answer :: "linkmap \<Rightarrow> u8 list \<Rightarrow> i32 list" where
  "answer lk line = (case words line of
     [] \<Rightarrow> []
   | w # rest \<Rightarrow>
       if 15 < length (w # rest) then map ucast (ascii ''Too many arguments (max 16)'' @ [10])
       else if w = ascii ''help'' then help_text
       else if w = ascii ''kerninfo'' then kerninfo_text lk
       else map ucast (ascii ''Unknown command '' @ [39]) @ map scast w @ [39, 10])"

text \<open>
  \<open>replies buf s out t\<close>: the characters went out, no memory was written but the 1024 bytes of the
  line and the display, and the buffered input stays.
\<close>

definition replies :: "u32 \<Rightarrow> 'a con_scheme \<Rightarrow> i32 list \<Rightarrow> 'a con_scheme \<Rightarrow> bool" where
  "replies buf s out t \<longleftrightarrow> says s out t \<and> line_only buf s t \<and> input_state t = input_state s"

lemma replies_trans: "replies buf s xs t \<Longrightarrow> replies buf t ys u \<Longrightarrow> replies buf s (xs @ ys) u"
  using says_trans line_only_trans by (fastforce simp: replies_def)

lemma prints_replies: "prints s out t \<Longrightarrow> replies buf s out t"
  using prints_says [of s out t] out_only_input [of s t] line_only_outside [of s t]
  by (simp add: replies_def prints_def)

definition line_place :: "u32 \<Rightarrow> 'a con_scheme \<Rightarrow> bool" where
  "line_place buf s \<longleftrightarrow> con_ok s \<and> disjoint_rng buf 1024 (crt_buf s) 4000
     \<and> buf \<noteq> 0 \<and> unat buf + 1024 \<le> 4294967296"

definition command_line :: "u32 \<Rightarrow> u8 list \<Rightarrow> 'a con_scheme \<Rightarrow> bool" where
  "command_line buf line s \<longleftrightarrow> line_place buf s \<and> cstr (mem s) buf line \<and> length line \<le> 1023"

lemma replies_buffer:
  assumes line: "command_line buf line s" and out: "\<And>a. \<not> in_rng a buf (length line) \<Longrightarrow> m' a = mem s a"
  shows "replies buf s [] (s\<lparr>mem := m'\<rparr>)"
proof -
  have far: "m' a = mem s a" if "\<not> in_rng a buf 1024" for a
    using that line by (intro out) (auto simp: command_line_def in_rng_def)
  have "mem (s\<lparr>mem := m'\<rparr>) a = mem s a" if "in_rng a (crt_buf s) 4000" for a
    using far [of a] disjoint_rng_not_in [of buf 1024 "crt_buf s" 4000 a] line that
    by (auto simp: command_line_def line_place_def)
  then have "says s [] (s\<lparr>mem := m'\<rparr>)"
    using line by (intro says_silent) (simp_all add: command_line_def line_place_def con_ok_def)
  with far show ?thesis by (simp add: replies_def line_only_def input_state_def)
qed

lemma strcmp_lit:
  assumes "cstr m q w" and "plain_text xs"
  shows "\<exists>r. strcmp m q (lit xs) lit_ptr = Some r \<and> (r = 0 \<longleftrightarrow> w = xs)"
proof -
  have "cstr (lit xs) lit_ptr xs" using assms(2) by (intro cstr_lit) (simp_all add: plain_text_def)
  from strcmp_cstr [OF assms(1) this] show ?thesis by (auto simp: cmp_result_def)
qed

lemma unknown_render:
  assumes "plain_text w"
  shows "render (ascii ''Unknown command '' @ [39] @ ascii ''%s'' @ [39] @ [10]) 0 [Lit w]
    = Some (map ucast (ascii ''Unknown command '' @ [39]) @ map scast w @ [39, 10])"
  using assms by (simp add: plain_text_def render_sym spec0_def string_text_def shown_def char_text_def
      split del: if_split)

lemma unknown_prints:
  assumes place: "line_place buf s" and len: "n \<le> 1023" and arg: "argument (mem s) buf n q w"
  shows "\<exists>t. (do { (_, s1) \<leftarrow> cprintf h (ascii ''Unknown command '' @ [39] @ ascii ''%s'' @ [39] @ [10]) [Slot q] s;
       Some (0, s1) }) = Some (0 :: i32, t)
    \<and> prints s (map ucast (ascii ''Unknown command '' @ [39]) @ map scast w @ [39, 10]) t"
proof -
  have con: "con_ok s" using place by (simp add: line_place_def)
  from arg obtain i where q: "q = buf + of_nat i" "i + length w \<le> n" "cstr (mem s) q w"
    by (auto simp: argument_def)
  then have "plain_text w" using len by (auto simp: plain_text_def cstr_read)
  note out = unknown_render [OF this]
  have "q \<noteq> 0"
  proof -
    have "unat q = unat buf + i"
      using place q len by (simp add: line_place_def unat_plus32 unat_of_nat32)
    then show ?thesis using place by (auto simp: line_place_def unat_eq_0)
  qed
  moreover have "\<not> in_rng c (crt_buf s) 4000" if "in_rng c q (Suc (length w))" for c
  proof -
    have "in_rng c buf 1024" using that q(1,2) len by (simp add: in_rng_shift) (simp add: in_rng_def)
    with place show ?thesis by (auto simp: line_place_def dest: disjoint_rng_not_in)
  qed
  ultimately have "string_args (crt_buf s) 4000 (mem s) [Slot q] [Lit w]" using q(3) by (auto simp: string_args_def)
  from cprintf_prints [OF con this out, of h] show ?thesis by fastforce
qed

lemma run_lookup_prints:
  assumes place: "line_place buf s" and len: "n \<le> 1023" and arg: "argument (mem s) buf n (hd argv) w"
  shows "\<exists>t. run_lookup h lk tf argv commands s = Some (0, t) \<and> prints s
     (if w = ascii ''help'' then help_text else if w = ascii ''kerninfo'' then kerninfo_text lk
      else map ucast (ascii ''Unknown command '' @ [39]) @ map scast w @ [39, 10]) t"
proof -
  have con: "con_ok s" using place by (simp add: line_place_def)
  have q: "cstr (mem s) (hd argv) w" using arg by (simp add: argument_def)
  obtain r where r: "strcmp (mem s) (hd argv) (lit (ascii ''help'')) lit_ptr = Some r" "r = 0 \<longleftrightarrow> w = ascii ''help''"
    using strcmp_lit [OF q, of "ascii ''help''"] by (auto simp: plain_text_def)
  obtain r' where r': "strcmp (mem s) (hd argv) (lit (ascii ''kerninfo'')) lit_ptr = Some r'"
      "r' = 0 \<longleftrightarrow> w = ascii ''kerninfo''"
    using strcmp_lit [OF q, of "ascii ''kerninfo''"] by (auto simp: plain_text_def)
  have run: "run_lookup h lk tf argv commands s =
      (if w = ascii ''help'' then mon_help h (of_nat (length argv)) argv tf s
       else if w = ascii ''kerninfo'' then mon_kerninfo h lk (of_nat (length argv)) argv tf s
       else do { (_, s1) \<leftarrow> cprintf h (ascii ''Unknown command '' @ [39] @ ascii ''%s'' @ [39] @ [10]) [Slot (hd argv)] s;
                 Some (0, s1) })"
    unfolding commands_def run_lookup.simps command.simps r(1) r'(1) bind.bind_lunit r(2) r'(2) call_command_def
    by simp
  show ?thesis
    using mon_help_prints [OF con] mon_kerninfo_prints [OF con] unknown_prints [OF place len arg]
    unfolding run by presburger
qed

section \<open>runcmd\<close>

lemma too_many_prints:
  assumes "con_ok s"
  shows "\<exists>t. too_many h s = Some (None, t) \<and> prints s (map ucast (ascii ''Too many arguments (max 16)'' @ [10])) t"
proof -
  have "render (ascii ''Too many arguments (max %d)'' @ [10]) 0 [Slot 16]
      = Some (map ucast (ascii ''Too many arguments (max 16)'' @ [10]))"
    by (simp add: render_eval split del: if_split)
  from print_then [OF assms this print_last, of h None] show ?thesis by (simp add: too_many_def)
qed

lemma runcmd_replies:
  assumes line: "command_line buf line s"
  shows "\<exists>t. runcmd h lk buf tf s = Some (0, t) \<and> replies buf s (answer lk line) t"
proof -
  have "length line < 4294967295" using line by (simp add: command_line_def)
  with parses_words [of s buf line "[]" h] line obtain m' ptrs where p: "parses h buf [] s line m' ptrs"
    by (auto simp: command_line_def)
  let ?s1 = "s\<lparr>mem := m'\<rparr>"
  have buffer: "replies buf s [] ?s1" using p by (intro replies_buffer [OF line]) (simp add: parses_def)
  then have con: "con_ok ?s1" by (simp add: replies_def says_def)
  show ?thesis
  proof (cases "15 < length (words line)")
    case True
    from too_many_prints [OF con, of h] obtain t where
      t: "too_many h ?s1 = Some (None, t)" "prints ?s1 (map ucast (ascii ''Too many arguments (max 16)'' @ [10])) t"
      by blast
    moreover have "answer lk line = map ucast (ascii ''Too many arguments (max 16)'' @ [10])"
      using True by (cases "words line") (simp_all add: answer_def)
    ultimately show ?thesis
      using True p replies_trans [OF buffer prints_replies [OF t(2)]] by (auto simp: parses_def runcmd_def)
  next
    case False
    with p have run: "parse_args h buf [] s = Some (Some ptrs, ?s1)"
      and args: "list_all2 (argument m' buf (length line)) ptrs (words line)" by (simp_all add: parses_def)
    show ?thesis
    proof (cases "words line")
      case Nil
      then show ?thesis using run args buffer by (auto simp: runcmd_def answer_def)
    next
      case (Cons w rest)
      then obtain q qs where ptrs: "ptrs = q # qs" "argument m' buf (length line) q w"
        using args by (cases ptrs) auto
      have place: "line_place buf ?s1" using line con by (simp add: line_place_def command_line_def)
      have len: "length line \<le> 1023" using line by (simp add: command_line_def)
      have "argument (mem ?s1) buf (length line) (hd (q # qs)) w" using ptrs(2) by simp
      from run_lookup_prints [OF place len this, of h lk tf] obtain t where
        "run_lookup h lk tf (q # qs) commands ?s1 = Some (0, t)" "prints ?s1 (answer lk line) t"
        using False Cons by (auto simp: answer_def)
      then show ?thesis
        using run ptrs(1) replies_trans [OF buffer prints_replies] by (fastforce simp: runcmd_def)
    qed
  qed
qed

end
