(* ===== verification/Serial_Line.thy ===== *)
theory Serial_Line
  imports Keyboard_Props
begin

text \<open>
  A terminal on the serial line.  The bytes that it sends wait in the receiver until the kernel polls
  the port; what has arrived by then is in the receiver or in the ring buffer of kern/console.c, and
  \<open>getchar\<close> returns it in order.
\<close>

section \<open>The receiver\<close>

text \<open>
  \<open>serial_script h bs\<close>: the device \<open>h\<close> sends the bytes \<open>bs\<close>, one for each read of the data
  register, bit 0 of the line status says whether there is another one, and the keyboard is silent.
\<close>

definition serial_script :: "hw \<Rightarrow> u8 list \<Rightarrow> bool" where
  "serial_script h bs \<longleftrightarrow> (\<forall>l. (hw_in8 h l 0x3FD AND 1 = 0 \<longleftrightarrow> length bs \<le> rx_reads l)
     \<and> (rx_reads l < length bs \<longrightarrow> hw_in8 h l 0x3F8 = bs ! rx_reads l) \<and> hw_in8 h l 0x64 AND 1 = 0)"

text \<open>What the kernel has not taken yet: the ring buffer first, then the receiver.\<close>

definition incoming :: "u8 list \<Rightarrow> 'a con_scheme \<Rightarrow> u8 list" where
  "incoming bs s = (if serial_exists s then drop (rx_reads (io_log s)) bs else [])"

definition unread :: "u8 list \<Rightarrow> 'a con_scheme \<Rightarrow> u8 list" where
  "unread bs s = pending s @ incoming bs s"

definition input_ok :: "u8 list \<Rightarrow> 'a con_scheme \<Rightarrow> bool" where
  "input_ok bs s \<longleftrightarrow> ring_ok s \<and> 0 \<notin> set (incoming bs s) \<and> length (unread bs s) \<le> 511"

lemma unread_kept:
  "input_state t = input_state s \<Longrightarrow> unread bs t = unread bs s \<and> input_ok bs t = input_ok bs s"
  using ring_state_eq [of t s] by (simp add: unread_def incoming_def input_ok_def input_state_def ring_state_def)

lemma incoming_Nil: "incoming bs s = [] \<longleftrightarrow> (serial_exists s \<longrightarrow> length bs \<le> rx_reads (io_log s))"
  by (simp add: incoming_def)

lemma ring_pending_fits: "length (pending s) \<le> 511"
  using ring_count_less [of s] by simp

lemma says_input:
  assumes "con_ok s" and "sent 0x3F8 l = sent 0x3F8 (io_log s)"
  shows "says s [] (s\<lparr>io_log := l\<rparr>)" and "says s [] (snd (get_char (s\<lparr>io_log := l\<rparr>)))"
    and "says s [] (put_char c (s\<lparr>io_log := l\<rparr>))"
  using assms by (auto intro!: says_silent simp: get_char_def put_char_def con_ok_def Let_def)

section \<open>Draining it\<close>

lemma byte_char:
  fixes x :: u8
  shows "(ucast x :: i32) \<noteq> - 1" "(ucast x :: i32) = 0 \<longleftrightarrow> x = 0" "(ucast (ucast x :: i32) :: u8) = x"
proof -
  have u: "sint (ucast x :: i32) = uint x" by (rule sint_ucast8)
  show "(ucast x :: i32) \<noteq> - 1"
  proof
    assume "(ucast x :: i32) = - 1"
    then have "uint x = - 1" using u by simp
    then show False using uint_nonnegative [of x] by simp
  qed
  show "(ucast x :: i32) = 0 \<longleftrightarrow> x = 0"
  proof
    assume "(ucast x :: i32) = 0"
    then have "uint x = 0" using u by simp
    then show "x = 0" by (simp add: uint_0_iff)
  qed simp
  show "(ucast (ucast x :: i32) :: u8) = x" by (rule bit_word_eqI) (simp add: bit_simps)
qed

lemma serial_feed:
  assumes "serial_script h bs"
  shows "con_ok s \<Longrightarrow>
    \<exists>t. feed (serial_proc_data h) s (map ucast (filter (\<lambda>x. x \<noteq> 0) (drop (rx_reads (io_log s)) bs))) t
      \<and> length bs \<le> rx_reads (io_log t) \<and> says s [] t \<and> serial_exists t = serial_exists s"
proof (induction "length bs - rx_reads (io_log s)" arbitrary: s)
  case 0
  let ?t = "s\<lparr>io_log := EIn8 0x3FD (hw_in8 h (io_log s) 0x3FD) # io_log s\<rparr>"
  have "length bs \<le> rx_reads (io_log s)" using 0 by simp
  moreover from this have "serial_proc_data h s = Some (- 1, ?t)"
    using assms by (simp add: serial_script_def serial_proc_data_def inb_def log_event_def Let_def)
  ultimately show ?case using says_input(1) [OF 0(2)] by (intro exI [of _ ?t]) (simp add: feed.stop)
next
  case (Suc k)
  let ?n = "rx_reads (io_log s)" and ?c = "ucast (bs ! rx_reads (io_log s)) :: i32"
  let ?l = "EIn8 0x3F8 (bs ! ?n) # EIn8 0x3FD (hw_in8 h (io_log s) 0x3FD) # io_log s"
  let ?s1 = "s\<lparr>io_log := ?l\<rparr>"
  define u where "u = (if bs ! ?n = 0 then ?s1 else put_char ?c ?s1)"
  have n: "?n < length bs" using Suc.hyps(2) by simp
  then have drop: "drop ?n bs = bs ! ?n # drop (Suc ?n) bs" by (simp add: Cons_nth_drop_Suc)
  have poll: "serial_proc_data h s = Some (?c, ?s1)"
    using assms n by (simp add: serial_script_def serial_proc_data_def inb_def log_event_def Let_def)
  have log: "rx_reads (io_log u) = Suc ?n" "serial_exists u = serial_exists s" by (simp_all add: u_def put_char_def Let_def)
  have "says s [] u" using says_input(1,3) [OF Suc.prems] by (simp add: u_def)
  then have "con_ok u" by (simp add: says_def)
  moreover have "k = length bs - rx_reads (io_log u)" unfolding log using Suc.hyps(2) by simp
  ultimately obtain t where t: "feed (serial_proc_data h) u (map ucast (filter (\<lambda>x. x \<noteq> 0) (drop (Suc ?n) bs))) t"
      "length bs \<le> rx_reads (io_log t)" "says u [] t" "serial_exists t = serial_exists s"
    using Suc.hyps(1) [of u] unfolding log by blast
  have "feed (serial_proc_data h) s (map ucast (filter (\<lambda>x. x \<noteq> 0) (drop ?n bs))) t"
    using t(1) poll by (cases "bs ! ?n = 0") (auto simp: drop u_def byte_char(1,2) intro: feed.skip feed.char)
  moreover have "says s [] t" using says_trans [OF \<open>says s [] u\<close> t(3)] by simp
  ultimately show ?case using t(2,4) by blast
qed

text \<open>A full buffer is emptied by the next character, so that 512 characters are lost each time.\<close>

definition ring_rest :: "u8 list \<Rightarrow> u8 list" where
  "ring_rest xs = drop (512 * (length xs div 512)) xs"

lemma ring_rest_simps:
  "length xs \<le> 511 \<Longrightarrow> ring_rest xs = xs"
  "length xs = 512 \<Longrightarrow> ring_rest (xs @ ys) = ring_rest ys"
  by (simp_all add: ring_rest_def div_add_self1)

context input_device begin

lemma feed_rest:
  "feed proc s cs s' \<Longrightarrow> con_ok s \<Longrightarrow> ring_ok s \<Longrightarrow>
    pending s' = ring_rest (pending s @ map ucast cs) \<and> ring_ok s' \<and> con_ok s'"
proof (induction rule: feed.induct)
  case (stop s s1)
  with poll_keeps [OF stop(1)] show ?case
    using ring_count_less [of s] by (auto dest!: ring_state_eq simp: ring_rest_simps(1))
next
  case (skip s s1 cs s')
  with poll_keeps [OF skip(1)] have "con_ok s1" "pending s1 = pending s" "ring_ok s1"
    by (auto dest!: ring_state_eq)
  with skip show ?case by simp
next
  case (char s c s1 cs s')
  with poll_keeps [OF char(1)] have s1: "con_ok s1" "pending s1 = pending s" "ring_ok s1"
    by (auto dest!: ring_state_eq)
  with char.IH put_char_ok [OF s1(3), of c]
  have rest: "pending s' = ring_rest (pending (put_char c s1) @ map ucast cs) \<and> ring_ok s' \<and> con_ok s'"
    by (simp add: put_char_con_ok)
  show ?case
  proof (cases "ring_count s1 = 511")
    case True
    then have "length (pending s @ [ucast c]) = 512" using s1(2) by (simp flip: s1(2))
    from ring_rest_simps(2) [OF this] pending_overflow [OF s1(3) True] rest show ?thesis by simp
  next
    case False
    then have "ring_count s1 < 511" using ring_count_less [of s1] by simp
    with pending_put [OF s1(3) this] rest s1(2) show ?thesis by simp
  qed
qed

end

text \<open>
  C37: when a terminal on the serial line has sent finitely many bytes, \<open>serial_intr\<close> returns and has
  taken all of them: behind what was buffered, the buffer gets the bytes in order without the NULs, but
  whenever it has filled up, with its 512th character, everything in it is dropped.
\<close>

theorem serial_intr_drains:
  assumes "serial_script h bs" and "con_ok s" and "ring_ok s" and "serial_exists s"
  shows "\<exists>t. serial_intr h s = Some t \<and> incoming bs t = []
    \<and> (let xs = pending s @ filter (\<lambda>x. x \<noteq> 0) (incoming bs s) in pending t = drop (512 * (length xs div 512)) xs)"
proof -
  from serial_feed [OF assms(1,2)] obtain t
    where t: "feed (serial_proc_data h) s (map ucast (filter (\<lambda>x. x \<noteq> 0) (drop (rx_reads (io_log s)) bs))) t"
      "length bs \<le> rx_reads (io_log t)" by blast
  from feed_cons_intr [OF t(1)] assms(4) have "serial_intr h s = Some t" by (simp add: serial_intr_def)
  with t(2) serial.feed_rest [OF t(1) assms(2,3)] assms(4) show ?thesis
    by (auto simp: ring_rest_def incoming_def o_def byte_char(3) Let_def)
qed

text \<open>A terminal that sends 513 letters at once.\<close>

definition flood_hw :: hw where
  "flood_hw = demo_hw\<lparr>hw_in8 := (\<lambda>l p. if p = 0x3FD then (if rx_reads l < 513 then 0x21 else 0x20)
     else if p = 0x3F8 then 97 else 0)\<rparr>"

theorem serial_intr_drains_witness:
  "\<exists>t. serial_intr flood_hw (demo_con (\<lambda>_. 0)) = Some t \<and> pending t = [97]"
proof -
  let ?bs = "replicate 513 97 :: u8 list"
  have "serial_script flood_hw ?bs" by (simp add: serial_script_def flood_hw_def)
  moreover have "serial_exists (demo_con (\<lambda>_. 0))" "rx_reads (io_log (demo_con (\<lambda>_. 0))) = 0" by (simp_all add: demo_con_def)
  ultimately show ?thesis
    using serial_intr_drains [OF _ demo_con_ok(1,2), of flood_hw ?bs "\<lambda>_. 0"]
    by (auto simp: incoming_def demo_con_ok(3))
qed

text \<open>The polls of the two devices move everything that has arrived into the ring buffer.\<close>

lemma script_polls:
  assumes script: "serial_script h bs" and ok: "con_ok s" "input_ok bs s"
  shows "\<exists>t u. serial_intr h s = Some t \<and> kbd_intr h t = Some u \<and> says s [] u
    \<and> ring_ok u \<and> pending u = unread bs s \<and> incoming bs u = []"
proof -
  have r: "ring_ok s" "length (unread bs s) \<le> 511" using ok(2) by (simp_all add: input_ok_def)
  obtain t where t: "serial_intr h s = Some t" "says s [] t" "ring_ok t" "pending t = unread bs s" "con_ok t"
      "incoming bs t = []"
  proof (cases "serial_exists s")
    case True
    then have nz: "filter (\<lambda>x. x \<noteq> 0) (drop (rx_reads (io_log s)) bs) = drop (rx_reads (io_log s)) bs"
      using ok(2) by (intro filter_True) (auto simp: input_ok_def incoming_def)
    from serial_feed [OF script ok(1)] obtain t
      where t: "feed (serial_proc_data h) s (map ucast (drop (rx_reads (io_log s)) bs)) t"
        "length bs \<le> rx_reads (io_log t)" "says s [] t" unfolding nz by blast
    have "serial_intr h s = Some t \<and> pending t = unread bs s \<and> ring_ok t \<and> con_ok t"
      using serial_intr_pending [OF t(1) ok(1) r(1) True] r(2) True by (simp add: unread_def incoming_def o_def byte_char(3))
    with that t show thesis by (auto simp: incoming_def)
  next
    case False
    with that [of s] says_silent [OF ok(1) ok(1)] r ok show thesis
      by (simp add: serial_intr_def unread_def incoming_def)
  qed
  let ?u = "t\<lparr>io_log := EIn8 0x64 (hw_in8 h (io_log t) 0x64) # io_log t\<rparr>"
  have "kbd_proc_data h t = Some (- 1, ?u)"
    using script by (simp add: serial_script_def kbd_proc_data_def inb_def log_event_def Let_def)
  then have "kbd_intr h t = Some ?u" by (simp add: kbd_intr_def cons_intr.simps)
  moreover have "says s [] ?u" using says_trans [OF t(2) says_input(1) [OF t(5)]] by simp
  moreover have "ring_ok ?u" "pending ?u = unread bs s"
    using ring_state_eq [of ?u t] t(3,4) by (simp_all add: ring_state_def)
  moreover have "incoming bs ?u = []" using t(6) by (simp add: incoming_Nil)
  ultimately show ?thesis using t(1) by blast
qed

lemma script_getchar:
  assumes script: "serial_script h bs" and ok: "con_ok s" "input_ok bs s" and input: "unread bs s = x # xs" "x \<noteq> 0"
  shows "\<exists>t. getchar h s = Some (ucast x, t) \<and> input_ok bs t \<and> unread bs t = xs \<and> says s [] t"
proof -
  from script_polls [OF script ok] input obtain t u
    where u: "serial_intr h s = Some t" "kbd_intr h t = Some u" "says s [] u" "ring_ok u" "pending u = x # xs"
      "incoming bs u = []" by auto
  obtain v where v: "get_char u = (ucast x, v)" "ring_ok v" "pending v = xs"
    using pending_get [OF u(4,5)] by (cases "get_char u") auto
  have "io_log v = io_log u" "serial_exists v = serial_exists u"
    using v(1) by (auto simp: get_char_def Let_def split: if_splits)
  then have rest: "incoming bs v = []" using u(6) by (simp add: incoming_Nil)
  have "con_ok u" using u(3) by (simp add: says_def)
  from says_input(2) [OF this refl] have "says u [] v" using v(1) by simp
  then have "says s [] v" using says_trans [OF u(3)] by fastforce
  moreover have "getchar h s = Some (ucast x, v)"
    using u(1,2) v(1) input(2) by (subst getchar.simps) (simp add: cons_getc_def byte_char(2))
  ultimately show ?thesis using v rest ring_pending_fits [of v] by (simp add: input_ok_def unread_def del: length_pending)
qed

text \<open>When nothing is left to read \<open>getchar\<close> polls for ever.\<close>

lemma script_getchar_hangs:
  assumes script: "serial_script h bs" and ok: "con_ok s" "input_ok bs s" and "unread bs s = []"
  shows "getchar h s = None"
proof (rule ccontr)
  let ?P = "\<lambda>s. con_ok s \<and> input_ok bs s \<and> unread bs s = []"
  have poll: "c = 0 \<and> ?P s1" if P: "?P s" and g: "cons_getc h s = Some (c, s1)" for s c s1
  proof -
    obtain t u where u: "serial_intr h s = Some t" "kbd_intr h t = Some u" "says s [] u" "ring_ok u"
        "pending u = unread bs s" "incoming bs u = []"
      using script_polls [OF script, of s] P by blast
    then have "cons_rpos u = cons_wpos u" using pending_empty [of u] P by simp
    then have "get_char u = (0, u)" by (simp add: get_char_def)
    then show ?thesis using g u P by (auto simp: cons_getc_def input_ok_def unread_def says_def)
  qed
  assume "getchar h s \<noteq> None"
  then obtain r where r: "getchar h s = Some r" by blast
  obtain s0 where "?P s0" "cons_getc h s0 = Some r" "fst r \<noteq> 0"
    using getchar_polls [OF r, of ?P] assms poll by blast
  with poll [of s0 "fst r" "snd r"] show False by simp
qed

end
