(* ===== verification/Readline_Props.thy ===== *)
theory Readline_Props
  imports Readline Serial_Line
begin

text \<open>
  What lib/readline.c promises its caller, and a typed-ahead line on a machine whose devices have
  nothing more to give.
\<close>

section \<open>Typing ahead\<close>

definition quiet :: "hw \<Rightarrow> bool" where
  "quiet h \<longleftrightarrow> (\<forall>l. hw_in8 h l 0x3FD AND 1 = 0 \<and> hw_in8 h l 0x64 AND 1 = 0)"

lemma quiet_script: "quiet h \<Longrightarrow> serial_script h []"
  by (simp add: quiet_def serial_script_def)

lemma quiet_unread: "unread [] s = pending s" "input_ok [] s \<longleftrightarrow> ring_ok s"
  using ring_pending_fits [of s] by (simp_all add: unread_def input_ok_def incoming_def del: length_pending)

lemma key_handled_input: "input_state (key_handled h buf c xs s) = input_state s"
proof -
  have "input_state (cputchar h b s) = input_state s" for b
    using out_only_input [OF cons_putc_out_only] by (simp add: cputchar_def)
  then show ?thesis by (simp add: key_handled_def Let_def input_state_def)
qed

text \<open>What a run of keys echoes.\<close>

definition key_echo :: "i32 \<Rightarrow> u8 list \<Rightarrow> i32 list" where
  "key_echo c xs =
     (if (c = 8 \<or> c = 0x7F) \<and> xs \<noteq> [] then [8] else if 32 \<le>s c \<and> length xs < 1023 then [c] else [])"

primrec echo :: "i32 list \<Rightarrow> u8 list \<Rightarrow> i32 list" where
  "echo [] xs = []"
| "echo (c # cs) xs = key_echo c xs @ echo cs (edit_key c xs)"

lemma says_store:
  assumes "line_ok buf xs s" and "in_rng a buf 1024"
  shows "says s [] (s\<lparr>mem := (mem s)(a := x)\<rparr>)"
  using assms by (intro says_silent) (auto simp: line_ok_def con_ok_def dest: disjoint_rng_not_in)

lemma key_handled_says:
  assumes ok: "line_ok buf xs s"
  shows "says s (key_echo c xs) (key_handled h buf c xs s)"
proof -
  have con: "con_ok s" using ok by (simp add: line_ok_def)
  have put: "says s [b] (cputchar h b s)" "line_ok buf xs (cputchar h b s)" for b
    using prints_says [OF cputchar_prints [OF con]] line_ok_outside [OF ok] cputchar_keeps [OF con, of h b] by blast+
  have "says s [c] ((cputchar h c s)\<lparr>mem := (mem (cputchar h c s))(buf + of_nat (length xs) := ucast c)\<rparr>)"
    if "length xs < 1023"
    using says_trans [OF put(1) says_store [OF put(2) line_end_in]] that by simp
  with put(1) prints_says [OF prints_Nil [OF con]] show ?thesis
    by (cases "xs = []") (simp_all add: key_echo_def key_handled_def Let_def)
qed

lemma dialog_script:
  assumes script: "serial_script h bs" and k: "newline (ucast k)"
  shows "line_ok buf xs s \<Longrightarrow> input_ok bs s \<Longrightarrow> unread bs s = ks @ k # rest \<Longrightarrow>
    \<forall>x \<in> set ks. x \<noteq> 0 \<and> \<not> newline (ucast x) \<Longrightarrow>
    \<exists>t. dialog h buf xs s (map ucast (ks @ [k])) t \<and> input_ok bs t \<and> unread bs t = rest
      \<and> says s (echo (map ucast ks) xs) t"
proof (induction ks arbitrary: s xs)
  case Nil
  have "k \<noteq> 0" using k by (auto simp: newline_def)
  with script_getchar [OF script, of s k rest] Nil obtain t
    where "getchar h s = Some (ucast k, t)" "input_ok bs t" "unread bs t = rest" "says s [] t"
    by (auto simp: line_ok_def)
  with k show ?case by (auto intro: dialog.enter)
next
  case (Cons x ks)
  have con: "con_ok s" using Cons.prems by (simp add: line_ok_def)
  from script_getchar [OF script this, of x "ks @ k # rest"] Cons.prems obtain s1
    where g: "getchar h s = Some (ucast x, s1)" "input_ok bs s1" "unread bs s1 = ks @ k # rest" "says s [] s1" by auto
  let ?s2 = "key_handled h buf (ucast x) xs s1"
  from getchar_keeps [OF g(1) con] have s1: "line_ok buf xs s1"
    using Cons.prems(1) line_ok_outside by auto
  then have "line_ok buf (edit_key (ucast x) xs) ?s2" using key_handled_ok by blast
  with Cons.IH [of "edit_key (ucast x) xs" ?s2] g Cons.prems(4) unread_kept [OF key_handled_input [of h buf "ucast x" xs s1]]
  obtain t where t: "dialog h buf (edit_key (ucast x) xs) ?s2 (map ucast (ks @ [k])) t" "input_ok bs t"
      "unread bs t = rest" "says ?s2 (echo (map ucast ks) (edit_key (ucast x) xs)) t"
    by auto
  have "says s (echo (map ucast (x # ks)) xs) t"
    using says_trans [OF g(4) says_trans [OF key_handled_says [OF s1] t(4)]] by simp
  with g t Cons.prems show ?case by (auto intro: dialog.key)
qed

section \<open>readline\<close>

lemma prompt_line:
  assumes ok: "con_ok s" and apart: "disjoint_rng buf 1024 (crt_buf s) 4000"
    and p: "0 \<notin> set p" "length p < 1073741824"
  shows "\<exists>n t. cprintf h (ascii ''%s'') [Lit p] s = Some (n, t) \<and> prints s (map scast p) t \<and> line_ok buf [] t"
proof -
  have "render (ascii ''%s'') 0 [Lit p] = Some (map scast p)"
    using p by (simp add: render_sym spec0_def string_text_def shown_def char_text_def split del: if_split)
  from cprintf_prints [OF ok _ this, of "[Lit p]" h] obtain n t
    where t: "cprintf h (ascii ''%s'') [Lit p] s = Some (n, t)" "prints s (map scast p) t"
    by (auto simp: string_args_def)
  with apart have "line_ok buf [] t" by (auto simp: line_ok_def prints_def same_outside_def)
  with t show ?thesis by blast
qed

lemma readline_prompt:
  assumes "cprintf h (ascii ''%s'') [Lit p] s = Some (n, s1)"
  shows "readline h lk (Lit p) s = readline_loop h (sym_line_buf lk) 1 0 s1"
  using assms by (simp add: readline_def iscons_def)

lemma entered_ok:
  assumes ok: "line_ok buf xs s"
  shows "cstr (mem (entered h buf xs s)) buf xs \<and> con_ok (entered h buf xs s) \<and> line_only buf s (entered h buf xs s)"
proof -
  have con: "con_ok s" "length xs < 1024" using ok by (simp_all add: line_ok_def)
  have s2: "con_ok (cputchar h 10 s)" "same_outside s (cputchar h 10 s)"
    using cputchar_keeps [OF con(1)] by simp_all
  have "line_only buf s (entered h buf xs s)"
    unfolding entered_def Let_def
    using line_only_trans [OF line_only_outside [OF s2(2)] line_only_store [OF line_end_in [OF con(2)]]] .
  with line_ok_cstr [OF line_ok_outside [OF ok s2]] s2(1) show ?thesis
    by (simp add: entered_def Let_def con_ok_def)
qed

text \<open>
  C17: after the prompt, when the characters \<open>cs\<close> up to a newline come in, \<open>readline\<close> returns its
  buffer, which holds as a NUL-terminated string the line that the keys before the newline make,
  at most 1023 bytes, and it has written no memory but the buffer and the display.
\<close>

theorem readline_edits:
  assumes ok: "con_ok s" and apart: "disjoint_rng (sym_line_buf lk) 1024 (crt_buf s) 4000"
    and p: "0 \<notin> set p" "length p < 1073741824"
    and prompt: "cprintf h (ascii ''%s'') [Lit p] s = Some (n, s1)"
    and keys: "dialog h (sym_line_buf lk) [] s1 cs t"
  shows "\<exists>u. readline h lk (Lit p) s = Some (sym_line_buf lk, u)
    \<and> cstr (mem u) (sym_line_buf lk) (fold edit_key (butlast cs) [])
    \<and> length (fold edit_key (butlast cs) []) \<le> 1023
    \<and> con_ok u \<and> line_only (sym_line_buf lk) s u"
proof -
  from prompt_line [OF ok apart p, of h] prompt
  have p1: "line_ok (sym_line_buf lk) [] s1" "line_only (sym_line_buf lk) s s1"
    by (auto simp: prints_def line_only_outside)
  note d = dialog_readline [OF keys p1(1)]
  have "readline h lk (Lit p) s = Some (sym_line_buf lk, entered h (sym_line_buf lk) (fold edit_key (butlast cs) []) t)"
    using d by (simp add: readline_prompt [OF prompt])
  moreover have "length (fold edit_key (butlast cs) []) \<le> 1023" using d by (simp add: line_ok_def)
  ultimately show ?thesis
    using d entered_ok [of "sym_line_buf lk" "fold edit_key (butlast cs) []" t h] line_only_trans p1(2) by blast
qed

text \<open>With a terminal on the serial line the characters of a dialogue are what the terminal sends.\<close>

lemma dialog_reads:
  assumes script: "serial_script h bs"
  shows "dialog h buf xs s cs t \<Longrightarrow> line_ok buf xs s \<Longrightarrow> input_ok bs s \<Longrightarrow> 0 \<notin> set (unread bs s) \<Longrightarrow>
    \<exists>x \<in> set (unread bs s). newline (ucast x)"
proof (induction rule: dialog.induct)
  case (enter s c t xs)
  then have con: "con_ok s" by (simp add: line_ok_def)
  then obtain x ys where x: "unread bs s = x # ys"
    using script_getchar_hangs [OF script con enter.prems(2)] enter.hyps(1) by (cases "unread bs s") auto
  with script_getchar [OF script con enter.prems(2) x] enter show ?case by auto
next
  case (key s c s1 xs cs t)
  then have con: "con_ok s" by (simp add: line_ok_def)
  then obtain x ys where x: "unread bs s = x # ys"
    using script_getchar_hangs [OF script con key.prems(2)] key.hyps(1) by (cases "unread bs s") auto
  with script_getchar [OF script con key.prems(2) x] key.hyps(1) key.prems(3)
  have s1: "input_ok bs s1" "unread bs s1 = ys" "0 \<notin> set ys" by auto
  from getchar_keeps [OF key.hyps(1) con] obtain y where "line_ok buf xs s1" "c = ucast (y :: u8)"
    using line_ok_outside [OF key.prems(1)] by auto
  from key_handled_ok [OF this] have "line_ok buf (edit_key c xs) (key_handled h buf c xs s1)" by blast
  with key.IH unread_kept [OF key_handled_input [of h buf c xs s1], of bs] s1 x show ?case by simp
qed

text \<open>
  C35: with a terminal on the serial line whose characters fit into the buffer, \<open>readline\<close> returns exactly
  when there is a newline or a carriage return among the characters not read yet; otherwise it waits for
  ever.  When it returns, the result is its buffer: it never reports a read error.
\<close>

theorem readline_returns:
  assumes script: "serial_script h bs" and ok: "con_ok s" "input_ok bs s" and nz: "0 \<notin> set (unread bs s)"
    and apart: "disjoint_rng (sym_line_buf lk) 1024 (crt_buf s) 4000"
    and p: "0 \<notin> set p" "length p < 1073741824"
  shows "(readline h lk (Lit p) s \<noteq> None \<longleftrightarrow> 10 \<in> set (unread bs s) \<or> 13 \<in> set (unread bs s))
    \<and> (\<forall>b t. readline h lk (Lit p) s = Some (b, t) \<longrightarrow> b = sym_line_buf lk)"
proof -
  let ?buf = "sym_line_buf lk"
  from prompt_line [OF ok(1) apart p, of h] obtain n s1
    where s1: "cprintf h (ascii ''%s'') [Lit p] s = Some (n, s1)" "prints s (map scast p) s1" "line_ok ?buf [] s1" by blast
  have "input_state s1 = input_state s" using s1(2) by (intro out_only_input) (simp add: prints_def)
  note kept = unread_kept [OF this, of bs]
  have ok1: "input_ok bs s1" "0 \<notin> set (unread bs s1)" using kept ok(2) nz by simp_all
  have run: "readline h lk (Lit p) s = readline_loop h ?buf 1 (of_nat (length ([] :: u8 list))) s1"
    by (simp add: readline_prompt [OF s1(1)])
  have reads: "\<exists>x \<in> set (unread bs s). newline (ucast x)" and result: "fst r = ?buf"
    if r: "readline h lk (Lit p) s = Some r" for r
  proof -
    from readline_dialog [OF r [unfolded run] s1(3)] obtain cs t where d: "dialog h ?buf [] s1 cs t" by blast
    show "\<exists>x \<in> set (unread bs s). newline (ucast x)" using dialog_reads [OF script d s1(3) ok1] kept by simp
    show "fst r = ?buf" using dialog_readline [OF d s1(3)] r run by auto
  qed
  have returns: "readline h lk (Lit p) s \<noteq> None" if nl: "\<exists>x \<in> set (unread bs s1). newline (ucast x)"
  proof -
    from split_list_first_prop [OF nl] obtain ks k rest where ks: "unread bs s1 = ks @ k # rest" "newline (ucast k)"
        "\<forall>x \<in> set ks. \<not> newline (ucast x)" by blast
    then have "\<forall>x \<in> set ks. x \<noteq> 0 \<and> \<not> newline (ucast x)" using ok1(2) by auto
    from dialog_script [OF script ks(2) s1(3) ok1(1) ks(1) this] obtain t
      where "dialog h ?buf [] s1 (map ucast (ks @ [k])) t" by blast
    from dialog_readline [OF this s1(3)] show ?thesis using run by simp
  qed
  have newline_byte: "newline (ucast x) \<longleftrightarrow> x = 10 \<or> x = 13" for x :: u8
    using byte_char(3) [of x] by (auto simp: newline_def)
  show ?thesis using reads returns result kept unfolding newline_byte by fastforce
qed

text \<open>A typed line: \<open>h\<close>, \<open>j\<close>, a backspace, \<open>i\<close> and a carriage return.\<close>

definition typed_con :: con where
  "typed_con = (demo_con (\<lambda>_. 0))\<lparr>cons_buf := [104, 106, 8, 105, 13] @ replicate 507 0, cons_wpos := 5\<rparr>"

definition line_link :: linkmap where
  "line_link = \<lparr>sym_start = 0, sym_entry = 0, sym_etext = 0, sym_edata = 0, sym_bss_start = 0,
     sym_end = 0, sym_bootstack = 0, sym_entry_pgtable = 0, sym_entry_pgdir = 0, STAB_BEGIN = 0,
     STAB_END = 0, STABSTR_BEGIN = 0, STABSTR_END = 0, lit_unknown = 0, sym_line_buf = 0xF0112000\<rparr>"

lemma typed_con_ok: "con_ok typed_con" "ring_ok typed_con" "pending typed_con = [104, 106, 8, 105, 13]"
  "disjoint_rng (sym_line_buf line_link) 1024 (crt_buf typed_con) 4000" "quiet demo_hw"
proof -
  have upto: "[0..<5] = [0, 1, 2, 3, 4]" by code_simp
  show "con_ok typed_con" "ring_ok typed_con" "quiet demo_hw"
    by (simp_all add: typed_con_def demo_con_def con_ok_def ring_ok_def quiet_def demo_hw_def)
  show "pending typed_con = [104, 106, 8, 105, 13]"
    by (simp add: typed_con_def demo_con_def pending_def ring_count_def upto)
  show "disjoint_rng (sym_line_buf line_link) 1024 (crt_buf typed_con) 4000"
    by (simp add: typed_con_def demo_con_def line_link_def disjoint_rng_def)
qed

lemma typed_dialog:
  "\<exists>n s1 t. cprintf demo_hw (ascii ''%s'') [Lit (ascii ''K> '')] typed_con = Some (n, s1)
    \<and> dialog demo_hw (sym_line_buf line_link) [] s1 (map ucast ([104, 106, 8, 105, 13] :: u8 list)) t"
proof -
  obtain n s1 where s1: "cprintf demo_hw (ascii ''%s'') [Lit (ascii ''K> '')] typed_con = Some (n, s1)"
      "prints typed_con (map scast (ascii ''K> '')) s1" "line_ok (sym_line_buf line_link) [] s1"
    using prompt_line [OF typed_con_ok(1,4), of "ascii ''K> ''" demo_hw] by auto
  have "input_state s1 = input_state typed_con" using s1(2) out_only_input [of typed_con s1] by (simp add: prints_def)
  note kept = unread_kept [OF this, of "[]", unfolded quiet_unread]
  have "unread [] s1 = [104, 106, 8, 105] @ 13 # []" using kept typed_con_ok by (simp add: quiet_unread)
  moreover have "input_ok [] s1" using kept typed_con_ok(2) by (simp add: quiet_unread)
  ultimately obtain t
    where "dialog demo_hw (sym_line_buf line_link) [] s1 (map ucast ([104, 106, 8, 105] @ [13 :: u8])) t"
    using dialog_script [OF quiet_script [OF typed_con_ok(5)] _ s1(3), of 13 "[104, 106, 8, 105]" "[]"]
    by (auto simp: newline_def)
  with s1(1) show ?thesis by auto
qed

theorem readline_edits_witness:
  "\<exists>u. readline demo_hw line_link (Lit (ascii ''K> '')) typed_con = Some (0xF0112000, u)
    \<and> cstr (mem u) 0xF0112000 (ascii ''hi'')"
proof -
  obtain n s1 t where k: "cprintf demo_hw (ascii ''%s'') [Lit (ascii ''K> '')] typed_con = Some (n, s1)"
    "dialog demo_hw (sym_line_buf line_link) [] s1 (map ucast ([104, 106, 8, 105, 13] :: u8 list)) t"
    using typed_dialog by blast
  have "0 \<notin> set (ascii ''K> '')" "length (ascii ''K> '') < 1073741824" by simp_all
  from readline_edits [OF typed_con_ok(1,4) this k] show ?thesis
    by (auto simp: edit_key_def word_sle_eq line_link_def)
qed

theorem readline_returns_witness:
  "\<exists>t. readline demo_hw line_link (Lit (ascii ''K> '')) typed_con = Some (0xF0112000, t)"
proof -
  have "input_ok [] typed_con" "unread [] typed_con = [104, 106, 8, 105, 13]"
    using typed_con_ok(2,3) by (simp_all add: quiet_unread)
  moreover have "0 \<notin> set (ascii ''K> '')" "length (ascii ''K> '') < 1073741824" by simp_all
  ultimately show ?thesis
    using readline_returns [OF quiet_script [OF typed_con_ok(5)] typed_con_ok(1) _ _ typed_con_ok(4), of "ascii ''K> ''"]
    by (auto simp: line_link_def)
qed

end
