(* ===== verification/Monitor_Props.thy ===== *)
theory Monitor_Props
  imports Monitor_Laws Readline_Props
begin

text \<open>
  The properties of kern/monitor.c: what it answers to a line, to a session of typed lines, and that
  its loop is never left.
\<close>

section \<open>One command line\<close>

text \<open>
  C9: for every line of at most 1023 bytes in its buffer \<open>runcmd\<close> returns 0 and prints the answer
  that the specification gives from the words of the line: the output of the command, a message
  for an unknown one, or a message when there are more than 15 words.  It writes no memory but the
  line and the display.
\<close>

theorem runcmd_answers:
  assumes "command_line buf line s"
  shows "\<exists>t. runcmd h lk buf tf s = Some (0, t) \<and> says s (answer lk line) t \<and> line_only buf s t"
  using runcmd_replies [OF assms, of h lk tf] by (auto simp: replies_def)

lemma words_demo: "words [32, 104, 105, 32, 32, 116, 111] = [[104, 105], [116, 111]]"
  by (simp add: words.simps ws_def)

definition line_con :: con where
  "line_con = demo_con (image 0x2000 [32, 104, 105, 32, 32, 116, 111])"

theorem runcmd_answers_witness:
  "\<exists>t. runcmd demo_hw line_link 0x2000 0 line_con = Some (0, t)
    \<and> sent 0x3F8 (io_log t) = ascii ''Unknown command '' @ [39] @ ascii ''hi'' @ [39, 10]"
proof -
  have line: "command_line 0x2000 [32, 104, 105, 32, 32, 116, 111] line_con"
    by (simp add: command_line_def line_place_def line_con_def demo_con_ok)
      (simp add: demo_con_def disjoint_rng_def image_def)
  have "answer line_link [32, 104, 105, 32, 32, 116, 111]
      = map ucast (ascii ''Unknown command '' @ [39] @ ascii ''hi'' @ [39, 10])"
    by (simp add: answer_def words_demo)
  with runcmd_answers [OF line, of demo_hw line_link 0] show ?thesis
    by (auto simp: says_def line_con_def serial_bytes_def)
qed

section \<open>The loop\<close>

lemma cprintf_then_zero:
  "(do { (_, s1) \<leftarrow> cprintf h fmt ap s; Some (0, s1) }) = Some (r, t) \<Longrightarrow> r = (0 :: i32)"
  by (auto split: Option.bind_splits)

lemma call_command_zero: "call_command h lk f argc argv tf s = Some (r, t) \<Longrightarrow> r = 0"
  by (auto simp: call_command_def mon_help_def mon_kerninfo_def split: mon_func.splits Option.bind_splits)

lemma run_lookup_zero: "run_lookup h lk tf argv cs s = Some (r, t) \<Longrightarrow> r = 0"
  by (induction cs) (auto dest: call_command_zero split: Option.bind_splits if_splits)

lemma runcmd_zero: "runcmd h lk buf tf s = Some (r, t) \<Longrightarrow> r = 0"
  by (auto simp: runcmd_def dest: run_lookup_zero split: Option.bind_splits option.splits if_splits)

lemma monitor_round_stays: "monitor_round h lk tf s = Some (stop, t) \<Longrightarrow> \<not> stop"
  by (auto simp: monitor_round_def dest!: runcmd_zero split: Option.bind_splits if_splits)

lemma monitor_loop_none: "monitor_loop h lk tf (s :: 'a con_scheme) = None"
proof (rule ccontr)
  assume "monitor_loop h lk tf s \<noteq> None"
  then obtain t where "monitor_loop h lk tf s = Some t" by blast
  then show False
  proof (rule monitor_loop.raw_induct [where P = "\<lambda>_ _ _ _ _. False", rotated])
    fix loop :: "hw \<Rightarrow> linkmap \<Rightarrow> u32 \<Rightarrow> 'a con_scheme \<Rightarrow> 'a con_scheme option" and h lk tf s t
    assume none: "\<And>h lk tf s t. loop h lk tf s = Some t \<Longrightarrow> False"
      and run: "monitor_body h lk tf (\<lambda>t. loop h lk tf t) Some s = Some t"
    from run obtain stop s1 where r: "monitor_round h lk tf s = Some (stop, s1)"
        "(if stop then Some s1 else loop h lk tf s1) = Some t" by (auto simp: monitor_body_def split: Option.bind_splits)
    with monitor_round_stays [OF r(1)] none show False by simp
  qed
qed

text \<open>
  C39: the monitor never returns.  Only a negative result ends its loop, no command gives one, and no
  round of the loop ends it.
\<close>

theorem monitor_never_returns:
  "monitor h lk tf s = None \<and> (\<nexists>t. monitor_round h lk tf s = Some (True, t))
   \<and> (\<nexists>r t. runcmd h lk buf tf s = Some (r, t) \<and> r \<noteq> 0)"
  by (auto simp: monitor_def monitor_loop_none dest: monitor_round_stays runcmd_zero split: Option.bind_splits)

section \<open>A session\<close>

text \<open>
  The steps of the program run the loops of the source: when they leave the loop of \<open>monitor\<close> the loop
  returns with the same state, and a loop that returns is left by the steps.
\<close>

lemma steps_leave:
  "monitor_steps h lk tf n (Looping s) = Some (Calling t) \<Longrightarrow>
     \<exists>k u. monitor_loop h lk tf s = Some u \<and> monitor_steps h lk tf k (Calling u) = Some (Calling t)"
proof (induction n arbitrary: s)
  case (Suc n)
  then obtain stop s1 where r: "monitor_round h lk tf s = Some (stop, s1)"
      "monitor_steps h lk tf n (if stop then Calling s1 else Looping s1) = Some (Calling t)"
    by (auto simp: monitor_body_def split: Option.bind_splits if_splits)
  then show ?case
    using Suc.IH [of s1] by (cases stop) (auto simp: monitor_loop.simps [of h lk tf s] monitor_body_def)
qed simp

lemma loop_leaves:
  fixes s :: "'a con_scheme"
  assumes "monitor_loop h lk tf s = Some t"
  shows "\<exists>n. monitor_steps h lk tf n (Looping s) = Some (Calling t)"
proof (rule monitor_loop.raw_induct
    [where P = "\<lambda>h lk tf s t. \<exists>n. monitor_steps h lk tf n (Looping s) = Some (Calling t)", OF _ assms])
  fix loop :: "hw \<Rightarrow> linkmap \<Rightarrow> u32 \<Rightarrow> 'a con_scheme \<Rightarrow> 'a con_scheme option" and h lk tf s t
  assume IH: "\<And>h lk tf s t. loop h lk tf s = Some t \<Longrightarrow> \<exists>n. monitor_steps h lk tf n (Looping s) = Some (Calling t)"
    and run: "monitor_body h lk tf (\<lambda>t. loop h lk tf t) Some s = Some t"
  from run obtain stop s1 where r: "monitor_round h lk tf s = Some (stop, s1)"
      "(if stop then Some s1 else loop h lk tf s1) = Some t" by (auto simp: monitor_body_def split: Option.bind_splits)
  have one: "monitor_steps h lk tf (Suc n) (Looping s)
      = monitor_steps h lk tf n (if stop then Calling s1 else Looping s1)" for n
    using r(1) by (simp add: monitor_body_def)
  show "\<exists>n. monitor_steps h lk tf n (Looping s) = Some (Calling t)"
  proof (cases stop)
    case True
    with r(2) one [of 0] show ?thesis by (intro exI [of _ "Suc 0"]) simp
  next
    case False
    with r(2) have "loop h lk tf s1 = Some t" by simp
    from IH [OF this] obtain n where "monitor_steps h lk tf n (Looping s1) = Some (Calling t)" ..
    with False one [of n] show ?thesis by (intro exI [of _ "Suc n"]) simp
  qed
qed

definition typed_line :: "u8 list \<Rightarrow> u8 list" where
  "typed_line ks = fold edit_key (map ucast ks) []"

definition transcript :: "linkmap \<Rightarrow> u8 list \<Rightarrow> i32 list" where
  "transcript lk ks = map scast (ascii ''K> '') @ echo (map ucast ks) [] @ [10] @ answer lk (typed_line ks)"

definition keys_ok :: "u8 list \<Rightarrow> bool" where
  "keys_ok ks \<longleftrightarrow> (\<forall>x \<in> set ks. x \<noteq> 0 \<and> \<not> newline (ucast x))"

lemma entered_says:
  assumes ok: "line_ok buf xs s"
  shows "says s [10] (entered h buf xs s) \<and> input_state (entered h buf xs s) = input_state s"
proof -
  have con: "con_ok s" "length xs < 1024" using ok by (simp_all add: line_ok_def)
  have put: "prints s [10] (cputchar h 10 s)" by (rule cputchar_prints [OF con(1)])
  then have "line_ok buf xs (cputchar h 10 s)" using line_ok_outside [OF ok] by (simp add: prints_def)
  from says_trans [OF prints_says [OF put] says_store [OF this line_end_in [OF con(2)]]]
  have "says s [10] (entered h buf xs s)" by (simp add: entered_def Let_def)
  moreover have "input_state (entered h buf xs s) = input_state (cputchar h 10 s)"
    by (simp add: entered_def input_state_def Let_def)
  ultimately show ?thesis using out_only_input [of s "cputchar h 10 s"] put by (simp add: prints_def)
qed

lemma script_round:
  assumes script: "serial_script h bs" and place: "line_place (sym_line_buf lk) s" and ok: "input_ok bs s"
    and keys: "unread bs s = ks @ 13 # rest" "keys_ok ks"
  shows "\<exists>t. monitor_round h lk tf s = Some (False, t) \<and> says s (transcript lk ks) t
    \<and> input_ok bs t \<and> unread bs t = rest \<and> line_place (sym_line_buf lk) t"
proof -
  let ?buf = "sym_line_buf lk" and ?p = "ascii ''K> ''"
  have "0 \<notin> set ?p" "length ?p < 1073741824" by simp_all
  from prompt_line [OF _ _ this, of s ?buf h] place obtain n s1
    where s1: "cprintf h (ascii ''%s'') [Lit ?p] s = Some (n, s1)" "prints s (map scast ?p) s1" "line_ok ?buf [] s1"
    unfolding line_place_def by blast
  have "out_only s s1" using s1(2) unfolding prints_def by blast
  note kept = unread_kept [OF out_only_input [OF this], of bs]
  have nl: "newline (ucast (13 :: u8))" by (simp add: newline_def)
  have "unread bs s1 = ks @ 13 # rest" "input_ok bs s1" using kept keys(1) ok by simp_all
  from dialog_script [OF script nl s1(3) this(2,1)] keys(2) obtain t
    where t: "dialog h ?buf [] s1 (map ucast (ks @ [13])) t" "input_ok bs t" "unread bs t = rest"
      "says s1 (echo (map ucast ks) []) t"
    unfolding keys_ok_def by blast
  from dialog_readline [OF t(1) s1(3)]
  have d: "readline_loop h ?buf 1 0 s1 = Some (?buf, entered h ?buf (typed_line ks) t)"
    "line_ok ?buf (typed_line ks) t" by (simp_all add: typed_line_def butlast_append)
  let ?u = "entered h ?buf (typed_line ks) t"
  note e = entered_says [OF d(2), of h] and e' = entered_ok [OF d(2), of h]
  have says_u: "says s (map scast ?p @ echo (map ucast ks) [] @ [10]) ?u"
    using says_trans [OF prints_says [OF s1(2)] says_trans [OF t(4) conjunct1 [OF e]]] .
  then have "command_line ?buf (typed_line ks) ?u"
    using place e' d(2) by (simp add: command_line_def line_place_def says_def line_ok_def)
  from runcmd_replies [OF this, of h lk tf] obtain v
    where v: "runcmd h lk ?buf tf ?u = Some (0, v)" "replies ?buf ?u (answer lk (typed_line ks)) v" by blast
  have says_v: "says s (transcript lk ks) v"
    using says_trans [OF says_u] v(2) unfolding transcript_def replies_def by (metis append_assoc)
  have "input_state v = input_state t" using v(2) e by (simp add: replies_def)
  note kept_v = unread_kept [OF this, of bs]
  have "line_place ?buf v" using place says_v by (simp add: line_place_def says_def)
  moreover have "readline h lk (Lit ?p) s = Some (?buf, entered h ?buf (typed_line ks) t)"
    using d(1) by (simp only: readline_prompt [OF s1(1)])
  then have "monitor_round h lk tf s = Some (False, v)"
    using place v(1) by (simp add: monitor_round_def line_place_def)
  ultimately show ?thesis using says_v kept_v t(2,3) by blast
qed

text \<open>A session: the lines of the terminal are answered one by one.\<close>

lemma script_session:
  assumes script: "serial_script h bs"
  shows "line_place (sym_line_buf lk) s \<Longrightarrow> input_ok bs s \<Longrightarrow> unread bs s = concat (map (\<lambda>ks. ks @ [13]) lines) \<Longrightarrow>
    list_all keys_ok lines \<Longrightarrow>
    \<exists>t. monitor_steps h lk tf (length lines) (Looping s) = Some (Looping t) \<and> says s (concat (map (transcript lk) lines)) t
      \<and> input_ok bs t \<and> unread bs t = [] \<and> line_place (sym_line_buf lk) t"
proof (induction lines arbitrary: s)
  case Nil
  then show ?case using prints_says [OF prints_Nil] by (auto simp: line_place_def)
next
  case (Cons ks lines)
  have "unread bs s = ks @ 13 # concat (map (\<lambda>ks. ks @ [13]) lines)" "keys_ok ks" using Cons.prems by simp_all
  from script_round [OF script Cons.prems(1,2) this, of tf] obtain s1
    where s1: "monitor_round h lk tf s = Some (False, s1)" "says s (transcript lk ks) s1" "input_ok bs s1"
      "unread bs s1 = concat (map (\<lambda>ks. ks @ [13]) lines)" "line_place (sym_line_buf lk) s1" by blast
  from Cons.IH [OF s1(5,3,4)] Cons.prems(4) obtain t
    where "monitor_steps h lk tf (length lines) (Looping s1) = Some (Looping t)" "says s1 (concat (map (transcript lk) lines)) t"
      "input_ok bs t" "unread bs t = []" "line_place (sym_line_buf lk) t" by auto
  with s1(1) says_trans [OF s1(2)] show ?case by (auto simp: monitor_body_def)
qed

text \<open>
  C3: when the devices are silent and the lines have been typed ahead, the loop of the monitor takes
  them one by one: for each it prints the prompt, the echo of its keys and the answer to the edited
  line, in this order, until no input is left.
\<close>

theorem monitor_session:
  assumes "quiet h" and "line_place (sym_line_buf lk) s" and "ring_ok s"
    and "pending s = concat (map (\<lambda>ks. ks @ [13]) lines)" and "list_all keys_ok lines"
  shows "\<exists>t. monitor_steps h lk tf (length lines) (Looping s) = Some (Looping t) \<and> says s (concat (map (transcript lk) lines)) t
    \<and> pending t = [] \<and> line_place (sym_line_buf lk) t"
  using script_session [OF quiet_script [OF assms(1)] assms(2), of lines tf] assms(3-5) by (auto simp: quiet_unread)

theorem monitor_session_witness:
  "\<exists>t. monitor_steps demo_hw line_link 0 1 (Looping typed_con) = Some (Looping t)
    \<and> sent 0x3F8 (io_log t) = ascii ''K> hj'' @ [8] @ ascii ''i'' @ [10]
        @ ascii ''Unknown command '' @ [39] @ ascii ''hi'' @ [39, 10]"
proof -
  have place: "line_place (sym_line_buf line_link) typed_con"
    using typed_con_ok(1,4) by (simp add: line_place_def line_link_def)
  have "pending typed_con = concat (map (\<lambda>ks. ks @ [13]) [[104, 106, 8, 105]])"
    "list_all keys_ok [[104, 106, 8, 105]]"
    by (simp_all add: typed_con_ok(3) keys_ok_def newline_def)
  from monitor_session [OF typed_con_ok(5) place typed_con_ok(2) this, of 0]
  have "\<exists>t. monitor_steps demo_hw line_link 0 1 (Looping typed_con) = Some (Looping t)
    \<and> says typed_con (transcript line_link [104, 106, 8, 105]) t" by auto
  moreover have "transcript line_link [104, 106, 8, 105]
      = map ucast (ascii ''K> hj'' @ [8] @ ascii ''i'' @ [10] @ ascii ''Unknown command '' @ [39] @ ascii ''hi'' @ [39, 10])"
    by (simp add: transcript_def typed_line_def edit_key_def key_echo_def word_sle_eq answer_def words.simps ws_def)
  ultimately show ?thesis by (auto simp: says_def serial_bytes_def typed_con_def)
qed

end
