(* ===== verification/Init_Props.thy ===== *)
theory Init_Props
  imports Init Pmap_Instances Monitor_Props
begin

text \<open>
  The properties of kern/init.c: what a panic prints and does to the processor's flags, and what the
  kernel prints from its C entry point until it is in the monitor.
\<close>

section \<open>Panics\<close>

definition panic_text :: "panic_call \<Rightarrow> i32 list \<Rightarrow> i32 list" where
  "panic_text p out = map ucast (ascii ''>>>'' @ [10] @ ascii ''>>> kernel panic at '')
     @ map scast (pc_file p) @ [58] @ signed_text (scast (pc_line p)) spec0 @ [58, 32]
     @ out @ map ucast ([10] @ ascii ''>>>'' @ [10])"

lemma panic_head_render:
  assumes "plain_text xs"
  shows "render (ascii ''>>>'' @ [10] @ ascii ''>>> kernel panic at %s:%d: '') 0 [Lit xs, Slot n]
    = Some (map ucast (ascii ''>>>'' @ [10] @ ascii ''>>> kernel panic at '')
        @ map scast xs @ [58] @ signed_text (scast n) spec0 @ [58, 32])"
  using assms by (simp add: plain_text_def render.simps scan_flags.simps fch_def conv_text_def is_conv_def
      getint_def word_sle_eq Let_def string_text_plain spec0_fields split del: if_split)

lemma panic_tail_render: "render ([10] @ ascii ''>>>'' @ [10]) 0 [] = Some (map ucast ([10] @ ascii ''>>>'' @ [10]))"
  by (simp add: render_eval split del: if_split)

lemma string_args_keep:
  assumes "string_args (crt_buf s) 4000 (mem s) ap ap'" and "same_outside s t"
  shows "string_args (crt_buf t) 4000 (mem t) ap ap'"
  using assms(1) unfolding string_args_def
proof (rule list_all2_mono, goal_cases)
  case (1 a b)
  have "cstr (mem t) p xs"
    if "cstr (mem s) p xs" "\<forall>c. in_rng c p (Suc (length xs)) \<longrightarrow> \<not> in_rng c (crt_buf s) 4000" for p xs
    using assms(2) that by (intro cstr_frame [OF that(1)]) (simp add: same_outside_def)
  with 1 assms(2) show ?case unfolding same_outside_def by metis
qed

lemma out_only_vars:
  assumes "out_only s t"
  shows "panicstr t = panicstr s" "eflags t = eflags s"
proof -
  from assms have t: "t = s\<lparr>mem := mem t, io_log := io_log t, crt_pos := crt_pos t\<rparr>" by (simp only: out_only_def)
  show "panicstr t = panicstr s" by (subst t) simp
  show "eflags t = eflags s" by (subst t) simp
qed

lemma panic_report_says:
  assumes ok: "con_ok s" and first: "panicstr s = None" and name: "plain_text (pc_file p)"
    and args: "string_args (crt_buf s) 4000 (mem s) (pc_args p) ap" and out: "render (pc_fmt p) 0 ap = Some out"
  shows "\<exists>t. panic_report h p s = Some t \<and> utters s (panic_text p out) t \<and> panicstr t = Some (pc_fmt p)
    \<and> eflags t = eflags s AND NOT 0x200 AND NOT 0x400"
proof -
  let ?s1 = "cli_cld (s\<lparr>panicstr := Some (pc_fmt p)\<rparr>)"
  have ok1: "con_ok ?s1" using ok by (simp add: cli_cld_def con_ok_def)
  have "says s [] ?s1" using ok ok1 by (intro says_silent) (simp_all add: cli_cld_def)
  then have start: "utters s [] ?s1" by (simp add: utters_def input_state_def cli_cld_def)
  have "string_args (crt_buf ?s1) 4000 (mem ?s1) [Lit (pc_file p), Slot (pc_line p)] [Lit (pc_file p), Slot (pc_line p)]"
    by (simp add: string_args_def)
  from cprintf_prints [OF ok1 this panic_head_render [OF name], of h] obtain n2 s2 where
    s2: "cprintf h (ascii ''>>>'' @ [10] @ ascii ''>>> kernel panic at %s:%d: '') [Lit (pc_file p), Slot (pc_line p)] ?s1 = Some (n2, s2)"
      "prints ?s1 (map ucast (ascii ''>>>'' @ [10] @ ascii ''>>> kernel panic at '')
        @ map scast (pc_file p) @ [58] @ signed_text (scast (pc_line p)) spec0 @ [58, 32]) s2" by blast
  have "same_outside ?s1 s2" "con_ok s2" using s2(2) by (simp_all only: prints_def)
  moreover have "string_args (crt_buf ?s1) 4000 (mem ?s1) (pc_args p) ap" using args by (simp add: cli_cld_def)
  ultimately have "con_ok s2" "string_args (crt_buf s2) 4000 (mem s2) (pc_args p) ap"
    using string_args_keep by blast+
  from cprintf_prints [OF this out, of h] obtain n3 s3
    where s3: "vcprintf h (pc_fmt p) (pc_args p) s2 = Some (n3, s3)" "prints s2 out s3"
    unfolding cprintf_def by blast
  have "con_ok s3" "string_args (crt_buf s3) 4000 (mem s3) [] []"
    using s3(2) by (simp_all add: prints_def string_args_def)
  from cprintf_prints [OF this panic_tail_render, of h] obtain n4 s4
    where s4: "cprintf h ([10] @ ascii ''>>>'' @ [10]) [] s3 = Some (n4, s4)"
      "prints s3 (map ucast ([10] @ ascii ''>>>'' @ [10])) s4" by blast
  note p = prints_trans [OF prints_trans [OF s2(2) s3(2)] s4(2)]
  have "out_only ?s1 s4" using p unfolding prints_def by blast
  note vars = out_only_vars [OF this]
  have "panic_report h p s = Some s4"
    unfolding panic_report_def Let_def s2(1) bind.bind_lunit prod.case s3(1) s4(1) using first by simp
  moreover have "utters s (panic_text p out) s4"
    using utters_trans [OF start prints_utters [OF p]] by (simp add: panic_text_def)
  ultimately show ?thesis using vars by (simp add: cli_cld_def)
qed

text \<open>
  C28: the first panic prints its message with the file and the line between the two marks, records
  the format and clears the interrupt and direction flags before it enters the loop of the monitor; any
  panic after it prints nothing and changes nothing.
\<close>

theorem panic_prints_once:
  assumes "con_ok s" and "panicstr s = None" and "plain_text (pc_file p)"
    and "string_args (crt_buf s) 4000 (mem s) (pc_args p) ap" and "render (pc_fmt p) 0 ap = Some out"
  shows "\<exists>t. panic_report h p s = Some t \<and> utters s (panic_text p out) t \<and> panicstr t = Some (pc_fmt p)
    \<and> eflags t = eflags s AND NOT 0x200 AND NOT 0x400 \<and> (\<forall>q. panic_report h q t = Some t)"
  using panic_report_says [OF assms, of h] by (auto simp: panic_report_def)

definition demo_panic :: panic_call where
  "demo_panic = \<lparr>pc_file = ascii ''kern/pmap.c'', pc_line = 481, pc_fmt = ascii ''assertion failed: %s'',
     pc_args = [Lit (ascii ''pp >= pages'')]\<rparr>"

theorem panic_prints_once_witness:
  "\<exists>t. panic_report demo_hw demo_panic (demo_kst (\<lambda>_. 0) 0 0 0) = Some t
    \<and> sent 0x3F8 (io_log t) = ascii ''>>>'' @ [10]
        @ ascii ''>>> kernel panic at kern/pmap.c:481: assertion failed: pp >= pages'' @ [10] @ ascii ''>>>'' @ [10]"
proof -
  let ?s = "demo_kst (\<lambda>_. 0) 0 0 0" and ?out = "map ucast (ascii ''assertion failed: pp >= pages'') :: i32 list"
  have "panicstr ?s = None" "plain_text (pc_file demo_panic)"
    "string_args (crt_buf ?s) 4000 (mem ?s) (pc_args demo_panic) (pc_args demo_panic)"
    by (simp_all add: demo_kst_def demo_panic_def plain_text_def string_args_def)
  moreover have "render (pc_fmt demo_panic) 0 (pc_args demo_panic) = Some ?out"
    by (simp add: demo_panic_def render_eval split del: if_split)
  ultimately obtain t where "panic_report demo_hw demo_panic ?s = Some t" "utters ?s (panic_text demo_panic ?out) t"
    using panic_prints_once [OF demo_kst_fields(6), of "\<lambda>_. 0" 0 0 0 demo_panic _ ?out demo_hw] by blast
  moreover have "panic_text demo_panic ?out = map ucast (ascii ''>>>'' @ [10]
      @ ascii ''>>> kernel panic at kern/pmap.c:481: assertion failed: pp >= pages'' @ [10] @ ascii ''>>>'' @ [10])"
    by (simp add: panic_text_def demo_panic_def signed_text_def spec0_def number_text_def digits.simps digit_text_def
        word_sless_alt Let_def)
  ultimately show ?thesis by (auto simp: utters_def says_def serial_bytes_def)
qed

section \<open>Booting\<close>

definition octal_line :: "i32 list" where
  "octal_line = map ucast (ascii ''6828 decimal is 15254 octal!'' @ [10])"

definition unfinished :: panic_call where
  "unfinished = \<lparr>pc_file = ascii ''kern/pmap.c'', pc_line = 131,
     pc_fmt = ascii ''mem_init: This function is not finished'' @ [10], pc_args = []\<rparr>"

lemma unfinished_render: "render (pc_fmt unfinished) 0 [] = Some (map ucast (pc_fmt unfinished))"
  by (simp add: unfinished_def render_eval split del: if_split)

lemma octal_render: "render (ascii ''6828 decimal is %o octal!'' @ [10]) 0 [Slot 6828] = Some octal_line"
  by (simp add: octal_line_def render_eval split del: if_split)

text \<open>What the kernel says before it is in the monitor, when the CMOS answers with \<open>b\<close>, \<open>e\<close> and \<open>x\<close>.\<close>

definition boot_text :: "u32 \<times> u32 \<times> u32 \<Rightarrow> i32 list" where
  "boot_text sizes = octal_line @ memory_line (total_memory sizes) (fst sizes)
     @ panic_text unfinished (map ucast (pc_fmt unfinished))"

text \<open>\<open>serial_init\<close> reads the data register once and drops what it gets.\<close>

lemma cga_init_kept:
  "rx_reads (io_log (cga_init h s)) = rx_reads (io_log s)" "cons_buf (cga_init h s) = cons_buf s"
  "cons_rpos (cga_init h s) = cons_rpos s" "cons_wpos (cga_init h s) = cons_wpos s"
  by (simp_all add: cga_init_def inb_def outb_def log_event_def Let_def)

lemma serial_init_kept:
  "rx_reads (io_log (serial_init h s)) = Suc (rx_reads (io_log s))" "cons_buf (serial_init h s) = cons_buf s"
  "cons_rpos (serial_init h s) = cons_rpos s" "cons_wpos (serial_init h s) = cons_wpos s"
  "con_ok (serial_init h s) = con_ok s"
  by (simp_all add: serial_init_def inb_def outb_def log_event_def con_ok_def Let_def)

lemma start_vars:
  "panicstr (serial_init h (cga_init h (clear_bss lk s))) = None"
  "cons_buf (clear_bss lk s) = replicate 512 0" "cons_rpos (clear_bss lk s) = 0" "cons_wpos (clear_bss lk s) = 0"
  "io_log (clear_bss lk s) = io_log s"
  by (simp_all add: serial_init_def cga_init_def clear_bss_def inb_def outb_def log_event_def Let_def)

text \<open>
  On a console that is not sane yet, \<open>cprintf\<close> still touches nothing but what an output may touch.
\<close>

interpretation any_console: sink "putch h" "\<lambda>st. mem (snd st)" "\<lambda>st. out_only s0 (snd st)" for h s0
  by unfold_locales (auto simp: putch_def cputchar_def Let_def intro: out_only_trans cons_putc_out_only split: prod.splits)

definition port_missing :: "i32 list" where
  "port_missing = map ucast (ascii ''Serial port does not exist!'' @ [10])"

lemma port_missing_render: "render (ascii ''Serial port does not exist!'' @ [10]) 0 [] = Some port_missing"
  by (simp add: port_missing_def render_eval split del: if_split)

lemma no_port_message:
  "\<exists>n t. cprintf h (ascii ''Serial port does not exist!'' @ [10]) [] s = Some (n, t) \<and> out_only s t"
proof -
  have start: "out_only s (snd (0 :: i32, s))" by simp
  from any_console.vprintfmt_render [OF port_missing_render list.rel_intros(1) start, of h]
    any_console.Inv_fold [OF start, of h port_missing]
  show ?thesis unfolding cprintf_def vcprintf_def by (metis prod.collapse)
qed

lemma cons_init_start:
  assumes init: "cons_init h (clear_bss lk s0) = Some s"
  shows "ring_ok s" "pending s = []" "rx_reads (io_log s) = Suc (rx_reads (io_log s0))" "panicstr s = None"
proof -
  let ?s = "serial_init h (cga_init h (clear_bss lk s0))"
  obtain n t where t: "cprintf h (ascii ''Serial port does not exist!'' @ [10]) [] ?s = Some (n, t)" "out_only ?s t"
    using no_port_message by blast
  have "s = ?s \<or> s = t" using init t(1) by (auto simp: cons_init_def kbd_init_def Let_def split: if_splits)
  then have "out_only ?s s" using t(2) by auto
  note kept = out_only_input [OF this] out_only_vars(1) [OF this]
  have "cons_buf ?s = replicate 512 0" "cons_rpos ?s = 0" "cons_wpos ?s = 0"
      "rx_reads (io_log ?s) = Suc (rx_reads (io_log s0))"
    by (simp_all add: serial_init_kept cga_init_kept start_vars)
  with kept show "ring_ok s" "pending s = []" "rx_reads (io_log s) = Suc (rx_reads (io_log s0))" "panicstr s = None"
    by (simp_all add: ring_ok_def pending_def ring_count_def start_vars input_state_def)
qed

text \<open>On a display whose cursor is on the screen \<open>cons_init\<close> leaves a sane console.\<close>

lemma cons_init_runs:
  assumes "con_ok (cga_init h s)"
  shows "\<exists>t. cons_init h s = Some t
    \<and> utters (serial_init h (cga_init h s)) (if serial_exists t then [] else port_missing) t"
proof -
  let ?s = "serial_init h (cga_init h s)"
  have ok: "con_ok ?s" using assms by (simp add: serial_init_kept)
  have "string_args (crt_buf ?s) 4000 (mem ?s) [] []" by (simp add: string_args_def)
  from cprintf_prints [OF ok this port_missing_render, of h] obtain n t
    where t: "cprintf h (ascii ''Serial port does not exist!'' @ [10]) [] ?s = Some (n, t)" "prints ?s port_missing t"
    by blast
  have "input_state t = input_state ?s" using t(2) by (intro out_only_input) (simp add: prints_def)
  then have "serial_exists t = serial_exists ?s" by (simp add: input_state_def)
  then show ?thesis
    using t(1) prints_utters [OF t(2)] prints_utters [OF prints_Nil [OF ok]]
    by (cases "serial_exists ?s") (auto simp: cons_init_def kbd_init_def Let_def)
qed

lemma boot_run:
  assumes init: "cons_init h (clear_bss lk s0) = Some s" and ok: "con_ok s" and rom: "cmos_ram h rom"
  shows "\<exists>t. i386_start h lk s0 = Some t \<and> utters s (boot_text (cmos_sizes rom)) t
    \<and> panicstr t = Some (pc_fmt unfinished)"
proof -
  note fresh = cons_init_start(4) [OF init]
  have "string_args (crt_buf s) 4000 (mem s) [Slot 6828] [Slot 6828]" by (simp add: string_args_def)
  from cprintf_prints [OF ok this octal_render, of h] obtain n s1
    where s1: "cprintf h (ascii ''6828 decimal is %o octal!'' @ [10]) [Slot 6828] s = Some (n, s1)"
      "prints s octal_line s1" by blast
  have con1: "con_ok s1" and fresh1: "panicstr s1 = None"
    using s1(2) fresh out_only_vars(1) [of s s1] by (simp_all add: prints_def)
  obtain b e x where sizes: "cmos_sizes rom = (b, e, x)" by (cases "cmos_sizes rom") auto
  let ?kib = "total_memory (b, e, x)"
  obtain l s3 where l: "sent 0x3F8 l = []" "rx_reads l = 0"
      and p: "prints (s1\<lparr>io_log := l @ io_log s1, npages := ?kib div 4, npages_basemem := b div 4\<rparr>) (memory_line ?kib b) s3"
      and m: "mem_init h lk s1 = kpanic ''kern/pmap.c'' 131 (ascii ''mem_init: This function is not finished'' @ [10]) [] s3"
    using mem_init_run [OF con1 rom, of lk] sizes by (auto simp: Let_def)
  let ?s2 = "s1\<lparr>io_log := l @ io_log s1, npages := ?kib div 4, npages_basemem := b div 4\<rparr>"
  have "con_ok ?s2" using con1 by (simp add: con_ok_def)
  then have "says s1 [] ?s2" using con1 l by (intro says_silent) simp_all
  then have "utters s1 [] ?s2" using l by (simp add: utters_def input_state_def)
  from utters_trans [OF this prints_utters [OF p]] have utters3: "utters s1 (memory_line ?kib b) s3" by simp
  have con3: "con_ok s3" and fresh3: "panicstr s3 = None"
    using p fresh1 out_only_vars(1) [of ?s2 s3] by (simp_all add: prints_def)
  have "plain_text (pc_file unfinished)" "string_args (crt_buf s3) 4000 (mem s3) (pc_args unfinished) []"
    by (simp_all add: unfinished_def plain_text_def string_args_def)
  from panic_report_says [OF con3 fresh3 this unfinished_render, of h] obtain t
    where t: "panic_report h unfinished s3 = Some t" "panicstr t = Some (pc_fmt unfinished)"
      "utters s3 (panic_text unfinished (map ucast (pc_fmt unfinished))) t" by blast
  have m': "mem_init h lk s1 = Some (Panic unfinished s3)" by (simp only: m kpanic_def unfinished_def)
  have "i386_start h lk s0 = Some t"
    unfolding i386_start_def Let_def init bind.bind_lunit s1(1) prod.case m' kres.case by (rule t(1))
  moreover have "utters s (boot_text (cmos_sizes rom)) t"
    using utters_trans [OF prints_utters [OF s1(2)] utters_trans [OF utters3 t(3)]] by (simp add: boot_text_def sizes)
  ultimately show ?thesis using t(2) by blast
qed

text \<open>
  C11: the kernel as it stands gets to the monitor behind a panic.  From its C entry point, on a machine
  whose display reports a cursor on the screen, it initialises the console, which drops one byte of
  serial input and announces a missing serial port; then it prints the octal line, the memory size that
  the CMOS gives and the message of the panic of \<open>mem_init\<close>, and nothing else, and takes no input, before
  the loop in which it calls the monitor.
\<close>

theorem kernel_boots:
  assumes "cursor_at h (crtc_port h (mem (clear_bss lk s0))) n (io_log s0)" and "n < 2000" and "cmos_ram h rom"
  shows "\<exists>s t. cons_init h (clear_bss lk s0) = Some s \<and> rx_reads (io_log s) = Suc (rx_reads (io_log s0))
    \<and> utters (serial_init h (cga_init h (clear_bss lk s0))) (if serial_exists s then [] else port_missing) s
    \<and> i386_start h lk s0 = Some t \<and> utters s (boot_text (cmos_sizes rom)) t
    \<and> panicstr t = Some (pc_fmt unfinished)"
proof -
  have "cursor_at h (crtc_port h (mem (clear_bss lk s0))) n (io_log (clear_bss lk s0))"
    using assms(1) by (simp add: start_vars)
  from cga_init_takes [OF this] have "con_ok (cga_init h (clear_bss lk s0))" using assms(2) by simp
  from cons_init_runs [OF this] obtain s where s: "cons_init h (clear_bss lk s0) = Some s"
      "utters (serial_init h (cga_init h (clear_bss lk s0))) (if serial_exists s then [] else port_missing) s" by blast
  then have "con_ok s" by (simp add: utters_def says_def)
  from boot_run [OF s(1) this assms(3)] s cons_init_start(3) [OF s(1)] show ?thesis by blast
qed

theorem kernel_boots_witness:
  "\<exists>s t. i386_start (cursor_hw 80) demo_link (demo_kst (\<lambda>_. 0) 0x1000 7 0) = Some t
    \<and> utters s (boot_text (0, 0, 0)) t \<and> panicstr t = Some (ascii ''mem_init: This function is not finished'' @ [10])"
proof -
  let ?s0 = "demo_kst (\<lambda>_. 0) 0x1000 7 0"
  have "cursor_at (cursor_hw 80) (crtc_port (cursor_hw 80) (mem (clear_bss demo_link ?s0))) 80 (io_log ?s0)"
    by (rule cursor_hw_at) simp
  moreover have "cmos_ram (cursor_hw 80) (\<lambda>_. 0)" by (simp add: cmos_ram_def cursor_hw_def)
  ultimately obtain s t where "i386_start (cursor_hw 80) demo_link ?s0 = Some t"
      "utters s (boot_text (cmos_sizes (\<lambda>_. 0))) t" "panicstr t = Some (pc_fmt unfinished)"
    using kernel_boots [of "cursor_hw 80" demo_link ?s0 80 "\<lambda>_. 0"] by auto
  then show ?thesis by (auto simp: unfinished_def cmos_sizes_def)
qed

end
