(* ===== verification/Kernel_Session.thy ===== *)
theory Kernel_Session
  imports Init_Props
begin

text \<open>
  The kernel from its C entry point with a terminal on the serial line: every component between
  \<open>i386_init\<close> and the answers of the monitor takes part.
\<close>

section \<open>The monitor's welcome\<close>

definition banner :: "i32 list" where
  "banner = map ucast (ascii ''Welcome to the JOS kernel monitor!'' @ [10]
     @ ascii ''Type '' @ [39] @ ascii ''help'' @ [39] @ ascii '' for a list of commands.'' @ [10])"

lemma banner_says:
  assumes "con_ok s"
  shows "\<exists>t. monitor_banner h s = Some t \<and> utters s banner t"
proof -
  let ?a = "ascii ''Welcome to the JOS kernel monitor!'' @ [10]"
  let ?b = "ascii ''Type '' @ [39] @ ascii ''help'' @ [39] @ ascii '' for a list of commands.'' @ [10]"
  have r: "render ?a 0 [] = Some (map ucast ?a)" "render ?b 0 [] = Some (map ucast ?b)"
    by (simp_all add: render_eval split del: if_split)
  have "string_args (crt_buf u) 4000 (mem u) [] []" for u :: "'a con_scheme" by (simp add: string_args_def)
  note line = cprintf_prints [OF _ this]
  from line [OF assms r(1), of h] obtain n s1 where s1: "cprintf h ?a [] s = Some (n, s1)" "prints s (map ucast ?a) s1" by blast
  then have "con_ok s1" by (simp only: prints_def)
  from line [OF this r(2), of h] obtain n' t where t: "cprintf h ?b [] s1 = Some (n', t)" "prints s1 (map ucast ?b) t" by blast
  have "monitor_banner h s = Some t" unfolding monitor_banner_def s1(1) t(1) bind.bind_lunit prod.case ..
  moreover have "utters s banner t"
    using prints_utters [OF prints_trans [OF s1(2) t(2)]] by (simp only: banner_def map_append append_assoc)
  ultimately show ?thesis by blast
qed

section \<open>From the entry point to the end of a session\<close>

text \<open>
  \<open>i386_init\<close>, stopped \<open>n\<close> steps after the first call of \<open>monitor\<close>: the endless loop at its end calls
  \<open>monitor\<close> again whenever it returns.
\<close>

definition kernel_run :: "hw \<Rightarrow> linkmap \<Rightarrow> 'a kst_scheme \<Rightarrow> nat \<Rightarrow> 'a kst_scheme control option" where
  "kernel_run h lk s n = do { s1 \<leftarrow> i386_start h lk s; monitor_steps h lk 0 n (Calling s1) }"

text \<open>
  C4: the kernel as it stands, from its C entry point with a terminal on the serial line: the first byte
  that the terminal sends is lost in \<open>serial_init\<close>; then the kernel prints the octal line, the memory it
  found, the message of the panic and the monitor's welcome, answers the lines that were typed one by
  one, and after the last of them all input is consumed.
\<close>

theorem kernel_session:
  assumes "serial_script h (b # concat (map (\<lambda>ks. ks @ [13]) lines))" and "rx_reads (io_log s0) = 0"
    and "cons_init h (clear_bss lk s0) = Some s" and "serial_exists s" and "line_place (sym_line_buf lk) s"
    and "list_all keys_ok lines" and "length (concat (map (\<lambda>ks. ks @ [13]) lines)) \<le> 511" and "cmos_ram h rom"
  shows "\<exists>t. kernel_run h lk s0 (Suc (length lines)) = Some (Looping t)
    \<and> says s (boot_text (cmos_sizes rom) @ banner @ concat (map (transcript lk) lines)) t
    \<and> unread (b # concat (map (\<lambda>ks. ks @ [13]) lines)) t = []"
proof -
  let ?keys = "concat (map (\<lambda>ks. ks @ [13]) lines)"
  note start = cons_init_start [OF assms(3)]
  have con: "con_ok s" using assms(5) by (simp add: line_place_def)
  have "0 \<notin> set ?keys" using assms(6) by (auto simp: list_all_iff keys_ok_def)
  then have s: "unread (b # ?keys) s = ?keys" "input_ok (b # ?keys) s"
    using start(1-3) assms(2,4,7) by (simp_all add: unread_def incoming_def input_ok_def)
  from boot_run [OF assms(3) con assms(8)] obtain t
    where t: "i386_start h lk s0 = Some t" "utters s (boot_text (cmos_sizes rom)) t" by blast
  then have "con_ok t" by (simp add: utters_def says_def)
  from banner_says [OF this, of h] obtain u where u: "monitor_banner h t = Some u" "utters t banner u" by blast
  note su = utters_trans [OF t(2) u(2)]
  then have "unread (b # ?keys) u = ?keys" "input_ok (b # ?keys) u"
    using unread_kept [of u s "b # ?keys"] s by (simp_all add: utters_def)
  moreover have "line_place (sym_line_buf lk) u"
    using su assms(5) by (simp add: utters_def says_def line_place_def)
  ultimately obtain v where v: "monitor_steps h lk 0 (length lines) (Looping u) = Some (Looping v)"
      "says u (concat (map (transcript lk) lines)) v" "unread (b # ?keys) v = []"
    using script_session [OF assms(1) _ _ _ assms(6), of lk u 0] by blast
  have "kernel_run h lk s0 (Suc (length lines)) = Some (Looping v)" using t(1) u(1) v(1) by (simp add: kernel_run_def)
  moreover have "says s (boot_text (cmos_sizes rom) @ banner @ concat (map (transcript lk) lines)) v"
    using says_trans [OF _ v(2), of s "boot_text (cmos_sizes rom) @ banner"] su by (simp add: utters_def)
  ultimately show ?thesis using v(3) by blast
qed

text \<open>A machine whose terminal sends \<open>x\<close>, \<open>h\<close>, \<open>i\<close> and a carriage return.\<close>

definition script_hw :: "u8 list \<Rightarrow> hw" where
  "script_hw bs = demo_hw\<lparr>hw_in8 := (\<lambda>l p.
     if p = 0x3FD then (if rx_reads l < length bs then 0x21 else 0x20)
     else if p = 0x3F8 then (if rx_reads l < length bs then bs ! rx_reads l else 0) else 0)\<rparr>"

lemma script_hw_ok: "serial_script (script_hw bs) bs"
  by (simp add: serial_script_def script_hw_def)

theorem kernel_session_witness:
  "\<exists>t. kernel_run (script_hw [120, 104, 105, 13]) line_link (demo_kst (\<lambda>_. 0) 0 0 0) 2 = Some (Looping t)
    \<and> (\<exists>xs. sent 0x3F8 (io_log t) = xs @ ascii ''K> hi'' @ [10] @ ascii ''Unknown command '' @ [39] @ ascii ''hi'' @ [39, 10])"
proof -
  let ?h = "script_hw [120, 104, 105, 13]" and ?off = "demo_kst (\<lambda>_. 0) 0 0 0"
  let ?s = "serial_init ?h (cga_init ?h (clear_bss line_link ?off))"
  have port: "serial_exists ?s"
    by (simp add: serial_init_def inb_def outb_def log_event_def script_hw_def Let_def)
  have "crt_pos ?s = 0" "addr_6845 ?s = CGA_BASE" "crt_buf ?s = KERNBASE + CGA_BUF"
    by (simp_all add: cga_init_def serial_init_def inb_def outb_def log_event_def script_hw_def demo_hw_def Let_def
        cell16.load_store)
  then have place: "line_place (sym_line_buf line_link) ?s"
    by (simp add: line_place_def con_ok_def line_link_def disjoint_rng_def)
  have init: "cons_init ?h (clear_bss line_link ?off) = Some ?s" using port by (simp add: cons_init_def kbd_init_def Let_def)
  have "serial_script ?h (120 # concat (map (\<lambda>ks. ks @ [13]) [[104, 105]]))" using script_hw_ok by simp
  moreover have "rx_reads (io_log ?off) = 0" "list_all keys_ok [[104, 105]]"
      "length (concat (map (\<lambda>ks. ks @ [13 :: u8]) [[104, 105]])) \<le> 511"
    by (simp_all add: keys_ok_def newline_def)
  moreover have "cmos_ram ?h (\<lambda>_. 0)" by (simp add: cmos_ram_def script_hw_def)
  ultimately obtain t where "kernel_run ?h line_link ?off 2 = Some (Looping t)"
      "says ?s (boot_text (cmos_sizes (\<lambda>_. 0)) @ banner @ transcript line_link [104, 105]) t"
    using kernel_session [OF _ _ init port place, of 120 "[[104, 105]]"]
    by (auto simp: numeral_2_eq_2)
  moreover have "transcript line_link [104, 105]
      = map ucast (ascii ''K> hi'' @ [10] @ ascii ''Unknown command '' @ [39] @ ascii ''hi'' @ [39, 10])"
    by (simp add: transcript_def typed_line_def edit_key_def key_echo_def word_sle_eq answer_def words.simps ws_def)
  ultimately show ?thesis by (auto simp: says_def serial_bytes_def)
qed

end
