(* ===== verification/Console_Types.thy ===== *)
theory Console_Types
  imports Keyboard_Props
begin

text \<open>
  The types of the console driver's variables: the ranges that every entry point of kern/console.c
  relies on and keeps, whatever the devices do.  The C types are wider (a 16-bit cursor, 32-bit
  positions and modifier state), and nothing in the code tests the ranges: the indices into the
  display, the ring and the four scan-code tables are in bounds because of them.
\<close>

section \<open>Well-formed console states\<close>

definition console_ok :: "'a con_scheme \<Rightarrow> bool" where
  "console_ok s \<longleftrightarrow> con_ok s \<and> ring_ok s \<and> kbd_shift s < 0x80"

lemma console_okD: "console_ok s \<Longrightarrow> con_ok s" "console_ok s \<Longrightarrow> ring_ok s" "console_ok s \<Longrightarrow> kbd_shift s < 0x80"
  by (simp_all add: console_ok_def)

lemma console_ok_keep:
  "console_ok s \<Longrightarrow> con_ok s1 \<Longrightarrow> ring_state s1 = ring_state s \<Longrightarrow> kbd_shift s1 < 0x80 \<Longrightarrow> console_ok s1"
  using ring_state_eq [of s1 s] by (simp add: console_ok_def)

lemma put_char_console_ok: "console_ok s \<Longrightarrow> console_ok (put_char c s)"
  by (simp add: console_ok_def put_char_con_ok put_char_ok) (simp add: put_char_def Let_def)

section \<open>The types of the decoder\<close>

text \<open>The modifier state is seven bits: the flags from \<open>SHIFT\<close> to \<open>E0ESC\<close>.\<close>

lemma seven_bits: "(w :: u32) < 0x80 \<longleftrightarrow> take_bit 7 w = w"
  by (simp add: take_bit_eq_mod word_less_nat_alt word_unat_eq_iff unat_mod mod_eq_self_iff_div_eq_0 div_eq_0_iff)

lemma seven_ops:
  "(a :: u32) < 0x80 \<Longrightarrow> a AND b < 0x80"
  "a < 0x80 \<Longrightarrow> b < 0x80 \<Longrightarrow> a OR b < 0x80"
  "a < 0x80 \<Longrightarrow> b < 0x80 \<Longrightarrow> a XOR b < 0x80"
proof -
  show "a < 0x80 \<Longrightarrow> b < 0x80 \<Longrightarrow> a OR b < 0x80" "a < 0x80 \<Longrightarrow> b < 0x80 \<Longrightarrow> a XOR b < 0x80"
    unfolding seven_bits by simp_all
  assume "a < 0x80"
  then have "a = take_bit 7 a" unfolding seven_bits ..
  then have "a AND b = take_bit 7 a AND b" by (rule arg_cong)
  also have "\<dots> = take_bit 7 (a AND b)" by (simp only: take_bit_eq_mask ac_simps)
  finally show "a AND b < 0x80" unfolding seven_bits ..
qed

lemma flag_codes: "(ucast (shiftcode d) :: u32) < 0x80" "(ucast (togglecode d) :: u32) < 0x80"
  by (auto simp: shiftcode_def togglecode_def table_def split: option.splits dest!: map_of_SomeD)

lemma flag_or: "(ucast (x OR E0ESC) :: u32) = ucast x OR 0x40"
  by (simp add: unsigned_or_eq)

lemma decode_shift: "shift < 0x80 \<Longrightarrow> fst (kbd_decode shift data) < 0x80"
  by (auto simp: kbd_decode_def Let_def intro!: seven_ops flag_codes split: prod.split)

lemma unat_ucast8 [simp]: "unat (ucast (x :: u8) :: u32) = unat x"
  by (simp add: unsigned_ucast_eq take_bit_nat_eq_self less_trans [OF unsigned_less])

lemma unat_lt8: "unat (x :: u8) < 256"
  using unsigned_less [of x, where 'a = nat] by simp

lemma caps_swap_byte: "unat (caps_swap shift (ucast (b :: u8))) < 256"
proof -
  have le: "int k \<le> uint b \<longleftrightarrow> k \<le> unat b" "uint b \<le> int k \<longleftrightarrow> unat b \<le> k" for k
    by (simp_all only: uint_nat of_nat_le_iff)
  show ?thesis
    using unat_lt8 [of b] le(1) [of 65] le(2) [of 90] le(1) [of 97] le(2) [of 122]
    by (auto simp: caps_swap_def word_sle_eq sint_ucast8 unat_plus32 unat_diff32)
qed

lemma decode_char: "unat (snd (kbd_decode shift data)) < 256"
  using caps_swap_byte by (auto simp: kbd_decode_def Let_def split: prod.split)

section \<open>Devices\<close>

text \<open>A device routine gives -1, or a byte, and leaves the modifier state in its type.\<close>

locale typed_device = input_device +
  assumes typed: "console_ok s \<Longrightarrow> proc s = Some (c, s1) \<Longrightarrow> (c = - 1 \<or> unat c < 256) \<and> kbd_shift s1 < 0x80"
begin

lemma poll_ok: "console_ok s \<Longrightarrow> proc s = Some (c, s1) \<Longrightarrow> console_ok s1 \<and> same_outside s s1"
  using poll_keeps [of s c s1] typed [of s c s1] console_ok_keep [of s s1] by (simp add: console_ok_def)

lemma feed_ok: "feed proc s cs s' \<Longrightarrow> console_ok s \<Longrightarrow> console_ok s' \<and> (\<forall>c\<in>set cs. unat c < 256)"
proof (induction rule: feed.induct)
  case (stop s s1)
  then show ?case using poll_ok [of s "- 1" s1] by simp
next
  case (skip s s1 cs s')
  then show ?case using poll_ok [of s 0 s1] by simp
next
  case (char s c s1 cs s')
  then have "console_ok (put_char c s1)" "unat c < 256"
    using poll_ok [of s c s1] typed [of s c s1] put_char_console_ok by auto
  with char.IH show ?case by simp
qed

lemma intr_ok: "cons_intr proc s = Some s' \<Longrightarrow> console_ok s \<Longrightarrow> console_ok s' \<and> same_outside s s'"
  using cons_intr_feed [of proc s s'] feed_ok intr_keeps [of s s'] console_okD(1) by blast

end

interpretation serial: typed_device "serial_proc_data h" for h
proof
  fix s s1 :: "'a con_scheme" and c
  assume "console_ok s" and "serial_proc_data h s = Some (c, s1)"
  then show "(c = - 1 \<or> unat c < 256) \<and> kbd_shift s1 < 0x80"
    by (auto simp: serial_proc_data_def inb_def Let_def log_event_def console_ok_def unat_lt8 split: if_splits)
qed

interpretation kbd: typed_device "kbd_proc_data h" for h
proof
  fix s s1 :: "'a con_scheme" and c
  assume ok: "console_ok s" and p: "kbd_proc_data h s = Some (c, s1)"
  obtain stat data where io: "inb h KBSTATP s = (stat, log_event (EIn8 (ucast KBSTATP) stat) s)"
      "inb h KBDATAP (log_event (EIn8 (ucast KBSTATP) stat) s) =
        (data, log_event (EIn8 (ucast KBDATAP) data) (log_event (EIn8 (ucast KBSTATP) stat) s))"
    by (simp add: inb_def Let_def)
  let ?s2 = "log_event (EIn8 (ucast KBDATAP) data) (log_event (EIn8 (ucast KBSTATP) stat) s)"
  obtain shift d where dec: "kbd_decode (kbd_shift s) data = (shift, d)" by fastforce
  have t: "shift < 0x80" "unat d < 256"
    using decode_shift [OF console_okD(3) [OF ok], of data] decode_char [of "kbd_shift s" data] dec by simp_all
  have "con_ok (?s2\<lparr>kbd_shift := shift\<rparr>)" using console_okD(1) [OF ok] by (simp add: log_event_def con_ok_def)
  from reboot_message [OF this, of h] obtain n s4
    where "cprintf h (ascii ''Rebooting!'' @ [10]) [] (?s2\<lparr>kbd_shift := shift\<rparr>) = Some (n, s4)"
      "input_state s4 = input_state (?s2\<lparr>kbd_shift := shift\<rparr>)"
    by auto
  moreover have "kbd_shift ?s2 = kbd_shift s" by (simp add: log_event_def)
  ultimately show "(c = - 1 \<or> unat c < 256) \<and> kbd_shift s1 < 0x80"
    using p ok t unfolding kbd_proc_data_def io Let_def prod.case dec
    by (auto simp: dec console_ok_def input_state_def log_event_def outb_def split: if_splits)
qed

section \<open>Runs of the driver\<close>

text \<open>The entry points of the driver, in any order; the result is what the C function returns, if anything.\<close>

datatype console_call = Cputchar i32 | Serial_intr | Kbd_intr | Cons_getc | Getchar

fun run_call :: "hw \<Rightarrow> console_call \<Rightarrow> 'a con_scheme \<Rightarrow> (i32 \<times> 'a con_scheme) option" where
  "run_call h (Cputchar c) s = Some (0, cputchar h c s)"
| "run_call h Serial_intr s = map_option (Pair 0) (serial_intr h s)"
| "run_call h Kbd_intr s = map_option (Pair 0) (kbd_intr h s)"
| "run_call h Cons_getc s = cons_getc h s"
| "run_call h Getchar s = getchar h s"

fun run_calls :: "hw \<Rightarrow> console_call list \<Rightarrow> 'a con_scheme \<Rightarrow> (i32 list \<times> 'a con_scheme) option" where
  "run_calls h [] s = Some ([], s)"
| "run_calls h (k # ks) s =
     do { (r, s1) \<leftarrow> run_call h k s; (rs, s2) \<leftarrow> run_calls h ks s1; Some (r # rs, s2) }"

fun_cases run_call_cases:
  "run_call h (Cputchar c) s = Some r" "run_call h Serial_intr s = Some r"
  "run_call h Kbd_intr s = Some r" "run_call h Cons_getc s = Some r" "run_call h Getchar s = Some r"

definition keeps :: "'a con_scheme \<Rightarrow> i32 \<times> 'a con_scheme \<Rightarrow> bool" where
  "keeps s r \<longleftrightarrow> console_ok (snd r) \<and> same_outside s (snd r) \<and> unat (fst r) < 256"

lemma keeps_trans: "keeps s (c, s1) \<Longrightarrow> keeps s1 (d, s2) \<Longrightarrow> keeps s (d, s2)"
  by (auto simp: keeps_def intro: same_outside_trans)

lemma cputchar_keeps_types: "console_ok s \<Longrightarrow> keeps s (0, cputchar h c s)"
proof -
  assume ok: "console_ok s"
  note r = cons_putc_run [OF console_okD(1) [OF ok], of h c]
  have "input_state (cons_putc h c s) = input_state s" by (rule out_only_input) (rule cons_putc_out_only)
  then show ?thesis using r ok by (simp add: keeps_def cputchar_def console_ok_def input_state_def ring_ok_def)
qed

lemma intr_keeps_types:
  "serial_intr h s = Some s' \<Longrightarrow> console_ok s \<Longrightarrow> keeps s (0, s')"
  "kbd_intr h s = Some s' \<Longrightarrow> console_ok s \<Longrightarrow> keeps s (0, s')"
  using serial.intr_ok [of h s s'] kbd.intr_ok [of h s s']
  by (auto simp: keeps_def serial_intr_def kbd_intr_def same_outside_refl split: if_splits)

lemma next_position: "unat r < 512 \<Longrightarrow> r \<noteq> 511 \<Longrightarrow> unat (r + 1 :: u32) < 512"
  by (auto simp: unat_plus32 word_unat_eq_iff)

lemma get_char_typed: "console_ok s \<Longrightarrow> keeps s (get_char s)"
  by (auto simp: keeps_def console_ok_def get_char_def con_ok_def ring_ok_def same_outside_def Let_def unat_lt8 next_position)

lemma cons_getc_typed: "cons_getc h s = Some r \<Longrightarrow> console_ok s \<Longrightarrow> keeps s r"
proof -
  assume g: "cons_getc h s = Some r" and ok: "console_ok s"
  from g obtain s1 s2 where s: "serial_intr h s = Some s1" "kbd_intr h s1 = Some s2" "r = get_char s2"
    by (auto simp: cons_getc_def split: Option.bind_splits)
  have k1: "keeps s (0, s1)" by (rule intr_keeps_types(1) [OF s(1) ok])
  then have k2: "keeps s1 (0, s2)" using intr_keeps_types(2) [OF s(2)] by (simp add: keeps_def)
  then have "keeps s2 r" using get_char_typed [of s2] s(3) by (simp add: keeps_def)
  with keeps_trans [OF k1 k2] keeps_trans show ?thesis by (cases r) blast
qed

lemma getchar_typed: "getchar h s = Some r \<Longrightarrow> console_ok s \<Longrightarrow> keeps s r \<and> fst r \<noteq> 0"
proof -
  assume g: "getchar h s = Some r" and ok: "console_ok s"
  let ?P = "\<lambda>t. keeps s (0, t)"
  have "?P s" using ok by (simp add: keeps_def same_outside_refl)
  moreover have "?P t1" if "?P t" "cons_getc h t = Some (c, t1)" for t c t1
    using cons_getc_typed [OF that(2)] that(1) same_outside_trans by (auto simp: keeps_def)
  ultimately obtain t where "?P t" "cons_getc h t = Some r" "fst r \<noteq> 0"
    using getchar_polls [OF g, of ?P] by blast
  then show ?thesis using cons_getc_typed [of h t r] keeps_trans [of s 0 t "fst r" "snd r"] by (simp add: keeps_def)
qed

lemma run_call_typed: "run_call h k s = Some r \<Longrightarrow> console_ok s \<Longrightarrow> keeps s r"
  by (cases k) (auto elim!: run_call_cases intro: cputchar_keeps_types intr_keeps_types cons_getc_typed
      dest: getchar_typed)

lemma run_calls_typed:
  "run_calls h ks s = Some (rs, t) \<Longrightarrow> console_ok s \<Longrightarrow> keeps s (0, t) \<and> (\<forall>r\<in>set rs. unat r < 256)"
proof (induction ks arbitrary: s rs)
  case Nil
  then show ?case by (simp add: keeps_def same_outside_refl)
next
  case (Cons k ks)
  then obtain r s1 rs' where s1: "run_call h k s = Some (r, s1)" "run_calls h ks s1 = Some (rs', t)" "rs = r # rs'"
    by (auto split: Option.bind_splits)
  from run_call_typed [OF s1(1) Cons.prems(2)] have k: "keeps s (r, s1)" .
  then have "keeps s1 (0, t) \<and> (\<forall>r\<in>set rs'. unat r < 256)"
    using Cons.IH [OF s1(2)] by (simp add: keeps_def)
  with k s1(3) keeps_trans [OF k] show ?case by (auto simp: keeps_def)
qed

text \<open>
  C18: the driver is well typed.  From a well-formed console every sequence of calls of its entry
  points that returns leaves a well-formed console: the cursor on the screen, the ring positions below
  512, the modifier state within seven bits, so that the scan-code table it selects exists; only the
  display window is written, and what the calls return are bytes.  And there it does not get stuck: each
  poll of the serial port or the keyboard returns, with -1 or a byte, and \<open>cons_getc\<close> returns when both
  devices run dry.  (\<open>getchar\<close> also waits for a character, for ever if there is none.)
\<close>

theorem console_type_sound:
  assumes "console_ok s" and "run_calls h ks s = Some (rs, t)"
  shows "console_ok t \<and> same_outside s t \<and> (\<forall>r\<in>set rs. unat r < 256)
    \<and> unat (kbd_shift t AND ucast (CTL OR SHIFT)) < length charcode
    \<and> (\<exists>c u. serial_proc_data h t = Some (c, u) \<and> (c = - 1 \<or> unat c < 256))
    \<and> (\<exists>c u. kbd_proc_data h t = Some (c, u) \<and> (c = - 1 \<or> unat c < 256))
    \<and> (\<forall>cs ds u v. feed (serial_proc_data h) t cs u \<and> serial_exists t \<and> feed (kbd_proc_data h) u ds v
         \<longrightarrow> (\<exists>c w. run_call h Cons_getc t = Some (c, w)))"
proof -
  have "kbd_shift t AND 3 \<le> 3" by (rule word_and_le1)
  then have index: "unat (kbd_shift t AND 3) \<le> 3" by (simp add: word_le_nat_alt)
  have kept: "keeps s (0, t)" "\<forall>r\<in>set rs. unat r < 256" using run_calls_typed [OF assms(2,1)] by simp_all
  then have t: "console_ok t" by (simp add: keeps_def)
  have "\<exists>c u. serial_proc_data h t = Some (c, u) \<and> (c = - 1 \<or> unat c < 256)"
    using serial.polls [OF console_okD(1) [OF t], of h] serial.typed [OF t, of h] by blast
  moreover have "\<exists>c u. kbd_proc_data h t = Some (c, u) \<and> (c = - 1 \<or> unat c < 256)"
    using kbd.polls [OF console_okD(1) [OF t], of h] kbd.typed [OF t, of h] by blast
  moreover have "\<exists>c w. cons_getc h t = Some (c, w)"
    if "feed (serial_proc_data h) t cs u" "serial_exists t" "feed (kbd_proc_data h) u ds v" for cs ds u v
    using that(2) feed_cons_intr [OF that(1)] feed_cons_intr [OF that(3)]
    by (simp add: cons_getc_def serial_intr_def kbd_intr_def)
  ultimately show ?thesis using kept index by (auto simp: keeps_def charcode_def)
qed

lemma demo_dry:
  "\<exists>l. serial_intr demo_hw s = Some (s\<lparr>io_log := l\<rparr>)" "\<exists>l. kbd_intr demo_hw s = Some (s\<lparr>io_log := l\<rparr>)"
  by (auto simp: serial_intr_def kbd_intr_def serial_proc_data_def kbd_proc_data_def inb_def log_event_def
      demo_hw_def Let_def cons_intr.simps intro: exI [of _ "io_log s"])

theorem console_type_sound_witness:
  "\<exists>rs t. run_calls demo_hw [Cputchar 65, Serial_intr, Kbd_intr, Cputchar 9, Cons_getc] (demo_con (\<lambda>_. 0)) = Some (rs, t)
    \<and> console_ok t \<and> (\<forall>r\<in>set rs. unat r < 256)"
proof -
  have ok: "console_ok (demo_con (\<lambda>_. 0))"
    using demo_con_ok [of "\<lambda>_. 0"] by (simp add: console_ok_def) (simp add: demo_con_def)
  have one: "\<exists>r t. run_call demo_hw k s = Some (r, t)" if "k \<noteq> Getchar" for k and s :: con
  proof -
    obtain l where l: "serial_intr demo_hw s = Some (s\<lparr>io_log := l\<rparr>)" using demo_dry(1) by blast
    moreover obtain l' where "kbd_intr demo_hw (s\<lparr>io_log := l\<rparr>) = Some (s\<lparr>io_log := l'\<rparr>)"
      using demo_dry(2) [of "s\<lparr>io_log := l\<rparr>"] by auto
    ultimately show ?thesis using that demo_dry(2) [of s] by (cases k) (auto simp: cons_getc_def)
  qed
  have many: "\<exists>rs t. run_calls demo_hw ks s = Some (rs, t)" if "Getchar \<notin> set ks" for ks and s :: con
    using that
  proof (induction ks arbitrary: s)
    case (Cons k ks)
    obtain r s1 where "run_call demo_hw k s = Some (r, s1)" using one [of k s] Cons.prems by auto
    moreover obtain rs t where "run_calls demo_hw ks s1 = Some (rs, t)" using Cons.IH [of s1] Cons.prems by auto
    ultimately show ?case by simp
  qed simp
  obtain rs t where "run_calls demo_hw [Cputchar 65, Serial_intr, Kbd_intr, Cputchar 9, Cons_getc]
      (demo_con (\<lambda>_. 0)) = Some (rs, t)"
    using many [of "[Cputchar 65, Serial_intr, Kbd_intr, Cputchar 9, Cons_getc]" "demo_con (\<lambda>_. 0)"] by (auto simp del: run_calls.simps)
  with console_type_sound [OF ok this] show ?thesis by blast
qed

end
