(* ===== verification/Kern_Pgdir.thy ===== *)
theory Kern_Pgdir
  imports Pmap_Instances
begin

text \<open>
  What \<open>check_kern_pgdir\<close> of kern/pmap.c establishes.  The function samples one address of each
  page through \<open>check_va2pa\<close>; the specification is the address space itself, every byte of it, as
  the processor's walk of the two-level tables gives it.
\<close>

section \<open>The walk of the processor\<close>

text \<open>
  \<open>No_table\<close>: the directory entry points to a page table that is not in the physical memory the
  kernel has mapped from KERNBASE on.
\<close>

datatype walk = Unmapped | No_table | Phys u32

definition translate :: "u32 \<Rightarrow> 'a kst_scheme \<Rightarrow> u32 \<Rightarrow> walk" where
  "translate dir s va =
     (let pde = load32 (mem s) (dir + 4 * PDX va) in
      if pde AND PTE_P = 0 then Unmapped
      else if pde AND PTE_PS \<noteq> 0 then Phys (PGADDR (PDX pde) (PTX va) (PGOFF va))
      else if npages s \<le> PGNUM (PTE_ADDR pde) then No_table
      else let pte = load32 (mem s) (PTE_ADDR pde + KERNBASE + 4 * PTX va)
           in if pte AND PTE_P = 0 then Unmapped else Phys (PTE_ADDR pte + PGOFF va))"

text \<open>\<open>n\<close> bytes from \<open>va\<close> on are the \<open>n\<close> bytes of physical memory from \<open>pa\<close> on.\<close>

definition maps :: "u32 \<Rightarrow> 'a kst_scheme \<Rightarrow> u32 \<Rightarrow> u32 \<Rightarrow> u32 \<Rightarrow> bool" where
  "maps dir s va n pa \<longleftrightarrow> (\<forall>k<n. translate dir s (va + k) = Phys (pa + k))"

text \<open>
  The address space: the array of page structures at UPAGES, physical memory at KERNBASE, the kernel
  stack below it with its guard, and no other directory entries.
\<close>

definition kern_pdes :: "'a kst_scheme \<Rightarrow> bool" where
  "kern_pdes s \<longleftrightarrow> (\<forall>i<1024. let pde = pgd (of_nat i) s in
     if i \<in> {957, 959, 956} then pde AND PTE_P \<noteq> 0
     else if 960 \<le> i then pde AND PTE_P \<noteq> 0 \<and> pde AND PTE_W \<noteq> 0
     else pde = 0)"

definition kern_space :: "linkmap \<Rightarrow> 'a kst_scheme \<Rightarrow> bool" where
  "kern_space lk s \<longleftrightarrow>
     maps (kern_pgdir s) s UPAGES (ROUNDUP (npages s * 8) PGSIZE) (pages s - KERNBASE)
     \<and> maps (kern_pgdir s) s KERNBASE (npages s * PGSIZE) 0
     \<and> maps (kern_pgdir s) s (KSTACKTOP - KSTKSIZE) KSTKSIZE (sym_bootstack lk - KERNBASE)
     \<and> translate (kern_pgdir s) s (KSTACKTOP - PTSIZE) = Unmapped
     \<and> kern_pdes s"

section \<open>Pages\<close>

lemma aligned_PGOFF: "va mod 4096 = 0 \<longleftrightarrow> PGOFF va = 0"
proof -
  have "PGOFF va = va mod 4096"
    using take_bit_eq_mod [of 12 va] take_bit_eq_mask [of 12 va] by (simp add: PGOFF_def mask_eq_exp_minus_1)
  then show ?thesis by simp
qed

lemma aligned_add: "va mod 4096 = 0 \<Longrightarrow> i mod 4096 = 0 \<Longrightarrow> (va + i) mod 4096 = (0 :: u32)"
proof -
  assume "va mod 4096 = 0" "i mod 4096 = 0"
  then have "va = push_bit 12 (PGNUM va)" "i = push_bit 12 (PGNUM i)"
    using PTE_ADDR_PGNUM [of va] PTE_ADDR_PGNUM [of i] by (simp_all add: PTE_ADDR_mod)
  then have "va + i = push_bit 12 (PGNUM va + PGNUM i)" by (metis push_bit_add)
  then show ?thesis by (simp only: push_bit_aligned)
qed

lemma aligned_bits: "va mod 4096 = 0 \<longleftrightarrow> (\<forall>i<12. \<not> bit (va :: u32) i)"
  unfolding aligned_PGOFF
proof
  assume "PGOFF va = 0"
  then show "\<forall>i<12. \<not> bit va i" using addr_bits(4) [of va] by simp
next
  assume "\<forall>i<12. \<not> bit va i"
  then show "PGOFF va = 0" by (intro bit_word_eqI) (simp add: addr_bits(4))
qed

lemma below_page_bits: "off < 4096 \<Longrightarrow> bit (off :: u32) i \<Longrightarrow> i < 12"
proof (rule ccontr)
  assume off: "off < 4096" and b: "bit off i" and "\<not> i < 12"
  have "unat off < 2 ^ 12" using off by (simp add: word_less_nat_alt)
  with bits_below [of off 12 i] b \<open>\<not> i < 12\<close> show False by simp
qed

lemma page_plus_or:
  assumes "va mod 4096 = 0" and "off < (4096 :: u32)"
  shows "va + off = va OR off"
proof (rule disjunctive_add)
  show "\<not> bit va i \<or> \<not> bit off i" for i
    using below_page_bits [OF assms(2), of i] assms(1) unfolding aligned_bits by auto
qed

lemma page_parts:
  assumes "va mod 4096 = 0" and "off < 4096"
  shows "PDX (va + off) = PDX va" "PTX (va + off) = PTX va" "PGOFF (va + off) = off"
proof -
  have high: "\<not> bit off (12 + i)" "\<not> bit off (22 + i)" for i
    using below_page_bits [OF assms(2)] by fastforce+
  have low: "bit off i \<Longrightarrow> i < 12" "i < 12 \<Longrightarrow> \<not> bit va i" for i
    using below_page_bits [OF assms(2)] assms(1) aligned_bits [of va] by auto
  show "PDX (va + off) = PDX va" "PTX (va + off) = PTX va"
    unfolding page_plus_or [OF assms]
    by (rule bit_word_eqI; simp add: addr_bits bit_or_iff high)+
  show "PGOFF (va + off) = off"
    unfolding page_plus_or [OF assms]
    by (rule bit_word_eqI) (use low in \<open>auto simp: addr_bits bit_or_iff\<close>)
qed

lemma PGADDR_aligned: "PGADDR d t 0 mod 4096 = 0"
  unfolding aligned_bits by (auto simp: PGADDR_def bit_simps)

lemma aligned_not_max: "v mod 4096 = 0 \<Longrightarrow> v \<noteq> (NOT 0 :: u32)"
proof
  assume "v mod 4096 = 0" "v = NOT 0"
  moreover from this have "bit v 0" by (simp only: bit_not_iff) simp
  ultimately show False unfolding aligned_bits by (auto dest: spec [of _ 0])
qed

lemma translate_aligned:
  assumes "va mod 4096 = 0" and "translate dir s va = Phys v"
  shows "v mod 4096 = 0"
proof -
  have "PGOFF va = 0" using assms(1) by (simp add: aligned_PGOFF)
  moreover have "PTE_ADDR e mod 4096 = 0" for e by (simp only: PTE_ADDR_PGNUM push_bit_aligned)
  ultimately show ?thesis
    using assms(2) PGADDR_aligned by (auto simp: translate_def Let_def split: if_splits)
qed

lemma translate_offset:
  assumes "va mod 4096 = 0" and "off < 4096"
  shows "translate dir s (va + off) = (case translate dir s va of Phys p \<Rightarrow> Phys (p + off) | w \<Rightarrow> w)"
proof -
  have "PGADDR d t off = PGADDR d t 0 + off" for d t
    using page_plus_or [OF PGADDR_aligned assms(2), of d t] by (simp add: PGADDR_def or.assoc)
  moreover have "PGOFF va = 0" using assms(1) by (simp add: aligned_PGOFF)
  ultimately show ?thesis
    unfolding translate_def Let_def page_parts [OF assms] by auto
qed

text \<open>A run of whole pages is mapped when the first byte of each page is.\<close>

lemma maps_pages:
  assumes "va mod 4096 = 0" and "n mod 4096 = 0"
  shows "maps dir s va n pa \<longleftrightarrow> (\<forall>i<n. i mod 4096 = 0 \<longrightarrow> translate dir s (va + i) = Phys (pa + i))"
proof
  assume pages: "\<forall>i<n. i mod 4096 = 0 \<longrightarrow> translate dir s (va + i) = Phys (pa + i)"
  show "maps dir s va n pa"
    unfolding maps_def
  proof (intro allI impI)
    fix k
    assume k: "k < n"
    have off: "k mod 4096 < 4096" by (simp add: word_less_nat_alt unat_mod)
    have le: "PTE_ADDR k + k mod 4096 = k" by (simp add: PTE_ADDR_mod)
    have al: "PTE_ADDR k mod 4096 = 0" by (simp only: PTE_ADDR_PGNUM push_bit_aligned)
    have "k mod 4096 \<le> k" by (simp add: word_le_nat_alt unat_mod)
    then have "PTE_ADDR k \<le> k" unfolding PTE_ADDR_mod by (rule word_sub_le)
    then have "PTE_ADDR k < n" using k by (rule le_less_trans)
    have t: "translate dir s (va + PTE_ADDR k) = Phys (pa + PTE_ADDR k)" using pages [rule_format, OF \<open>PTE_ADDR k < n\<close> al] .
    have "(va + PTE_ADDR k) mod 4096 = 0"
      using assms(1) al by (rule aligned_add)
    from translate_offset [OF this off, of dir s] t have "translate dir s (va + PTE_ADDR k + k mod 4096) = Phys (pa + PTE_ADDR k + k mod 4096)"
      by (simp only: walk.case)
    then show "translate dir s (va + k) = Phys (pa + k)" by (simp only: add.assoc le)
  qed
qed (simp add: maps_def)

section \<open>Checks that change nothing\<close>

text \<open>The checks of a list of indices, one after the other.\<close>

primrec run_checks :: "('i \<Rightarrow> (unit, 's) kernel) \<Rightarrow> 'i list \<Rightarrow> (unit, 's) kernel" where
  "run_checks check [] s = kreturn () s"
| "run_checks check (i # is) s = kbind (check i s) (\<lambda>_ s. run_checks check is s)"

lemma kfor_run: "kfor a k check s = run_checks check [a..<a + k] s"
  by (induction k arbitrary: a s) (simp_all add: upt_conv_Cons del: upt_Suc)

lemma unat_page_at: "4096 * j < 4294967296 \<Longrightarrow> unat (PGSIZE * of_nat j) = 4096 * j"
  by (simp add: unat_word_ariths unat_of_nat)

lemma page_loop_run:
  assumes "unat n = 4096 * N"
  shows "j \<le> N \<Longrightarrow> page_loop n check (PGSIZE * of_nat j) s = run_checks check (map (\<lambda>j. PGSIZE * of_nat j) [j..<N]) s"
proof (induction "N - j" arbitrary: j s)
  case 0
  then have "j = N" by simp
  moreover have "unat (PGSIZE * of_nat N) = unat n" using assms unat_lt32 [of n] by (subst unat_page_at) simp_all
  then have "PGSIZE * of_nat N = n" by (simp only: word_unat_eq_iff)
  ultimately show ?case by (subst page_loop.simps) simp
next
  case (Suc d)
  then have j: "j < N" by simp
  have "4096 * j < 4294967296" using j assms unat_lt32 [of n] by simp
  then have "unat (PGSIZE * of_nat j) = 4096 * j" by (rule unat_page_at)
  then have "PGSIZE * of_nat j < n" using j assms by (simp add: word_less_nat_alt)
  moreover have "PGSIZE * of_nat j + PGSIZE = PGSIZE * of_nat (Suc j)" by (simp add: algebra_simps)
  moreover have "page_loop n check (PGSIZE * of_nat (Suc j)) = run_checks check (map (\<lambda>j. PGSIZE * of_nat j) [Suc j..<N])"
    using Suc(1) [of "Suc j"] Suc(2) j by (intro ext) simp
  ultimately show ?case
    using j by (subst page_loop.simps) (simp add: upt_conv_Cons del: upt_Suc PGSIZE_def of_nat_Suc)
qed

definition pure_at :: "'s \<Rightarrow> ('v, 's) kres option \<Rightarrow> bool" where
  "pure_at s c \<longleftrightarrow> (\<exists>v. c = Some (Ret v s)) \<or> (\<exists>p. c = Some (Panic p s))"

lemma pure_at_intros:
  "pure_at s (passert line x expr s)" "pure_at s (PADDR f l a s)"
  "pure_at s c \<Longrightarrow> (\<And>v. pure_at s (k v s)) \<Longrightarrow> pure_at s (kbind c k)"
proof -
  show "pure_at s (passert line x expr s)"
    by (cases x) (simp_all add: pure_at_def passert_def kassert_def kreturn_def kpanic_def)
  show "pure_at s (PADDR f l a s)"
    by (cases "a < KERNBASE") (simp_all add: pure_at_def PADDR_def kreturn_def kpanic_def)
  assume c: "pure_at s c" and k: "\<And>v. pure_at s (k v s)"
  from c consider v where "c = Some (Ret v s)" | p where "c = Some (Panic p s)" by (auto simp: pure_at_def)
  then show "pure_at s (kbind c k)" by cases (simp_all add: k, simp add: pure_at_def)
qed

text \<open>
  A computation that returns, in a state with \<open>T\<close>, where \<open>P\<close> holds and panics where it does not;
  \<open>decides\<close> also keeps the state.
\<close>

definition verdict :: "('v, 's) kres option \<Rightarrow> bool \<Rightarrow> ('s \<Rightarrow> bool) \<Rightarrow> bool" where
  "verdict c P T \<longleftrightarrow> (if P then \<exists>r t. c = Some (Ret r t) \<and> T t else \<exists>p t. c = Some (Panic p t))"

definition decides :: "'s \<Rightarrow> ('v, 's) kres option \<Rightarrow> bool \<Rightarrow> bool" where
  "decides s c P \<longleftrightarrow> (if P then \<exists>v. c = Some (Ret v s) else \<exists>p. c = Some (Panic p s))"

lemma verdict_kbind:
  assumes c: "decides s c P" and k: "\<And>v. verdict (k v s) Q T"
  shows "verdict (kbind c k) (P \<and> Q) T"
proof (cases P)
  case True
  with c obtain v where "c = Some (Ret v s)" by (auto simp: decides_def)
  then show ?thesis using True k [of v] by simp
next
  case False
  with c show ?thesis by (auto simp: decides_def verdict_def)
qed

lemma verdict_last: "decides s c P \<Longrightarrow> (\<And>v. verdict (k v s) True T) \<Longrightarrow> verdict (kbind c k) P T"
  using verdict_kbind [of s c P k True T] by simp

lemma verdict_then:
  assumes c: "verdict c P S" and k: "\<And>r t. S t \<Longrightarrow> verdict (k r t) Q T"
  shows "verdict (kbind c k) (P \<and> Q) T"
proof (cases P)
  case True
  with c obtain r t where "c = Some (Ret r t)" "S t" by (auto simp: verdict_def)
  then show ?thesis using True k [of t r] by simp
next
  case False
  with c show ?thesis by (auto simp: verdict_def)
qed

locale pure_check =
  fixes check :: "'i \<Rightarrow> (unit, 's) kernel"
  assumes pure: "pure_at s (check i s)"
begin

lemma run_checks_decides:
  "decides s (run_checks check is s) (\<forall>i\<in>set is. check i s = Some (Ret () s))"
proof (induction "is")
  case (Cons i "is")
  from pure [of s i] consider "check i s = Some (Ret () s)" | p where "check i s = Some (Panic p s)"
    by (auto simp: pure_at_def)
  then show ?case
  proof cases
    case 1
    with Cons.IH show ?thesis by simp
  qed (simp add: decides_def)
qed (simp add: kreturn_def decides_def)

end

lemma kfor_decides:
  assumes "pure_check check"
  shows "decides s (kfor a k check s) (\<forall>i. a \<le> i \<and> i < a + k \<longrightarrow> check i s = Some (Ret () s))"
proof -
  have "(\<forall>i\<in>set [a..<a + k]. check i s = Some (Ret () s)) \<longleftrightarrow> (\<forall>i. a \<le> i \<and> i < a + k \<longrightarrow> check i s = Some (Ret () s))"
    by auto
  with pure_check.run_checks_decides [OF assms, of s "[a..<a + k]"] show ?thesis by (simp only: kfor_run)
qed

lemma whole_pages: "n mod 4096 = 0 \<Longrightarrow> unat (n :: u32) = 4096 * (unat n div 4096)"
proof -
  assume "n mod 4096 = 0"
  then have "unat (n mod 4096) = unat (0 :: u32)" by (rule arg_cong)
  moreover have "unat (4096 :: u32) = 4096" by simp
  ultimately have "unat n mod 4096 = 0" by (simp only: unat_mod unsigned_0)
  then show ?thesis using mult_div_mod_eq [of 4096 "unat n"] by linarith
qed

lemma page_indices:
  assumes "n mod 4096 = (0 :: u32)"
  shows "(\<lambda>j. PGSIZE * of_nat j) ` {0..<unat n div 4096} = {i. i < n \<and> i mod 4096 = 0}"
proof (intro set_eqI iffI)
  note n = whole_pages [OF assms]
  fix i
  {
    assume "i \<in> (\<lambda>j. PGSIZE * of_nat j) ` {0..<unat n div 4096}"
    then obtain j where j: "i = PGSIZE * of_nat j" "4096 * j < unat n" using n by auto
    then have "unat i = 4096 * j" using unat_lt32 [of n] unat_page_at [of j] by simp
    then show "i \<in> {i. i < n \<and> i mod 4096 = 0}"
      using j(2) by (simp add: word_less_nat_alt word_unat_eq_iff unat_mod)
  next
    assume "i \<in> {i. i < n \<and> i mod 4096 = 0}"
    then have i: "unat i < unat n" "i mod 4096 = 0" by (simp_all add: word_less_nat_alt)
    then have "unat (PGSIZE * of_nat (unat i div 4096)) = unat i"
      using whole_pages [OF i(2)] unat_lt32 [of i] unat_page_at [of "unat i div 4096"] by simp
    then have "i = PGSIZE * of_nat (unat i div 4096)" by (simp only: word_unat_eq_iff)
    moreover have "unat i div 4096 < unat n div 4096" using i(1) n whole_pages [OF i(2)] by linarith
    ultimately show "i \<in> (\<lambda>j. PGSIZE * of_nat j) ` {0..<unat n div 4096}" by auto
  }
qed

lemma maps_by_pages:
  assumes "va mod 4096 = 0" and "n mod 4096 = 0"
  shows "maps dir s va n pa \<longleftrightarrow>
    (\<forall>j\<in>set [0..<unat n div 4096]. translate dir s (va + PGSIZE * of_nat j) = Phys (pa + PGSIZE * of_nat j))"
proof -
  have "maps dir s va n pa \<longleftrightarrow> (\<forall>i\<in>{i. i < n \<and> i mod 4096 = 0}. translate dir s (va + i) = Phys (pa + i))"
    by (simp only: maps_pages [OF assms] mem_Collect_eq Ball_def imp_conjL)
  then show ?thesis by (simp only: page_indices [OF assms(2), symmetric] ball_simps set_upt)
qed

lemma page_loop_decides:
  assumes pure: "pure_check check" and n: "n mod 4096 = 0"
  shows "decides s (page_loop n check 0 s) (\<forall>i<n. i mod 4096 = 0 \<longrightarrow> check i s = Some (Ret () s))"
proof -
  let ?at = "map (\<lambda>j. PGSIZE * of_nat j) [0..<unat n div 4096]"
  have run: "page_loop n check 0 s = run_checks check ?at s"
    using page_loop_run [OF whole_pages [OF n], of 0 check s] by simp
  have "set ?at = {i. i < n \<and> i mod 4096 = 0}" using page_indices [OF n] by (simp only: set_map set_upt)
  then show ?thesis
    using pure_check.run_checks_decides [OF pure, of s ?at]
    by (simp only: run mem_Collect_eq Ball_def imp_conjL)
qed

section \<open>check\_va2pa\<close>

lemma va2pa_pure:
  "pure_at s (check_va2pa dir va s)"
  by (auto simp: pure_at_def check_va2pa_def KADDR_def kreturn_def kpanic_def Let_def)

lemma va2pa_translate:
  assumes "va mod 4096 = 0"
  shows "check_va2pa dir va s = Some (Ret v t) \<longleftrightarrow>
    t = s \<and> (translate dir s va = Unmapped \<and> v = NOT 0 \<or> translate dir s va = Phys v)"
proof -
  have "PGOFF va = 0" using assms by (simp add: aligned_PGOFF)
  then show ?thesis
    by (auto simp: check_va2pa_def translate_def KADDR_def kpanic_def Let_def)
qed

text \<open>One assertion of the three loops: the page at \<open>va + i\<close> is the one at \<open>pa + i\<close>.\<close>

definition check_page_at ::
    "i32 \<Rightarrow> string \<Rightarrow> u32 \<Rightarrow> u32 \<Rightarrow> ('a kst_scheme \<Rightarrow> (u32, 'a kst_scheme) kres option) \<Rightarrow> u32 \<Rightarrow> (unit, 'a kst_scheme) kernel" where
  "check_page_at line expr dir va pa i s =
     kbind (check_va2pa dir (va + i) s) (\<lambda>v s. kbind (pa s) (\<lambda>pa s. passert line (v = pa + i) expr s))"

lemma check_page_at_pure: "(\<And>s. pure_at s (pa s)) \<Longrightarrow> pure_check (check_page_at line expr dir va pa)"
  by unfold_locales (auto simp: check_page_at_def intro!: pure_at_intros va2pa_pure)

lemma check_page_at_Ret:
  assumes pa: "pa s = Some (Ret p s)" and al: "(va + i) mod 4096 = 0" "(p + i) mod 4096 = 0"
  shows "check_page_at line expr dir va pa i s = Some (Ret () s) \<longleftrightarrow> translate dir s (va + i) = Phys (p + i)"
proof -
  show ?thesis
    using aligned_not_max [OF al(2)]
    by (auto simp: check_page_at_def kbind_Ret pa va2pa_translate [OF al(1)])
qed

lemma page_loop_maps:
  assumes pure: "\<And>s. pure_at s (pa s)" and pa: "pa s = Some (Ret p s)"
    and al: "va mod 4096 = 0" "p mod 4096 = 0" "n mod 4096 = 0"
  shows "decides s (page_loop n (check_page_at line expr dir va pa) 0 s) (maps dir s va n p)"
proof -
  have "check_page_at line expr dir va pa i s = Some (Ret () s) \<longleftrightarrow> translate dir s (va + i) = Phys (p + i)"
    if "i mod 4096 = 0" for i
    using that by (intro check_page_at_Ret pa aligned_add al)
  then have "(\<forall>i<n. i mod 4096 = 0 \<longrightarrow> check_page_at line expr dir va pa i s = Some (Ret () s)) \<longleftrightarrow> maps dir s va n p"
    unfolding maps_pages [OF al(1,3)] by metis
  with page_loop_decides [OF check_page_at_pure [OF pure] al(3), of s line expr dir va] show ?thesis by simp
qed

section \<open>Directory entries\<close>

interpretation pde: pure_check "check_pde :: nat \<Rightarrow> (unit, 'a kst_scheme) kernel"
  by unfold_locales (auto simp: check_pde_def Let_def simp del: passert_simps intro!: pure_at_intros)

interpretation pse_pde: pure_check "check_pse_pde :: nat \<Rightarrow> (unit, 'a kst_scheme) kernel"
  by unfold_locales (auto simp: check_pse_pde_def Let_def simp del: passert_simps intro!: pure_at_intros)

lemma directory_indices: "PDX UVPT = 957" "PDX (KSTACKTOP - 1) = 959" "PDX UPAGES = 956" "PDX KERNBASE = 960"
  by (simp_all add: PDX_def)

lemma check_pde_Ret:
  assumes "i < 1024"
  shows "check_pde i s = Some (Ret () s) \<longleftrightarrow> (let pde = pgd (of_nat i) s in
     if i \<in> {957, 959, 956} then pde AND PTE_P \<noteq> 0
     else if 960 \<le> i then pde AND PTE_P \<noteq> 0 \<and> pde AND PTE_W \<noteq> 0
     else pde = 0)"
proof -
  have "unat (of_nat k :: u32) = k" if "k < 1024" for k using that by (intro unat_of_nat32) simp
  then have eq: "(of_nat i :: u32) = of_nat k \<longleftrightarrow> i = k" if "k < 1024" for k
    using that assms by (simp only: word_unat_eq_iff)
  have "(960 :: u32) \<le> of_nat i \<longleftrightarrow> 960 \<le> i"
    using assms by (simp add: word_le_nat_alt unat_of_nat32)
  then show ?thesis
    using eq [of 957] eq [of 959] eq [of 956]
    by (auto simp: check_pde_def directory_indices kbind_Ret Let_def simp del: UVPT_def KSTACKTOP_def UPAGES_def KERNBASE_def)
qed

lemma check_pde_loop: "decides s (kfor 0 1024 check_pde s) (kern_pdes s)"
  using kfor_decides [OF pde.pure_check_axioms, of s 0 1024] by (simp add: check_pde_Ret kern_pdes_def)

lemma ROUNDUP_pages: "ROUNDUP a PGSIZE mod 4096 = 0"
proof -
  have "ROUNDUP a PGSIZE = PTE_ADDR (a + 0xFFF)" by (simp add: ROUNDUP_def ROUNDDOWN_def PTE_ADDR_mod add.commute)
  then show ?thesis by (simp only: PTE_ADDR_PGNUM push_bit_aligned)
qed

lemma PADDR_value: "KERNBASE \<le> a \<Longrightarrow> PADDR f l a s = Some (Ret (a - KERNBASE) s)"
  by (simp add: PADDR_def kreturn_def leD)

lemma kern_loops:
  "kbind (check_va2pa dir (va + i) s) (\<lambda>v s. kbind (PADDR f l (a s) s) (\<lambda>pa s. passert line (v = pa + i) expr s))
    = check_page_at line expr dir va (\<lambda>s. PADDR f l (a s) s) i s"
  "kbind (check_va2pa dir (va + i) s) (\<lambda>v s. passert line (v = i) expr s)
    = check_page_at line expr dir va (kreturn 0) i s"
  by (simp_all add: check_page_at_def)

lemma guard_decides:
  assumes "va mod 4096 = 0"
  shows "decides s (called line (check_va2pa dir va s) (\<lambda>v. v = NOT 0) expr) (translate dir s va = Unmapped)"
proof -
  from va2pa_pure [of s dir va]
  consider v where "check_va2pa dir va s = Some (Ret v s)" | p where "check_va2pa dir va s = Some (Panic p s)"
    by (auto simp: pure_at_def)
  then show ?thesis
  proof cases
    case 1
    have "v \<noteq> NOT 0" if "translate dir s va = Phys v"
      using translate_aligned [OF assms that] by (rule aligned_not_max)
    with 1 va2pa_translate [OF assms, of dir s v s] show ?thesis
      by (auto simp: called_def decides_def passert_def kassert_def kpanic_def kreturn_def)
  next
    case 2
    then have "translate dir s va \<noteq> Unmapped" using va2pa_translate [OF assms, of dir s "NOT 0" s] by auto
    with 2 show ?thesis by (simp add: called_def decides_def)
  qed
qed

lemma printed_verdict:
  assumes "con_ok s" and "render fmt 0 [] = Some out"
  shows "verdict (kcall (cprintf h fmt [] s)) True (prints s out)"
  using cprintf_prints [OF assms(1) _ assms(2), of "[]" h] by (auto simp: verdict_def string_args_def)

definition checked :: "i32 list" where
  "checked = map ucast (ascii ''check_kern_pgdir() succeeded!'' @ [10])"

lemma checked_render: "render (ascii ''check_kern_pgdir() succeeded!'' @ [10]) 0 [] = Some checked"
  by (simp add: checked_def render_eval split del: if_split)

lemma check_kern_pgdir_verdict:
  assumes con: "con_ok s" and pages: "pages s mod PGSIZE = 0" "KERNBASE \<le> pages s"
    and stack: "sym_bootstack lk mod PGSIZE = 0" "KERNBASE \<le> sym_bootstack lk"
  shows "verdict (check_kern_pgdir h lk s) (kern_space lk s) (prints s checked)"
proof -
  let ?dir = "kern_pgdir s"
  have phys: "(pages s - KERNBASE) mod 4096 = 0" "(sym_bootstack lk - KERNBASE) mod 4096 = 0"
    using pages stack by (intro aligned_diff [where c = "0xF0000"]; simp)+
  have upages: "decides s (page_loop (ROUNDUP (npages s * 8) PGSIZE)
      (check_page_at 600 expr ?dir UPAGES (\<lambda>s. PADDR f 600 (pages s) s)) 0 s)
      (maps ?dir s UPAGES (ROUNDUP (npages s * 8) PGSIZE) (pages s - KERNBASE))" for expr f
    by (rule page_loop_maps [where p = "pages s - KERNBASE"])
      (use pages phys in \<open>simp_all only: pure_at_intros PADDR_value ROUNDUP_pages\<close>, simp)
  have kernbase: "decides s (page_loop (npages s * PGSIZE) (check_page_at 605 expr ?dir KERNBASE (kreturn 0)) 0 s)
      (maps ?dir s KERNBASE (npages s * PGSIZE) 0)" for expr
    using push_bit_aligned [of "npages s"]
    by (intro page_loop_maps [where p = 0]) (simp_all add: pure_at_def kreturn_def push_bit_eq_mult)
  have stack': "decides s (page_loop KSTKSIZE
      (check_page_at 609 expr ?dir (KSTACKTOP - KSTKSIZE) (\<lambda>s. PADDR f 609 (sym_bootstack lk) s)) 0 s)
      (maps ?dir s (KSTACKTOP - KSTKSIZE) KSTKSIZE (sym_bootstack lk - KERNBASE))" for expr f
    by (rule page_loop_maps [where p = "sym_bootstack lk - KERNBASE"])
      (use stack phys in \<open>simp_all only: pure_at_intros PADDR_value\<close>, simp_all add: pure_at_def)
  show ?thesis
    unfolding check_kern_pgdir_def Let_def kern_loops kern_space_def
    by (intro verdict_kbind [where s = s] verdict_last [where s = s] upages kernbase stack' guard_decides
        check_pde_loop printed_verdict [OF con checked_render]) simp
qed

text \<open>
  C8: on a sane console, with the page array and the boot stack on page boundaries above KERNBASE,
  \<open>check_kern_pgdir\<close> returns exactly when the page directory gives the address space of the kernel,
  byte by byte; in every other case it panics, and it never hangs.
\<close>

theorem check_kern_pgdir_exact:
  assumes "con_ok s" and "pages s mod PGSIZE = 0" "KERNBASE \<le> pages s"
    and "sym_bootstack lk mod PGSIZE = 0" "KERNBASE \<le> sym_bootstack lk"
  shows "if kern_space lk s then \<exists>r t. check_kern_pgdir h lk s = Some (Ret r t)
    else \<exists>p t. check_kern_pgdir h lk s = Some (Panic p t)"
  using check_kern_pgdir_verdict [OF assms, of h] by (auto simp: verdict_def)

section \<open>Large pages\<close>

definition pse_pdes :: "'a kst_scheme \<Rightarrow> bool" where
  "pse_pdes s \<longleftrightarrow> (\<forall>i. 960 \<le> i \<and> i < 1024 \<longrightarrow>
     pgd (of_nat i) s AND PTE_PS \<noteq> 0 \<and> PTE_ADDR (pgd (of_nat i) s) = push_bit 22 (of_nat i - 960))"

lemma pse_loop: "decides s (kfor 960 64 check_pse_pde s) (pse_pdes s)"
  using kfor_decides [OF pse_pde.pure_check_axioms, of s 960 64]
  by (simp add: check_pse_pde_def directory_indices kbind_Ret pse_pdes_def Let_def del: KERNBASE_def)

lemma PGADDR_sum: "PGADDR d (PTX va) (PGOFF va) = push_bit 22 d + push_bit 12 (PTX va) + PGOFF va"
proof -
  have "push_bit 22 d OR push_bit 12 (PTX va) = push_bit 22 d + push_bit 12 (PTX va)"
    by (rule disjunctive_add [symmetric]) (auto simp: bit_simps)
  moreover have "push_bit 22 d OR push_bit 12 (PTX va) OR PGOFF va = (push_bit 22 d OR push_bit 12 (PTX va)) + PGOFF va"
    unfolding or.assoc [symmetric] by (rule disjunctive_add [symmetric]) (auto simp: bit_simps)
  ultimately show ?thesis by (simp only: PGADDR_def)
qed

lemma PGADDR_kernel: "PGADDR (PDX va - 960) (PTX va) (PGOFF va) = va - KERNBASE"
proof -
  have "push_bit 22 (PDX va) - KERNBASE = push_bit 22 (PDX va - 960)"
    by (simp add: push_bit_eq_mult left_diff_distrib)
  then have "PGADDR (PDX va - 960) (PTX va) (PGOFF va) = PGADDR (PDX va) (PTX va) (PGOFF va) - KERNBASE"
    by (simp only: PGADDR_sum flip: diff_add_eq)
  then show ?thesis by (simp only: PGADDR_parts)
qed

lemma PDX_high: "KERNBASE \<le> va \<longleftrightarrow> 960 \<le> unat (PDX va)"
  by (simp add: PDX_nat word_le_nat_alt less_eq_div_iff_mult_less_eq)

lemma PDX_frame: "unat d < 1024 \<Longrightarrow> PTE_ADDR e = push_bit 22 d \<Longrightarrow> PDX e = d"
proof -
  assume d: "unat d < 1024" and e: "PTE_ADDR e = push_bit 22 d"
  have "PDX e = PDX (PTE_ADDR e)" by (rule bit_word_eqI) (simp add: bit_simps)
  also have "\<dots> = d" using PGADDR_split(1) [OF d, of 0 0] by (simp add: e PGADDR_def)
  finally show ?thesis .
qed

lemma pse_identity:
  assumes pdes: "kern_pdes s" "pse_pdes s" and va: "KERNBASE \<le> va"
  shows "translate (kern_pgdir s) s va = Phys (va - KERNBASE)"
proof -
  let ?i = "unat (PDX va)" and ?pde = "pgd (PDX va) s"
  have i: "960 \<le> ?i" "?i < 1024" using va PDX_high PDX_less by blast+
  then have P: "?pde AND PTE_P \<noteq> 0" and ps: "?pde AND PTE_PS \<noteq> 0" "PTE_ADDR ?pde = push_bit 22 (PDX va - 960)"
    using pdes by (auto simp: kern_pdes_def pse_pdes_def Let_def dest!: spec [of _ ?i])
  have "unat (PDX va - 960) < 1024" using i by (simp add: unat_diff32)
  then have "PDX ?pde = PDX va - 960" using ps(2) by (rule PDX_frame)
  then show ?thesis
    using P ps(1) by (simp add: translate_def pgd_def [symmetric] PGADDR_kernel Let_def del: KERNBASE_def PTE_P_def PTE_PS_def)
qed

lemma pse_verdict:
  assumes "con_ok s"
  shows "\<exists>out. verdict (check_kern_pgdir_pse h s) (pse_pdes s) (prints s out)"
proof -
  have out: "render (ascii ''check_kern_pgdir_pse() succeeded!'' @ [10]) 0 [] =
      Some (map ucast (ascii ''check_kern_pgdir_pse() succeeded!'' @ [10]))"
    by (simp add: render_eval split del: if_split)
  have "unat (PDX KERNBASE) = 960" "1024 - unat (PDX KERNBASE) = 64" unfolding directory_indices by simp_all
  then have "verdict (check_kern_pgdir_pse h s) (pse_pdes s)
      (prints s (map ucast (ascii ''check_kern_pgdir_pse() succeeded!'' @ [10])))"
    unfolding check_kern_pgdir_pse_def
    by (simp only:) (intro verdict_last [where s = s] pse_loop printed_verdict [OF assms out])
  then show ?thesis ..
qed

text \<open>Printing keeps a page directory that is not on the display.\<close>

lemma prints_pgd:
  fixes s t :: "'a kst_scheme"
  assumes p: "prints s out t" and apart: "disjoint_rng (kern_pgdir s) 4096 (crt_buf s) 4000" and i: "i < 1024"
  shows "kern_pgdir t = kern_pgdir s" "pgd (of_nat i) t = pgd (of_nat i) s"
proof -
  have t: "t = s\<lparr>mem := mem t, io_log := io_log t, crt_pos := crt_pos t\<rparr>"
    using p by (simp only: prints_def out_only_def)
  show dir: "kern_pgdir t = kern_pgdir s" by (subst t) simp
  have "mem t b = mem s b" if "in_rng b (kern_pgdir s + 4 * of_nat i) 4" for b
  proof -
    have "unat (4 * of_nat i :: u32) = 4 * i" using i by (simp add: unat_word_ariths unat_of_nat)
    moreover have "b - kern_pgdir s = 4 * of_nat i + (b - (kern_pgdir s + 4 * of_nat i))" by simp
    ultimately have "unat (b - kern_pgdir s) < 4096" using that i
      by (simp only: in_rng_def unat_plus32) (auto simp: mod_if)
    then have "in_rng b (kern_pgdir s) 4096" by (simp add: in_rng_def)
    with apart have "\<not> in_rng b (crt_buf s) 4000" by (auto dest: disjoint_rng_not_in)
    with p show ?thesis by (auto simp: prints_def same_outside_def)
  qed
  then have "load32 (mem t) (kern_pgdir s + 4 * of_nat i) = load32 (mem s) (kern_pgdir s + 4 * of_nat i)"
    by (rule cell32.load_local)
  then show "pgd (of_nat i) t = pgd (of_nat i) s" by (simp add: pgd_def dir)
qed

lemma prints_pdes:
  assumes "prints s out t" and "disjoint_rng (kern_pgdir s) 4096 (crt_buf s) 4000"
  shows "kern_pdes t = kern_pdes s" "pse_pdes t = pse_pdes s"
  using prints_pgd(2) [OF assms] by (simp_all add: kern_pdes_def pse_pdes_def)

text \<open>
  C21: in a kernel built with large pages, under the conditions of C8 and with the page directory apart
  from the display, the whole \<open>check_kern_pgdir\<close> returns exactly when the address space is the one of
  the kernel and the last 64 directory entries are 4 MiB pages of consecutive physical memory from 0 on,
  and panics otherwise; and when it returns, every address from KERNBASE on is mapped to the physical
  address KERNBASE below it.
\<close>

theorem pse_kernel_half:
  assumes "con_ok s" and "pages s mod PGSIZE = 0" "KERNBASE \<le> pages s"
    and "sym_bootstack lk mod PGSIZE = 0" "KERNBASE \<le> sym_bootstack lk"
    and "disjoint_rng (kern_pgdir s) 4096 (crt_buf s) 4000"
  shows "if kern_space lk s \<and> pse_pdes s
    then \<exists>r t. check_kern_pgdir_tp1 h lk s = Some (Ret r t)
      \<and> (\<forall>va. KERNBASE \<le> va \<longrightarrow> translate (kern_pgdir t) t va = Phys (va - KERNBASE))
    else \<exists>p t. check_kern_pgdir_tp1 h lk s = Some (Panic p t)"
proof -
  let ?T = "\<lambda>t. kern_pdes t = kern_pdes s \<and> pse_pdes t = pse_pdes s"
  have "verdict (check_kern_pgdir_pse h u) (pse_pdes s) ?T" if p: "prints s checked u" for u
  proof -
    have "con_ok u" "crt_buf u = crt_buf s" using p by (simp_all add: prints_def same_outside_def)
    then have "disjoint_rng (kern_pgdir u) 4096 (crt_buf u) 4000"
      using prints_pgd(1) [OF p assms(6), of 0] assms(6) by simp
    moreover from pse_verdict [OF \<open>con_ok u\<close>, of h] obtain out
      where "verdict (check_kern_pgdir_pse h u) (pse_pdes u) (prints u out)" ..
    ultimately show ?thesis
      using prints_pdes [OF p assms(6)] prints_pdes [of u out] by (auto simp: verdict_def split: if_splits)
  qed
  from verdict_then [OF check_kern_pgdir_verdict [OF assms(1-5), of h] this]
  have v: "verdict (check_kern_pgdir_tp1 h lk s) (kern_space lk s \<and> pse_pdes s) ?T"
    by (simp only: check_kern_pgdir_tp1_def)
  show ?thesis
  proof (cases "kern_space lk s \<and> pse_pdes s")
    case True
    with v obtain r t where "check_kern_pgdir_tp1 h lk s = Some (Ret r t)" "kern_pdes t" "pse_pdes t"
      by (auto simp: verdict_def kern_space_def)
    with pse_identity [of t] True show ?thesis by auto
  next
    case False
    with v show ?thesis by (simp only: verdict_def if_False)
  qed
qed

section \<open>A kernel address space\<close>

text \<open>
  Sixteen pages of memory: the directory in page 1, the page table of the stack in page 2, the
  stack in pages 8 to 15, the page array in page 0, large pages from KERNBASE on.
\<close>

definition kern_dir :: "u32 list" where
  "kern_dir = map (\<lambda>i. if i = 956 then 0x81 else if i = 957 then 0x1003 else if i = 959 then 0x2003
     else if 960 \<le> i then push_bit 22 (of_nat i - 960) OR 0x83 else 0) [0..<1024]"

definition stack_table :: "u32 list" where
  "stack_table = map (\<lambda>j. if 1016 \<le> j then 0x1000 * (of_nat j - 1008) + 3 else 0) [0..<1024]"

definition kern_memory :: memory where
  "kern_memory = word_image 0xF0002000 stack_table (word_image 0xF0001000 kern_dir (\<lambda>_. 0))"

definition kern_kst :: kst where
  "kern_kst = (demo_kst kern_memory KERNBASE 16 0)\<lparr>kern_pgdir := 0xF0001000\<rparr>"

definition kern_link :: linkmap where
  "kern_link = demo_link\<lparr>sym_bootstack := 0xF0008000\<rparr>"

lemma kern_kst_fields [simp]:
  "mem kern_kst = kern_memory" "kern_pgdir kern_kst = 0xF0001000" "npages kern_kst = 16"
  "pages kern_kst = KERNBASE" "con_ok kern_kst" "sym_bootstack kern_link = 0xF0008000"
  by (simp_all add: kern_kst_def kern_link_def demo_kst_def con_ok_def)

lemma kern_tables:
  "i < 1024 \<Longrightarrow> pgd (of_nat i) kern_kst = kern_dir ! i"
  "i < 1024 \<Longrightarrow> load32 kern_memory (0xF0002000 + 4 * of_nat i) = stack_table ! i"
  using word_image_below [of stack_table i "0xF0001000"]
  by (simp_all add: kern_memory_def pgd_def word_image_nth stack_table_def kern_dir_def)

lemma kern_pde: "pgd (PDX va) kern_kst = kern_dir ! unat (PDX va)"
  using kern_tables(1) [OF PDX_less, of va] by simp

lemma large_pde:
  fixes x :: u32
  shows "(push_bit 22 x OR 0x83) AND 1 \<noteq> 0" "(push_bit 22 x OR 0x83) AND 2 \<noteq> 0"
    "(push_bit 22 x OR 0x83) AND 0x80 \<noteq> 0" "PTE_ADDR (push_bit 22 x OR 0x83) = push_bit 22 x"
proof -
  show "(push_bit 22 x OR 0x83) AND 1 \<noteq> 0" "(push_bit 22 x OR 0x83) AND 2 \<noteq> 0"
      "(push_bit 22 x OR 0x83) AND 0x80 \<noteq> 0"
    by (simp_all only: bit.conj_disj_distrib2 or_eq_0_iff) simp_all
  have "PTE_ADDR (push_bit 22 x) = push_bit 22 x" by (rule bit_word_eqI) (auto simp: bit_simps)
  moreover have "PTE_ADDR (push_bit 22 x OR 0x83) = PTE_ADDR (push_bit 22 x) OR PTE_ADDR 0x83"
    by (simp only: PTE_ADDR_def bit.conj_disj_distrib2)
  ultimately show "PTE_ADDR (push_bit 22 x OR 0x83) = push_bit 22 x" by (simp add: PTE_ADDR_def)
qed

lemma kern_kst_pdes: "kern_pdes kern_kst" "pse_pdes kern_kst"
proof -
  have "let pde = pgd (of_nat i) kern_kst in
     if i \<in> {957, 959, 956} then pde AND PTE_P \<noteq> 0
     else if 960 \<le> i then pde AND PTE_P \<noteq> 0 \<and> pde AND PTE_W \<noteq> 0 else pde = 0" if "i < 1024" for i
    using that large_pde(1,2) by (auto simp: kern_tables(1) kern_dir_def Let_def)
  then show "kern_pdes kern_kst" unfolding kern_pdes_def by blast
  show "pse_pdes kern_kst"
    using large_pde(3,4) by (auto simp: pse_pdes_def kern_tables(1) kern_dir_def)
qed

lemma kern_walk:
  "translate 0xF0001000 kern_kst va = (let pde = kern_dir ! unat (PDX va) in
      if pde AND PTE_P = 0 then Unmapped
      else if pde AND PTE_PS \<noteq> 0 then Phys (PGADDR (PDX pde) (PTX va) (PGOFF va))
      else if npages kern_kst \<le> PGNUM (PTE_ADDR pde) then No_table
      else let pte = load32 (mem kern_kst) (PTE_ADDR pde + KERNBASE + 4 * PTX va)
           in if pte AND PTE_P = 0 then Unmapped else Phys (PTE_ADDR pte + PGOFF va))"
  using kern_pde [of va] by (simp only: translate_def pgd_def kern_kst_fields)

lemma kern_stack_walk:
  assumes "unat va div 4194304 = 959"
  shows "translate 0xF0001000 kern_kst va = (let pte = stack_table ! unat (PTX va)
      in if pte AND 1 = 0 then Unmapped else Phys (PTE_ADDR pte + PGOFF va))"
proof -
  have "load32 (mem kern_kst) (0xF0002000 + 4 * PTX va) = stack_table ! unat (PTX va)"
    using kern_tables(2) [OF PTX_less, of va] by simp
  moreover have "kern_dir ! unat (PDX va) = 0x2003" using assms by (simp add: PDX_nat kern_dir_def)
  moreover have "PTE_ADDR 0x2003 = 0x2000" "PGNUM 0x2000 = 2" by (simp_all add: PTE_ADDR_def PGNUM_def)
  ultimately show ?thesis by (simp add: kern_walk)
qed

lemma kern_stack_maps: "maps 0xF0001000 kern_kst (KSTACKTOP - KSTKSIZE) KSTKSIZE 0x8000"
proof (subst maps_by_pages)
  have "translate 0xF0001000 kern_kst (0xEFFF8000 + 0x1000 * of_nat j) = Phys (0x8000 + 0x1000 * of_nat j)" if "j < 8" for j :: nat
  proof -
    from that have "j = 0 \<or> j = 1 \<or> j = 2 \<or> j = 3 \<or> j = 4 \<or> j = 5 \<or> j = 6 \<or> j = 7" by linarith
    then show ?thesis
      by (elim disjE; hypsubst; simp add: kern_stack_walk PTX_nat stack_table_def; simp add: PTE_ADDR_def PGOFF_def)
  qed
  then show "\<forall>j\<in>set [0..<unat KSTKSIZE div 4096]. translate 0xF0001000 kern_kst (KSTACKTOP - KSTKSIZE + PGSIZE * of_nat j)
      = Phys (0x8000 + PGSIZE * of_nat j)" by simp
qed simp_all

lemma kern_kst_space: "kern_space kern_link kern_kst"
proof -
  let ?dir = "kern_pgdir kern_kst"
  have "translate ?dir kern_kst UPAGES = Phys 0"
    by (simp add: kern_walk PDX_nat kern_dir_def) (simp add: PDX_def PTX_def PGOFF_def PGADDR_def)
  then have "maps ?dir kern_kst UPAGES 4096 0"
    by (subst maps_by_pages) (simp_all add: upt_rec)
  moreover have "ROUNDUP (npages kern_kst * 8) PGSIZE = 4096" by (simp add: ROUNDUP_def ROUNDDOWN_def)
  moreover have "maps ?dir kern_kst KERNBASE (npages kern_kst * PGSIZE) 0"
    unfolding maps_def
  proof (intro allI impI)
    fix k
    assume "k < npages kern_kst * PGSIZE"
    then have "KERNBASE \<le> KERNBASE + k" by (simp add: word_less_nat_alt word_le_nat_alt unat_plus32)
    from pse_identity [OF kern_kst_pdes this] show "translate ?dir kern_kst (KERNBASE + k) = Phys (0 + k)" by simp
  qed
  moreover have "translate ?dir kern_kst (KSTACKTOP - PTSIZE) = Unmapped"
    by (simp add: kern_stack_walk PTX_nat stack_table_def)
  ultimately show ?thesis using kern_kst_pdes(1) kern_stack_maps by (simp add: kern_space_def)
qed

theorem check_kern_pgdir_exact_witness: "\<exists>r t. check_kern_pgdir demo_hw kern_link kern_kst = Some (Ret r t)"
  using check_kern_pgdir_exact [of kern_kst kern_link demo_hw] kern_kst_space by simp

theorem pse_kernel_half_witness:
  "\<exists>r t. check_kern_pgdir_tp1 demo_hw kern_link kern_kst = Some (Ret r t)
   \<and> translate (kern_pgdir t) t 0xFEC00123 = Phys 0x0EC00123"
proof -
  have "disjoint_rng (kern_pgdir kern_kst) 4096 (crt_buf kern_kst) 4000"
    by (simp add: disjoint_rng_def kern_kst_def demo_kst_def)
  then show ?thesis using pse_kernel_half [of kern_kst kern_link demo_hw] kern_kst_space kern_kst_pdes(2) by auto
qed

end
