(* ===== verification/Descriptors.thy ===== *)
theory Descriptors
  imports Mmu
begin

text \<open>
  The segment and gate descriptors of inc/mmu.h.  A bit-field of a structure is a word of its width;
  the compiler allocates the fields of a unit from the low bits up, which \<open>seg_bytes\<close> and
  \<open>gate_bytes\<close> write out.
\<close>

section \<open>Segment descriptors\<close>

record Segdesc =
  sd_lim_15_0 :: u16
  sd_base_15_0 :: u16
  sd_base_23_16 :: u8
  sd_type :: "4 word"
  sd_s :: "1 word"
  sd_dpl :: "2 word"
  sd_p :: "1 word"
  sd_lim_19_16 :: "4 word"
  sd_avl :: "1 word"
  sd_rsv1 :: "1 word"
  sd_db :: "1 word"
  sd_g :: "1 word"
  sd_base_31_24 :: u8

definition SEG_NULL :: Segdesc where
  "SEG_NULL = \<lparr>sd_lim_15_0 = 0, sd_base_15_0 = 0, sd_base_23_16 = 0, sd_type = 0, sd_s = 0, sd_dpl = 0,
     sd_p = 0, sd_lim_19_16 = 0, sd_avl = 0, sd_rsv1 = 0, sd_db = 0, sd_g = 0, sd_base_31_24 = 0\<rparr>"

definition SEG_FAULT :: Segdesc where
  "SEG_FAULT = \<lparr>sd_lim_15_0 = 0, sd_base_15_0 = 0, sd_base_23_16 = 0, sd_type = 0, sd_s = 1, sd_dpl = 0,
     sd_p = 1, sd_lim_19_16 = 0, sd_avl = 0, sd_rsv1 = 0, sd_db = 1, sd_g = 0, sd_base_31_24 = 0\<rparr>"

definition SEG :: "u32 \<Rightarrow> u32 \<Rightarrow> u32 \<Rightarrow> u32 \<Rightarrow> Segdesc" where
  "SEG type base lim dpl =
     \<lparr>sd_lim_15_0 = ucast (drop_bit 12 lim AND 0xffff), sd_base_15_0 = ucast (base AND 0xffff),
      sd_base_23_16 = ucast (drop_bit 16 base AND 0xff), sd_type = ucast type, sd_s = 1,
      sd_dpl = ucast dpl, sd_p = 1, sd_lim_19_16 = ucast (drop_bit 28 lim), sd_avl = 0, sd_rsv1 = 0,
      sd_db = 1, sd_g = 1, sd_base_31_24 = ucast (drop_bit 24 base)\<rparr>"

definition SEG16 :: "u32 \<Rightarrow> u32 \<Rightarrow> u32 \<Rightarrow> u32 \<Rightarrow> Segdesc" where
  "SEG16 type base lim dpl =
     \<lparr>sd_lim_15_0 = ucast (lim AND 0xffff), sd_base_15_0 = ucast (base AND 0xffff),
      sd_base_23_16 = ucast (drop_bit 16 base AND 0xff), sd_type = ucast type, sd_s = 1,
      sd_dpl = ucast dpl, sd_p = 1, sd_lim_19_16 = ucast (drop_bit 16 lim), sd_avl = 0, sd_rsv1 = 0,
      sd_db = 1, sd_g = 0, sd_base_31_24 = ucast (drop_bit 24 base)\<rparr>"

definition le16 :: "u16 \<Rightarrow> u8 list" where
  "le16 w = [ucast w, ucast (drop_bit 8 w)]"

definition seg_bytes :: "Segdesc \<Rightarrow> u8 list" where
  "seg_bytes d = le16 (sd_lim_15_0 d) @ le16 (sd_base_15_0 d) @
     [sd_base_23_16 d,
      ucast (sd_type d) OR push_bit 4 (ucast (sd_s d)) OR push_bit 5 (ucast (sd_dpl d)) OR push_bit 7 (ucast (sd_p d)),
      ucast (sd_lim_19_16 d) OR push_bit 4 (ucast (sd_avl d)) OR push_bit 5 (ucast (sd_rsv1 d))
        OR push_bit 6 (ucast (sd_db d)) OR push_bit 7 (ucast (sd_g d)),
      sd_base_31_24 d]"

text \<open>The macro of the same name that boot/boot.S builds its table with.\<close>

definition SEG_asm :: "u32 \<Rightarrow> u32 \<Rightarrow> u32 \<Rightarrow> u8 list" where
  "SEG_asm type base lim =
     le16 (ucast (drop_bit 12 lim AND 0xffff)) @ le16 (ucast (base AND 0xffff)) @
     [ucast (drop_bit 16 base AND 0xff), ucast (0x90 OR type),
      ucast (0xC0 OR (drop_bit 28 lim AND 0xf)), ucast (drop_bit 24 base AND 0xff)]"

text \<open>The segment that the processor takes from a descriptor.\<close>

definition seg_base :: "Segdesc \<Rightarrow> u32" where
  "seg_base d = ucast (sd_base_15_0 d) OR push_bit 16 (ucast (sd_base_23_16 d)) OR push_bit 24 (ucast (sd_base_31_24 d))"

definition seg_limit :: "Segdesc \<Rightarrow> u32" where
  "seg_limit d = (let l = ucast (sd_lim_15_0 d) OR push_bit 16 (ucast (sd_lim_19_16 d))
     in if sd_g d = 1 then push_bit 12 l OR 0xFFF else l)"

section \<open>Gate descriptors\<close>

record Gatedesc =
  gd_off_15_0 :: u16
  gd_sel :: u16
  gd_args :: "5 word"
  gd_rsv1 :: "3 word"
  gd_type :: "4 word"
  gd_s :: "1 word"
  gd_dpl :: "2 word"
  gd_p :: "1 word"
  gd_off_31_16 :: u16

definition STS_CG32 :: "4 word" where [simp]: "STS_CG32 = 0xC"
definition STS_IG32 :: "4 word" where [simp]: "STS_IG32 = 0xE"
definition STS_TG32 :: "4 word" where [simp]: "STS_TG32 = 0xF"

definition SETGATE :: "bool \<Rightarrow> u32 \<Rightarrow> u32 \<Rightarrow> u32 \<Rightarrow> Gatedesc \<Rightarrow> Gatedesc" where
  "SETGATE istrap sel off dpl gate = gate
     \<lparr>gd_off_15_0 := ucast (off AND 0xffff), gd_sel := ucast sel, gd_args := 0, gd_rsv1 := 0,
      gd_type := (if istrap then STS_TG32 else STS_IG32), gd_s := 0, gd_dpl := ucast dpl, gd_p := 1,
      gd_off_31_16 := ucast (drop_bit 16 off)\<rparr>"

definition SETCALLGATE :: "u32 \<Rightarrow> u32 \<Rightarrow> u32 \<Rightarrow> Gatedesc \<Rightarrow> Gatedesc" where
  "SETCALLGATE sel off dpl gate = gate
     \<lparr>gd_off_15_0 := ucast (off AND 0xffff), gd_sel := ucast sel, gd_args := 0, gd_rsv1 := 0,
      gd_type := STS_CG32, gd_s := 0, gd_dpl := ucast dpl, gd_p := 1,
      gd_off_31_16 := ucast (drop_bit 16 off)\<rparr>"

definition gate_offset :: "Gatedesc \<Rightarrow> u32" where
  "gate_offset g = ucast (gd_off_15_0 g) OR push_bit 16 (ucast (gd_off_31_16 g))"

section \<open>Masks\<close>

lemma bit_masks:
  fixes n :: nat
  shows "bit (0xffff :: 'a :: len word) n \<longleftrightarrow> n < 16 \<and> n < LENGTH('a)"
    and "bit (0xff :: 'a word) n \<longleftrightarrow> n < 8 \<and> n < LENGTH('a)"
    and "bit (0xf :: 'a word) n \<longleftrightarrow> n < 4 \<and> n < LENGTH('a)"
    and "bit (0xFFF :: 'a word) n \<longleftrightarrow> n < 12 \<and> n < LENGTH('a)"
    and "bit (0x90 :: 'a word) n \<longleftrightarrow> (n = 4 \<or> n = 7) \<and> n < LENGTH('a)"
    and "bit (0xC0 :: 'a word) n \<longleftrightarrow> (n = 6 \<or> n = 7) \<and> n < LENGTH('a)"
proof -
  have m: "(0xffff :: 'a word) = mask 16" "(0xff :: 'a word) = mask 8" "(0xf :: 'a word) = mask 4"
    "(0xFFF :: 'a word) = mask 12" "(0x90 :: 'a word) = push_bit 4 1 OR push_bit 7 1"
    "(0xC0 :: 'a word) = push_bit 6 1 OR push_bit 7 1"
    by (simp_all add: mask_eq_decr_exp)
  show "bit (0xffff :: 'a word) n \<longleftrightarrow> n < 16 \<and> n < LENGTH('a)"
    "bit (0xff :: 'a word) n \<longleftrightarrow> n < 8 \<and> n < LENGTH('a)" "bit (0xf :: 'a word) n \<longleftrightarrow> n < 4 \<and> n < LENGTH('a)"
    "bit (0xFFF :: 'a word) n \<longleftrightarrow> n < 12 \<and> n < LENGTH('a)"
    unfolding m by (auto simp: bit_mask_iff possible_bit_word)
  show "bit (0x90 :: 'a word) n \<longleftrightarrow> (n = 4 \<or> n = 7) \<and> n < LENGTH('a)"
    "bit (0xC0 :: 'a word) n \<longleftrightarrow> (n = 6 \<or> n = 7) \<and> n < LENGTH('a)"
    unfolding m by (auto simp only: bit_simps possible_bit_word)
qed

lemma bit_one: "bit (1 :: 1 word) n \<longleftrightarrow> n = 0" "bit (1 :: u8) n \<longleftrightarrow> n = 0"
  by (auto simp: bit_simps)

section \<open>Properties\<close>

lemma small_type:
  assumes "type < (16 :: u32)" and "bit type n"
  shows "n < 4"
proof -
  have "take_bit 4 type = type" using assms(1) by (simp add: take_bit_eq_mod word_arith_nat_mod word_less_nat_alt)
  then have "bit (take_bit 4 type) n" using assms(2) by simp
  then show ?thesis by (simp add: bit_simps)
qed

text \<open>
  C34: for a segment type of four bits the two macros of the same name agree: the structure that \<open>SEG\<close>
  builds in C has in memory the eight bytes that \<open>SEG\<close> emits in assembly.  Of the segment it
  describes the base is the one given, for every base, and the limit is the one given up to the end
  of its page.
\<close>

theorem SEG_matches_asm:
  assumes "type < 16"
  shows "seg_bytes (SEG type base lim 0) = SEG_asm type base lim
    \<and> seg_base (SEG type base lim dpl) = base \<and> seg_limit (SEG type base lim dpl) = lim OR 0xFFF"
proof (intro conjI)
  have t: "ucast (ucast type :: 4 word) OR push_bit 4 (ucast (1 :: 1 word)) OR push_bit 5 (ucast (0 :: 2 word))
      OR push_bit 7 (ucast (1 :: 1 word)) = (ucast (0x90 OR type) :: u8)"
    by (rule bit_word_eqI) (simp only: bit_simps bit_masks bit_one possible_bit_word, auto dest: small_type [OF assms])
  have g: "ucast (ucast (drop_bit 28 lim) :: 4 word) OR push_bit 4 (ucast (0 :: 1 word)) OR push_bit 5 (ucast (0 :: 1 word))
      OR push_bit 6 (ucast (1 :: 1 word)) OR push_bit 7 (ucast (1 :: 1 word))
      = (ucast (0xC0 OR (drop_bit 28 lim AND 0xf)) :: u8)"
    by (rule bit_word_eqI) (simp only: bit_simps bit_masks bit_one possible_bit_word, auto)
  have b: "ucast (drop_bit 24 base) = (ucast (drop_bit 24 base AND 0xff) :: u8)"
    by (rule bit_word_eqI) (simp only: bit_simps bit_masks possible_bit_word, auto)
  show "seg_bytes (SEG type base lim 0) = SEG_asm type base lim"
    unfolding seg_bytes_def SEG_def SEG_asm_def Segdesc.select_convs t [symmetric] g [symmetric] b [symmetric] by simp
  show "seg_base (SEG type base lim dpl) = base"
    unfolding seg_base_def SEG_def Segdesc.select_convs
  proof (rule bit_word_eqI, goal_cases)
    case (1 n)
    then show ?case by (cases "24 \<le> n") (simp only: bit_simps bit_masks possible_bit_word, auto)+
  qed
  show "seg_limit (SEG type base lim dpl) = lim OR 0xFFF"
    unfolding seg_limit_def SEG_def Segdesc.select_convs Let_def simp_thms if_True
  proof (rule bit_word_eqI, goal_cases)
    case (1 n)
    then show ?case by (cases "28 \<le> n") (simp only: bit_simps bit_masks possible_bit_word, auto)+
  qed
qed

text \<open>The flat code segment of the boot loader's table.\<close>

theorem SEG_matches_asm_witness:
  "seg_bytes (SEG 0xA 0 0xffffffff 0) = [0xff, 0xff, 0, 0, 0, 0x9a, 0xcf, 0]
    \<and> seg_limit (SEG 0xA 0 0xffffffff 0) = 0xffffffff"
proof -
  have "(0xA :: u32) < 16" by simp
  from SEG_matches_asm [OF this, of 0 "0xffffffff" 0] show ?thesis
    by (simp add: SEG_asm_def le16_def)
qed

lemma SETGATE_offset:
  "gate_offset (SETGATE istrap sel off dpl gate) = off" "gate_offset (SETCALLGATE sel off dpl gate) = off"
proof -
  have "ucast (ucast (off AND 0xffff) :: u16) OR push_bit 16 (ucast (ucast (drop_bit 16 off) :: u16)) = off"
    by (rule bit_word_eqI) (simp only: bit_simps bit_masks possible_bit_word, auto)
  then show "gate_offset (SETGATE istrap sel off dpl gate) = off" "gate_offset (SETCALLGATE sel off dpl gate) = off"
    by (simp_all add: gate_offset_def SETGATE_def SETCALLGATE_def)
qed

end
