(* ===== verification/Processor.thy ===== *)
theory Processor
  imports Descriptors Machine
begin

text \<open>
  The rest of inc/x86.h and inc/mmu.h that concerns the processor itself: the descriptor-table
  registers with the structure they are loaded from, the loads of a local table and of a task, the task
  state segment, the frame and stack pointers, and \<open>cpuid\<close>.  No code of the repository calls these
  functions yet.  An instruction that traps has the vector of the trap as its result; what happens next
  is up to the interrupt table, which the kernel does not set up.
\<close>

section \<open>Descriptor-table registers\<close>

text \<open>The six bytes behind the operand of \<open>lgdt\<close> and \<open>lidt\<close>: the structure is packed.\<close>

record Pseudodesc =
  pd_lim :: u16
  pd_base :: u32

definition le32 :: "u32 \<Rightarrow> u8 list" where
  "le32 w = le16 (ucast w) @ le16 (ucast (drop_bit 16 w))"

definition pseudo_bytes :: "Pseudodesc \<Rightarrow> u8 list" where
  "pseudo_bytes d = le16 (pd_lim d) @ le32 (pd_base d)"

definition pseudo_at :: "memory \<Rightarrow> u32 \<Rightarrow> Pseudodesc" where
  "pseudo_at m p = \<lparr>pd_lim = load16 m p, pd_base = load32 m (p + 2)\<rparr>"

record cpu = machine +
  idtr :: Pseudodesc
  gdtr :: Pseudodesc
  ldtr :: u16
  task_reg :: u16
  reg_ebp :: u32
  reg_esp :: u32

definition lidt :: "u32 \<Rightarrow> 'a cpu_scheme \<Rightarrow> 'a cpu_scheme" where
  "lidt p s = s\<lparr>idtr := pseudo_at (mem s) p\<rparr>"

definition lgdt :: "u32 \<Rightarrow> 'a cpu_scheme \<Rightarrow> 'a cpu_scheme" where
  "lgdt p s = s\<lparr>gdtr := pseudo_at (mem s) p\<rparr>"

datatype 's executed = Next 's | Trap nat

definition breakpoint :: "'a cpu_scheme \<Rightarrow> 'a cpu_scheme executed" where
  "breakpoint s = Trap 3"

text \<open>
  \<open>lldt\<close> and \<open>ltr\<close> look up their selector in the table of \<open>lgdt\<close>.  Bits 3 to 15 of a selector are
  the index, bit 2 says that the entry is in a local table; byte 5 of an entry has the type in bits 0 to 4,
  the system bit included, and the present bit.  Vector 13 is general protection, 11 segment not present.
\<close>

definition descriptor_at :: "u16 \<Rightarrow> 'a cpu_scheme \<Rightarrow> u32" where
  "descriptor_at sel s = pd_base (gdtr s) + ucast (sel AND 0xFFF8)"

definition in_gdt :: "u16 \<Rightarrow> 'a cpu_scheme \<Rightarrow> bool" where
  "in_gdt sel s \<longleftrightarrow> sel AND 4 = 0 \<and> unat (sel AND 0xFFF8) + 7 \<le> unat (pd_lim (gdtr s))"

definition lldt :: "u16 \<Rightarrow> 'a cpu_scheme \<Rightarrow> 'a cpu_scheme executed" where
  "lldt sel s =
     (let access = mem s (descriptor_at sel s + 5) in
      if sel AND 0xFFFC = 0 then Next (s\<lparr>ldtr := sel\<rparr>)
      else if \<not> in_gdt sel s then Trap 13
      else if access AND 0x1F \<noteq> 2 then Trap 13
      else if access AND 0x80 = 0 then Trap 11
      else Next (s\<lparr>ldtr := sel\<rparr>))"

definition ltr :: "u16 \<Rightarrow> 'a cpu_scheme \<Rightarrow> 'a cpu_scheme executed" where
  "ltr sel s =
     (let a = descriptor_at sel s + 5; access = mem s a in
      if sel AND 0xFFFC = 0 then Trap 13
      else if \<not> in_gdt sel s then Trap 13
      else if access AND 0x1F \<notin> {1, 9} then Trap 13
      else if access AND 0x80 = 0 then Trap 11
      else Next (s\<lparr>mem := (mem s)(a := access OR 2), task_reg := sel\<rparr>))"

definition read_ebp :: "'a cpu_scheme \<Rightarrow> u32" where
  "read_ebp s = reg_ebp s"

definition read_esp :: "'a cpu_scheme \<Rightarrow> u32" where
  "read_esp s = reg_esp s"

section \<open>Identification\<close>

text \<open>
  What the processor answers to \<open>cpuid\<close> is a parameter, four registers for the number in \<open>eax\<close>.  A
  null pointer means that the caller does not want the register; the stores happen in this order.
\<close>

type_synonym cpu_id = "u32 \<Rightarrow> u32 \<times> u32 \<times> u32 \<times> u32"

definition store_unless_null :: "u32 \<Rightarrow> u32 \<Rightarrow> 'a machine_scheme \<Rightarrow> 'a machine_scheme" where
  "store_unless_null p v s = (if p \<noteq> 0 then s\<lparr>mem := store32 (mem s) p v\<rparr> else s)"

definition cpuid :: "cpu_id \<Rightarrow> u32 \<Rightarrow> u32 \<Rightarrow> u32 \<Rightarrow> u32 \<Rightarrow> u32 \<Rightarrow> 'a machine_scheme \<Rightarrow> 'a machine_scheme" where
  "cpuid answer info eaxp ebxp ecxp edxp s =
     (let (eax, ebx, ecx, edx) = answer info;
          s1 = store_unless_null eaxp eax s;
          s2 = store_unless_null ebxp ebx s1;
          s3 = store_unless_null ecxp ecx s2
      in store_unless_null edxp edx s3)"

section \<open>The task state segment\<close>

record Taskstate =
  ts_link :: u32
  ts_esp0 :: u32
  ts_ss0 :: u16
  ts_padding1 :: u16
  ts_esp1 :: u32
  ts_ss1 :: u16
  ts_padding2 :: u16
  ts_esp2 :: u32
  ts_ss2 :: u16
  ts_padding3 :: u16
  ts_cr3 :: u32
  ts_eip :: u32
  ts_eflags :: u32
  ts_eax :: u32
  ts_ecx :: u32
  ts_edx :: u32
  ts_ebx :: u32
  ts_esp :: u32
  ts_ebp :: u32
  ts_esi :: u32
  ts_edi :: u32
  ts_es :: u16
  ts_padding4 :: u16
  ts_cs :: u16
  ts_padding5 :: u16
  ts_ss :: u16
  ts_padding6 :: u16
  ts_ds :: u16
  ts_padding7 :: u16
  ts_fs :: u16
  ts_padding8 :: u16
  ts_gs :: u16
  ts_padding9 :: u16
  ts_ldt :: u16
  ts_padding10 :: u16
  ts_t :: u16
  ts_iomb :: u16

text \<open>Its bytes: every field lies on a multiple of its size, so the compiler adds no padding.\<close>

definition stack_bytes :: "u32 \<Rightarrow> u16 \<Rightarrow> u16 \<Rightarrow> u8 list" where
  "stack_bytes esp ss padding = le32 esp @ le16 ss @ le16 padding"

definition ts_bytes :: "Taskstate \<Rightarrow> u8 list" where
  "ts_bytes t = le32 (ts_link t)
     @ stack_bytes (ts_esp0 t) (ts_ss0 t) (ts_padding1 t)
     @ stack_bytes (ts_esp1 t) (ts_ss1 t) (ts_padding2 t)
     @ stack_bytes (ts_esp2 t) (ts_ss2 t) (ts_padding3 t)
     @ concat (map le32 [ts_cr3 t, ts_eip t, ts_eflags t, ts_eax t, ts_ecx t, ts_edx t, ts_ebx t,
         ts_esp t, ts_ebp t, ts_esi t, ts_edi t])
     @ concat (map le16 [ts_es t, ts_padding4 t, ts_cs t, ts_padding5 t, ts_ss t, ts_padding6 t,
         ts_ds t, ts_padding7 t, ts_fs t, ts_padding8 t, ts_gs t, ts_padding9 t,
         ts_ldt t, ts_padding10 t, ts_t t, ts_iomb t])"

section \<open>Properties\<close>

lemma length_le [simp]: "length (le16 w) = 2" "length (le32 v) = 4"
  by (simp_all add: le16_def le32_def)

text \<open>
  The hardware reads the stacks of the inner rings at offsets 4, 12 and 20, and the I/O map base at 102;
  the limit of the descriptor is the size less one, 103.
\<close>

lemma ts_layout:
  "length (ts_bytes t) = 104"
  "take 6 (drop 4 (ts_bytes t)) = le32 (ts_esp0 t) @ le16 (ts_ss0 t)"
  "take 4 (drop 28 (ts_bytes t)) = le32 (ts_cr3 t)"
  "drop 102 (ts_bytes t) = le16 (ts_iomb t)"
  by (simp_all add: ts_bytes_def stack_bytes_def)

lemma le32_bytes: "le32 w = [ucast w, ucast (drop_bit 8 w), ucast (drop_bit 16 w), ucast (drop_bit 24 w)]"
proof -
  have "ucast (ucast w :: u16) = (ucast w :: u8)" "ucast (drop_bit 8 (ucast w :: u16)) = (ucast (drop_bit 8 w) :: u8)"
    "ucast (ucast (drop_bit 16 w) :: u16) = (ucast (drop_bit 16 w) :: u8)"
    "ucast (drop_bit 8 (ucast (drop_bit 16 w) :: u16)) = (ucast (drop_bit 24 w) :: u8)"
    by (rule bit_word_eqI; auto simp: bit_simps possible_bit_word ac_simps)+
  then show ?thesis by (simp add: le32_def le16_def)
qed

lemma load_le16: "read_bytes m p 2 = le16 w \<Longrightarrow> load16 m p = w"
proof -
  assume "read_bytes m p 2 = le16 w"
  then have "load16 m p = load16 (store16 m p w) p"
    by (simp add: numeral_2_eq_2 le16_def load16_def store16_def)
  then show ?thesis by (simp only: cell16.load_store)
qed

lemma load_le32: "read_bytes m p 4 = le32 w \<Longrightarrow> load32 m p = w"
proof -
  assume "read_bytes m p 4 = le32 w"
  then have "m p = ucast w" "m (p + 1) = ucast (drop_bit 8 w)"
    "m (p + 2) = ucast (drop_bit 16 w)" "m (p + 3) = ucast (drop_bit 24 w)"
    by (simp_all add: eval_nat_numeral le32_bytes add.commute)
  then have "load32 m p = load32 (store32 m p w) p" by (simp add: load32_def store32_def)
  then show ?thesis by (simp only: cell32.load_store)
qed

text \<open>A table register gets the structure that lies at its operand.\<close>

lemma lgdt_loads:
  assumes "read_bytes (mem s) p 6 = pseudo_bytes d"
  shows "gdtr (lgdt p s) = d" "idtr (lidt p s) = d"
proof -
  have "read_bytes (mem s) p 6 = read_bytes (mem s) p 2 @ read_bytes (mem s) (p + 2) 4"
    by (simp add: numeral_eq_Suc add.commute)
  then have "read_bytes (mem s) p 2 = le16 (pd_lim d)" "read_bytes (mem s) (p + 2) 4 = le32 (pd_base d)"
    using assms by (simp_all add: pseudo_bytes_def)
  then have "pseudo_at (mem s) p = d" by (simp add: pseudo_at_def load_le16 load_le32)
  then show "gdtr (lgdt p s) = d" "idtr (lidt p s) = d" by (simp_all add: lgdt_def lidt_def)
qed

text \<open>
  \<open>ltr\<close> takes the descriptor of an available task and marks it busy, so that the same task cannot be
  loaded a second time.
\<close>

lemma access_byte:
  "read_bytes m p 8 = seg_bytes d \<Longrightarrow> m (p + 5) = ucast (sd_type d) OR push_bit 4 (ucast (sd_s d))
     OR push_bit 5 (ucast (sd_dpl d)) OR push_bit 7 (ucast (sd_p d))"
proof -
  assume r: "read_bytes m p 8 = seg_bytes d"
  have "m (p + 5) = read_bytes m p 8 ! 5" by (simp add: nth_read_bytes)
  then show ?thesis by (simp add: r seg_bytes_def le16_def)
qed

lemma task_access:
  fixes dpl :: "2 word"
  shows "(9 OR push_bit 5 (ucast dpl) OR 128) AND (0x1F :: u8) = 9" "(9 OR push_bit 5 (ucast dpl) OR 128) AND (0x80 :: u8) \<noteq> 0"
    "(9 OR push_bit 5 (ucast dpl) OR 128 OR 2) AND (0x1F :: u8) = 11"
proof -
  have "uint dpl < 4" "0 \<le> uint dpl" using uint_lt2p [of dpl] by simp_all
  then have "uint dpl = 0 \<or> uint dpl = 1 \<or> uint dpl = 2 \<or> uint dpl = 3" by linarith
  then have "dpl = 0 \<or> dpl = 1 \<or> dpl = 2 \<or> dpl = 3" by (simp add: word_uint_eq_iff)
  then show "(9 OR push_bit 5 (ucast dpl) OR 128) AND (0x1F :: u8) = 9" "(9 OR push_bit 5 (ucast dpl) OR 128) AND (0x80 :: u8) \<noteq> 0"
    "(9 OR push_bit 5 (ucast dpl) OR 128 OR 2) AND (0x1F :: u8) = 11"
    by (elim disjE; simp)+
qed

lemma ltr_busy:
  assumes d: "read_bytes (mem s) (descriptor_at sel s) 8 = seg_bytes d" "sd_type d = 9" "sd_s d = 0" "sd_p d = 1"
    and sel: "in_gdt sel s" "sel AND 0xFFFC \<noteq> 0"
  shows "\<exists>t. ltr sel s = Next t \<and> task_reg t = sel \<and> (\<forall>a. a \<noteq> descriptor_at sel s + 5 \<longrightarrow> mem t a = mem s a)
    \<and> ltr sel t = Trap 13"
proof -
  have acc: "mem s (descriptor_at sel s + 5) = 9 OR push_bit 5 (ucast (sd_dpl d)) OR 128"
    using access_byte [OF d(1)] d(2-4) by simp
  let ?t = "s\<lparr>mem := (mem s)(descriptor_at sel s + 5 := mem s (descriptor_at sel s + 5) OR 2), task_reg := sel\<rparr>"
  have "ltr sel s = Next ?t" using task_access(1,2) sel by (simp add: ltr_def acc Let_def)
  moreover have at: "descriptor_at sel ?t = descriptor_at sel s" "in_gdt sel ?t" using sel by (simp_all add: descriptor_at_def in_gdt_def)
  then have "ltr sel ?t = Trap 13" using task_access(3) sel by (simp add: ltr_def acc Let_def or.assoc)
  ultimately show ?thesis by simp
qed

text \<open>
  \<open>cpuid\<close> stores each register through the pointer given for it, if any, when the places do not
  overlap, and changes nothing but memory.
\<close>

lemma store_unless_null_load:
  "p \<noteq> 0 \<Longrightarrow> load32 (mem (store_unless_null p v s)) p = v"
  "disjoint_rng p 4 q 4 \<Longrightarrow> load32 (mem (store_unless_null q v s)) p = load32 (mem s) p"
  by (simp_all add: store_unless_null_def cell32.load_store cell32.load_store_other)

lemma cpuid_stores:
  assumes "answer info = (a, b, c, d)"
    and "disjoint_rng pa 4 pb 4" "disjoint_rng pa 4 pc 4" "disjoint_rng pa 4 pd 4"
    and "disjoint_rng pb 4 pc 4" "disjoint_rng pb 4 pd 4" "disjoint_rng pc 4 pd 4"
  shows "pa \<noteq> 0 \<Longrightarrow> load32 (mem (cpuid answer info pa pb pc pd s)) pa = a"
    and "pb \<noteq> 0 \<Longrightarrow> load32 (mem (cpuid answer info pa pb pc pd s)) pb = b"
    and "pc \<noteq> 0 \<Longrightarrow> load32 (mem (cpuid answer info pa pb pc pd s)) pc = c"
    and "pd \<noteq> 0 \<Longrightarrow> load32 (mem (cpuid answer info pa pb pc pd s)) pd = d"
    and "cpuid answer info pa pb pc pd s = s\<lparr>mem := mem (cpuid answer info pa pb pc pd s)\<rparr>"
proof -
  have "store_unless_null p v s = s\<lparr>mem := mem (store_unless_null p v s)\<rparr>" for p v and s :: "'a machine_scheme"
    by (simp add: store_unless_null_def)
  then show "cpuid answer info pa pb pc pd s = s\<lparr>mem := mem (cpuid answer info pa pb pc pd s)\<rparr>"
    by (simp add: cpuid_def store_unless_null_def Let_def split: prod.split)
qed (use assms in \<open>simp_all add: cpuid_def store_unless_null_load\<close>)

end
