(* ===== verification/Spec2Isabelle.thy ===== *)
theory Spec2Isabelle
  imports Kdebug Format_Items String_Props String_Fallback Boot_Props Kernel_Session Console_Types Kern_Pgdir Processor
begin

text \<open>
  A verification library for the JOS kernel of this repository (kern/, lib/, boot/, inc/): an
  i386 kernel with a console, a formatted printer, a line editor and monitor, a reader of debug
  information, a boot loader and the beginning of a physical memory manager.

  \<^bold>\<open>How the program hangs together.\<close>  The boot loader (boot/main.c) reads the kernel from the disk
  and enters it; i386_init (kern/init.c) clears the bss, initialises the console (kern/console.c),
  prints with cprintf (kern/printf.c over lib/printfmt.c), calls mem_init (kern/pmap.c), which in
  this commit always panics, and the panic enters the monitor (kern/monitor.c), which reads lines
  with readline (lib/readline.c) from getchar (kern/console.c) and answers them.  lib/string.c
  serves all of them; kern/kdebug.c finds the function an address belongs to.

  \<^bold>\<open>Conventions.\<close>  Memory is the linear address space, a function from 32-bit addresses to bytes; a
  pointer is an address.  Integers are words of their C width, signed comparisons and divisions are
  written as such, and signed overflow wraps as the i386 instructions do; table indices of
  kern/kdebug.c, which stay far below the bounds of int, are integers.  A string literal is the list of its bytes
  (read-only data at an address the linker chooses); only the literal that debuginfo_eip stores in its
  result has an address, in the record linkmap with the linker's other symbols.  Static variables are fields
  of records that extend each other: machine (memory, control registers, log of port accesses), con
  (console), kst (kernel).  Devices are a parameter hw: what a port read returns is a function of the
  log of all accesses before it, so that a device may be any deterministic machine.  A loop that may
  run for ever is a partial function and None means that it does; loops with a bound are total and
  no fuel is used anywhere.  Code that can panic has results Ret and Panic, the latter with the
  arguments of the call of _panic; __LINE__ in a macro call that spans lines is the first of them,
  and operands are evaluated from left to right.

  \<^bold>\<open>Theories.\<close>

  Prelude: the integer types, memory, address ranges, little-endian cells (locale cell_access,
  interpreted for 16 and 32 bits), runs of bytes.

  Machine (inc/x86.h, inc/assert.h): ports, control registers, flags, xchg; the results of kernel
  code and its sequencing.

  Mmu (inc/types.h, inc/mmu.h, inc/memlayout.h): rounding, address macros, flags, the memory map,
  with the laws of the parts of an address.  Descriptors (inc/mmu.h): segment and gate descriptors;
  the C macro SEG and the assembly macro SEG agree.  Processor (inc/x86.h, inc/mmu.h): the loads of the
  descriptor-table registers, of a local table and of a task, cpuid, the stack pointers and the task state
  segment, with its layout.

  Strings, String_Mem, String_Laws, String_Props (lib/string.c): every function of the file, the
  assembly versions of memset and memmove included, against the strings in memory.  String_Fallback: the
  portable versions of the two, and where they agree with the assembly ones (a count of exactly 0x80000000,
  at which the int counter of the portable memset overflows, is left out).

  Kdebug (kern/kdebug.c, inc/stab.h): stab_binsearch with its termination and what it finds, and
  debuginfo_eip in all its outcomes.  After an exact match the search goes on for the address plus one, so
  what it finds may lie above the address; the predicate overshoot says where.  debuginfo_eip returns the
  information it stores through its pointer as a value.

  Format, Format_Laws (lib/printfmt.c, inc/stdarg.h): vprintfmt over any putch.  The locale sink is the
  contract of a putch function; it is interpreted on a list, on the buffer of vsnprintf and, in Printf, on the
  console.  The function render says what a format prints on a sink; it scans the format as the code does.
  Format_Items pins it down without the scanner: formats as lists of characters and directives, their text
  and, over integers, their meaning, and the proof that the text of such a list prints its meaning.

  Console, Console_Laws (kern/console.c, output): serial and parallel port and text display.  The
  display refines an abstract terminal of 2000 cells and a cursor.  Printf (kern/printf.c): cprintf
  on the console; the relations prints and says state what a piece of the kernel prints and
  compose.

  Keyboard, Keyboard_Laws, Keyboard_Props (kern/console.c, input, inc/kbdreg.h): scan codes, the
  serial receiver, the ring buffer (locale bounded_queue, interpreted on put_char and get_char), draining of
  devices (locale input_device, interpreted on the serial port and the keyboard), getchar, cons_init.
  The result of cga_init is tied to a display controller that reports a cursor position (cursor_at).
  Serial_Line: a terminal on the serial line that sends a given sequence of bytes, what the kernel has
  not read of it yet, in the receiver or in the ring buffer, and what draining the line leaves in the ring.
  Console_Types: the well-formed consoles and their preservation by every entry point of the driver
  (locale typed_device, which extends input_device).

  Readline, Readline_Props (lib/readline.c): the loop, and the line that a dialog of keys makes.
  Monitor, Monitor_Laws, Monitor_Props (kern/monitor.c): commands, the parser of command lines
  against the function words, the answer to a line, and sessions.  The loop of monitor is never left, so its
  result is always None; what it does on the way is said with monitor_steps, which runs the body of that loop
  (monitor_body, shared with monitor_loop) turn by turn and goes back to the call of monitor when a turn leaves
  the loop; the lemmas steps_leave and loop_leaves tie these steps to monitor_loop.

  Boot, Boot_Laws, Boot_Props (boot/main.c, inc/elf.h): bootmain against an IDE disk that is given by what its
  ports answer.  The disk is busy as long as it likes, and answers with its data only after its status has
  said that it is ready, before a command and again before the data.

  Entry_Table, Pmap, Pmap_Checks (kern/pmap.c, kern/pmap.h, kern/kclock.c, kern/entrypgdir.c): the
  entry page table row by row, detection of memory, the page array, the checking functions statement
  by statement and mem_init.  The page functions that the source leaves empty are empty here.  Pmap_Laws, Pmap_Props,
  Pmap_Instances: the free list as a path through memory (locale linked_nodes, interpreted on the
  page structures), what page_init and the checks establish, and worked instances.  Kern_Pgdir: address
  translation as the processor does it (function translate), the address space that the kernel means to
  build, and the proof that check_kern_pgdir accepts a page directory exactly when it gives that address
  space; the same for the function of a kernel with large pages, with the branch under the build option TP1_PSE
  (locale pure_check, the contract of a check of one directory entry).  As in the source only the first page of the
  guard below the stack is checked.  The memory size is computed from the contents of the CMOS (cmos_ram,
  cmos_sizes).

  Init, Init_Props (kern/init.c): i386_init, _panic and _warn.  Both i386_init and _panic end in a loop
  that is never left, so the functions i386_start and panic_report are what they do before it, and the
  properties are about these.  Kernel_Session composes the parts: i386_init with a terminal on the serial
  line, the panic of mem_init, the monitor's welcome and its answers to the lines that are typed.

  This theory: snprintf and strtol are inverse.

  \<^bold>\<open>Not modelled.\<close>  boot/boot.S and kern/entry.S are assembly.  user/sendpage.c and fs/test.c call
  the user library and the file server of later versions of the kernel, which are not in the repository.
  read_tsc of inc/x86.h reads a counter that advances by itself, and no C code here calls it.  Most
  constants that no code uses have no definition.  The page functions that the source leaves to be written (page_alloc,
  page_free, pgdir_walk, boot_map_region, page_insert, page_lookup, page_remove) do what their bodies here do.
\<close>

section \<open>Printing and parsing are inverse\<close>

lemma strtol_decimal:
  assumes "cstr m p (pre @ decimal n)" and pre: "pre = [] \<or> pre = [45]"
  shows "strtol p 0 10 m = Some (if pre = [] then of_nat n else - of_nat n, m)"
proof -
  let ?q = "p + of_nat (length pre)"
  have c: "cstr m ?q (decimal n)" and hd: "pre = [45] \<Longrightarrow> m p = 45"
    using assms by (auto simp: algebra_simps)
  obtain d ds where dd: "digits 10 n = d # ds" "d < 10"
    using digits_bound [of 10 n] digits_not_Nil [of 10 n] by (cases "digits 10 n") auto
  have first: "m ?q = 48 + of_nat d" using c dd by (simp add: decimal_bytes)
  note plain = digit_byte(3) [OF dd(2)]
  have "skip_blanks m p = Some p"
    using first hd pre plain by (subst skip_blanks.simps) auto
  moreover have "strtol_sign m p = (pre \<noteq> [], ?q)"
    using first hd pre plain by (auto simp: strtol_sign_def)
  moreover have "strtol_digits m ?q 10 0 = Some (of_nat n, ?q + of_nat (length (decimal n)))"
  proof -
    have end0: "m (?q + of_nat (length (decimal n))) = 0" using c by (simp add: cstr_read)
    have "list_all2 (\<lambda>x d. strtol_digit x = Some (of_nat d) \<and> d < 10) (decimal n) (digits 10 n)"
      using digits_bound [of 10 n] digit_byte(2)
      by (simp add: decimal_bytes list_all2_map1 list_all2_same)
    moreover have "strtol_digit 0 = None" by (simp add: strtol_digit_def word_sle_eq)
    ultimately have "strtol_digits m ?q (of_nat 10) 0 =
        Some (foldl (\<lambda>a d. a * of_nat 10 + of_nat d) 0 (digits 10 n), ?q + of_nat (length (decimal n)))"
      using c end0 by (intro strtol_digits_run [where rest = "[]"]) simp_all
    then show ?thesis
      using foldl_of_nat [of 10 0 "digits 10 n"] digits_value [of 10 n] by simp
  qed
  moreover have "strtol_prefix m ?q 10 = (?q, 10)" by (simp add: strtol_prefix_def)
  ultimately show ?thesis by (simp add: strtol_def Let_def)
qed

lemma signed_text_decimal:
  "map ucast (signed_text (scast (w :: u32)) spec0) =
    (if sint w < 0 then [45] else []) @ decimal (nat \<bar>sint w\<bar>)"
proof -
  have gap: "nat (- 1 - int (length xs)) = 0" for xs :: "nat list" by simp
  then have "map ucast (number_text 10 k (- 1) c) = decimal k" for k c
    by (simp add: number_text_def decimal_def Let_def)
  then show ?thesis by (simp add: signed_text_padded padded_int_def spec0_fields word_sless_alt)
qed

lemma decimal_no_nul: "0 \<notin> set (decimal n)"
  using digits_bound [of 10 n] digit_byte(3) by (fastforce simp: decimal_bytes)

text \<open>What \<open>snprintf\<close> writes for an int.\<close>

definition int_bytes :: "i32 \<Rightarrow> u8 list" where
  "int_bytes w = (if sint w < 0 then [45] else []) @ decimal (nat \<bar>sint w\<bar>)"

lemma int_bytes_short: "length (int_bytes w) \<le> 11" "0 \<notin> set (int_bytes w)"
proof -
  have "nat \<bar>sint w\<bar> < 10 ^ Suc 9" using sint32_range [of w] by (simp add: nat_less_iff)
  then have "length (decimal (nat \<bar>sint w\<bar>)) \<le> 10"
    using digits_length_base [of 10 "nat \<bar>sint w\<bar>" 9] by (simp add: decimal_def)
  moreover have "length (if sint w < 0 then [45] else [] :: u8 list) \<le> 1" by simp
  ultimately show "length (int_bytes w) \<le> 11" unfolding int_bytes_def length_append by linarith
  show "0 \<notin> set (int_bytes w)" using decimal_no_nul by (simp add: int_bytes_def)
qed

lemma int_of_magnitude: "(if sint w < 0 then - of_nat (nat \<bar>sint w\<bar>) else of_nat (nat \<bar>sint w\<bar>)) = (w :: i32)"
proof -
  have "int (nat \<bar>sint w\<bar>) = \<bar>sint w\<bar>" by (rule nat_0_le) (rule abs_ge_zero)
  moreover have "(of_nat (nat \<bar>sint w\<bar>) :: i32) = of_int (int (nat \<bar>sint w\<bar>))" by (rule of_int_of_nat_eq [symmetric])
  ultimately have k: "(of_nat (nat \<bar>sint w\<bar>) :: i32) = of_int \<bar>sint w\<bar>" by (simp only:)
  show ?thesis
  proof (cases "sint w < 0")
    case True
    then have "- (of_nat (nat \<bar>sint w\<bar>) :: i32) = of_int (sint w)" unfolding k by simp
    with True show ?thesis by simp
  next
    case False
    then have "(of_nat (nat \<bar>sint w\<bar>) :: i32) = of_int (sint w)" unfolding k by simp
    with False show ?thesis by simp
  qed
qed

lemma int_render: "render (ascii ''%d'') 0 [Slot w] = Some (signed_text (scast w) spec0)"
proof -
  have scan: "scan_flags (ascii ''%d'') (Suc 0) [Slot w] spec0
      = Some (asc (CHR ''d''), 2, [Slot w], spec0)"
    by (subst scan_flags.simps) (simp add: fch_def)
  have stop: "render [37, 100] 2 [] = Some []" by (subst render.simps) (simp add: fch_def)
  show ?thesis
    using scan
    by (subst render.simps)
      (simp add: fch_def is_conv_def conv_text_def spec0_fields getint_def word_sle_eq stop)
qed

lemma snprintf_int:
  assumes buf: "buf \<noteq> 0" "12 \<le>s n" "unat buf + unat n \<le> 4294967296"
  shows "\<exists>len. snprintf buf n (ascii ''%d'') [Slot w] m = Some (len, write_bytes (int_bytes w @ [0]) buf m)"
proof -
  have sn: "12 \<le> sint n" using buf(2) by (simp add: word_sle_eq)
  then have "int (unat n) = sint n" by (intro sint_nonneg_uint) simp
  then have n: "0 <s n" "12 \<le> unat n" using sn by (simp_all only: word_sless_alt) simp_all
  have args: "string_args buf (unat n) m [Slot w] [Slot w]" by (simp add: string_args_def)
  have bytes: "map ucast (signed_text (scast w) spec0) = int_bytes w"
    unfolding int_bytes_def by (rule signed_text_decimal)
  have "take (unat n - 1) (int_bytes w) = int_bytes w" using int_bytes_short(1) [of w] n(2) by simp
  then have "map ucast (take (unat n - 1) (signed_text (scast w) spec0)) = int_bytes w"
    by (simp only: flip: take_map bytes)
  with vsnprintf_run [OF buf(1) n(1) buf(3) args int_render] show ?thesis by (simp add: snprintf_def)
qed

text \<open>
  C10: what \<open>snprintf\<close> writes for an int with \<open>%d\<close> into a buffer of at least 12 bytes, \<open>strtol\<close>
  with base 10 reads back as that int, the least one included.
\<close>

theorem strtol_reads_snprintf:
  assumes buf: "buf \<noteq> 0" "12 \<le>s n" "unat buf + unat n \<le> 4294967296"
  shows "\<exists>len m'. snprintf buf n (ascii ''%d'') [Slot w] m = Some (len, m')
    \<and> strtol buf 0 10 m' = Some (w, m')"
proof -
  let ?pre = "if sint w < 0 then [45] else ([] :: u8 list)" and ?k = "nat \<bar>sint w\<bar>"
  let ?m' = "write_bytes (int_bytes w @ [0]) buf m"
  have "cstr ?m' buf (?pre @ decimal ?k)"
    using int_bytes_short [of w] unfolding int_bytes_def by (intro cstr_write_bytes) auto
  from strtol_decimal [OF this]
  have "strtol buf 0 10 ?m' = Some (if ?pre = [] then of_nat ?k else - of_nat ?k, ?m')" by simp
  moreover have "(if ?pre = [] then of_nat ?k else - of_nat ?k) = w" using int_of_magnitude [of w] by auto
  ultimately show ?thesis using snprintf_int [OF buf, of w m] by auto
qed

theorem strtol_reads_snprintf_witness:
  "\<exists>len m'. snprintf 64 16 (ascii ''%d'') [Slot 0x80000000] (\<lambda>_. 0) = Some (len, m')
    \<and> strtol 64 0 10 m' = Some (0x80000000, m')"
  by (rule strtol_reads_snprintf) (simp_all add: word_sle_eq)

end
